(* ===== verification/Prelude.thy ===== *)
theory Prelude
  imports Main "HOL-Library.AList"
begin

section \<open>Shared types, collections and lemmas\<close>

text \<open>
  What every component theory uses: Go maps as association lists with their
  lookup and update laws, Go errors as values, MQTT messages, and the fact
  collections that the component proofs pass to the simplifier.
  \<^item> \<open>go_lib\<close> holds the evaluation rules of the Go library functions that
    are modelled (strings, JSON, durations);
  \<^item> \<open>frame_simps\<close> holds the facts that say which parts of a state an
    operation leaves alone.
\<close>

named_theorems go_lib
named_theorems frame_simps

subsection \<open>Go maps\<close>

text \<open>
  A Go map is an association list: the list order stands for one of the orders
  in which \<^verbatim>\<open>range\<close> may visit the entries. Reading is \<open>map_of\<close>
  (a missing key is \<open>None\<close>, as in the two-value form \<^verbatim>\<open>v, ok := m[k]\<close>),
  writing is \<open>mput\<close>, \<^verbatim>\<open>delete\<close> is \<open>mdel\<close>. A nil map reads like an
  empty one.
\<close>

type_synonym ('k, 'v) gomap = "('k \<times> 'v) list"

definition mput :: "'k \<Rightarrow> 'v \<Rightarrow> ('k, 'v) gomap \<Rightarrow> ('k, 'v) gomap" where
  "mput k v m = AList.update k v m"

definition mdel :: "'k \<Rightarrow> ('k, 'v) gomap \<Rightarrow> ('k, 'v) gomap" where
  "mdel k m = AList.delete k m"

abbreviation mkeys :: "('k, 'v) gomap \<Rightarrow> 'k list" where
  "mkeys m \<equiv> map fst m"

abbreviation mwf :: "('k, 'v) gomap \<Rightarrow> bool" where
  "mwf m \<equiv> distinct (map fst m)"

lemma map_of_mput [simp]: "map_of (mput k v m) = (map_of m)(k \<mapsto> v)"
  by (simp add: mput_def AList.update_conv')

lemma map_of_mdel [simp]: "map_of (mdel k m) = (map_of m)(k := None)"
  by (simp add: mdel_def AList.delete_conv')

lemma mwf_mput [simp, intro]: "mwf m \<Longrightarrow> mwf (mput k v m)"
  by (simp add: mput_def AList.distinct_update)

lemma mwf_mdel [simp, intro]: "mwf m \<Longrightarrow> mwf (mdel k m)"
  by (simp add: mdel_def AList.distinct_delete)

lemma fst_set_mput [simp]: "fst ` set (mput k v m) = insert k (fst ` set m)"
  by (simp add: mput_def AList.dom_update)

lemma mput_ne_Nil [simp]: "mput k v m \<noteq> []"
  by (cases m) (auto simp: mput_def)

lemma mput_simps [go_lib]:
  "mput k v [] = [(k, v)]"
  "mput k v ((k', v') # m) = (if k' = k then (k, v) # m else (k', v') # mput k v m)"
  by (simp_all add: mput_def)

lemma set_mput:
  assumes "mwf m"
  shows "(k', v') \<in> set (mput k v m) \<longleftrightarrow> (if k' = k then v' = v else (k', v') \<in> set m)"
proof -
  have "(k', v') \<in> set (mput k v m) \<longleftrightarrow> map_of (mput k v m) k' = Some v'"
    using assms by (simp only: map_of_eq_Some_iff mwf_mput)
  moreover have "(k', v') \<in> set m \<longleftrightarrow> map_of m k' = Some v'"
    using assms by (simp only: map_of_eq_Some_iff)
  ultimately show ?thesis by auto
qed

text \<open>The loop \<^verbatim>\<open>for k, v := range src { dst[k] = v }\<close>.\<close>

primrec mcopy :: "('k, 'v) gomap \<Rightarrow> ('k, 'v) gomap \<Rightarrow> ('k, 'v) gomap" where
  "mcopy [] dst = dst"
| "mcopy (p # src) dst = mcopy src (mput (fst p) (snd p) dst)"

lemma mwf_mcopy [simp, intro]: "mwf dst \<Longrightarrow> mwf (mcopy src dst)"
  by (induction src arbitrary: dst) auto

lemma map_of_mcopy: "mwf src \<Longrightarrow> map_of (mcopy src dst) = map_of dst ++ map_of src"
proof (induction src arbitrary: dst)
  case Nil
  then show ?case by simp
next
  case (Cons p src)
  obtain k v where p: "p = (k, v)" by (cases p)
  with Cons.prems have wf: "mwf src" and k: "map_of src k = None"
    by (auto simp: map_of_eq_None_iff)
  have "(map_of dst)(k \<mapsto> v) ++ map_of src = map_of dst ++ (map_of src)(k \<mapsto> v)"
    using k by (auto simp: map_add_def fun_eq_iff split: option.splits)
  moreover have "map_of ((k, v) # src) = (map_of src)(k \<mapsto> v)"
    by (simp add: fun_eq_iff)
  ultimately show ?case
    using Cons.IH [OF wf, of "mput k v dst"] p by (simp only: mcopy.simps map_of_mput fst_conv snd_conv)
qed

lemma fst_set_mcopy [simp]: "fst ` set (mcopy src dst) = fst ` set src \<union> fst ` set dst"
  by (induction src arbitrary: dst) auto

text \<open>Filtering the entries by key, as a loop with \<^verbatim>\<open>continue\<close> does.\<close>

lemma map_of_filter_key: "map_of (filter (\<lambda>p. P (fst p)) m) k = (if P k then map_of m k else None)"
  by (induction m) auto

subsection \<open>Errors\<close>

text \<open>
  The error values of \<^verbatim>\<open>pkg/model\<close>, the context error and every other error,
  which the code only prints. \<open>NoMatch\<close> is an error that wraps
  \<^verbatim>\<open>model.NoMatchingDeviceTypeFound\<close> with a detail text.
\<close>

datatype goerr =
    ErrNotFound
  | ErrNoValueFound
  | ErrNotReady
  | NoMatch string
  | DeadlineExceeded
  | Other string

text \<open>\<^verbatim>\<open>errors.Is(err, model.NoMatchingDeviceTypeFound)\<close>.\<close>

fun is_no_match :: "goerr \<Rightarrow> bool" where
  "is_no_match (NoMatch _) = True"
| "is_no_match _ = False"

text \<open>\<^verbatim>\<open>err.Error()\<close>.\<close>

fun error_text :: "goerr \<Rightarrow> string" where
  "error_text ErrNotFound = ''not found''"
| "error_text ErrNoValueFound = ''no value found''"
| "error_text ErrNotReady = ''not ready''"
| "error_text (NoMatch d) = ''unable to find matching device type'' @ d"
| "error_text DeadlineExceeded = ''context deadline exceeded''"
| "error_text (Other e) = e"

subsection \<open>Searching a list\<close>

lemma find_append: "find P (xs @ ys) = (case find P xs of None \<Rightarrow> find P ys | Some x \<Rightarrow> Some x)"
  by (induction xs) auto

lemma find_SomeD: "find P xs = Some x \<Longrightarrow> x \<in> set xs \<and> P x"
  by (induction xs) (auto split: if_splits)

lemma find_None_all: "find P xs = None \<Longrightarrow> x \<in> set xs \<Longrightarrow> \<not> P x"
  by (auto simp: find_None_iff)

subsection \<open>Rewriting a list piece by piece\<close>

text \<open>
  A loop that reads a piece at the front of its input, appends what the piece becomes
  and goes on with the rest. \<open>h\<close> gives both; one unit of fuel per element is enough
  when \<open>h\<close> always consumes something.
\<close>

primrec pieces_fuel :: "('a list \<Rightarrow> 'b list \<times> 'a list) \<Rightarrow> nat \<Rightarrow> 'a list \<Rightarrow> 'b list" where
  "pieces_fuel h 0 s = []"
| "pieces_fuel h (Suc n) s = (if s = [] then [] else fst (h s) @ pieces_fuel h n (snd (h s)))"

definition pieces :: "('a list \<Rightarrow> 'b list \<times> 'a list) \<Rightarrow> 'a list \<Rightarrow> 'b list" where
  "pieces h s = pieces_fuel h (length s) s"

locale piecewise =
  fixes h :: "'a list \<Rightarrow> 'b list \<times> 'a list"
  assumes shrinks: "s \<noteq> [] \<Longrightarrow> length (snd (h s)) < length s"
begin

lemma pieces_fuel_enough: "length s \<le> n \<Longrightarrow> pieces_fuel h n s = pieces h s"
proof (induction n arbitrary: s rule: less_induct)
  case (less n)
  show ?case
  proof (cases "s = []")
    case True
    then show ?thesis by (cases n) (auto simp: pieces_def)
  next
    case False
    then obtain k where k: "length s = Suc k" by (cases s) auto
    with less.prems obtain m where n: "n = Suc m" by (cases n) auto
    have len: "length (snd (h s)) \<le> k" using shrinks [OF False] k by simp
    have "pieces_fuel h m (snd (h s)) = pieces h (snd (h s))"
      by (rule less.IH) (use n k less.prems len in auto)
    moreover have "pieces_fuel h k (snd (h s)) = pieces h (snd (h s))"
      by (rule less.IH) (use n k less.prems len in auto)
    ultimately show ?thesis using False n k by (simp add: pieces_def)
  qed
qed

lemma pieces_unfold: "s \<noteq> [] \<Longrightarrow> pieces h s = fst (h s) @ pieces h (snd (h s))"
proof -
  assume s: "s \<noteq> []"
  then obtain k where k: "length s = Suc k" by (cases s) auto
  have "pieces h s = fst (h s) @ pieces_fuel h k (snd (h s))"
    using s k by (simp add: pieces_def)
  also have "pieces_fuel h k (snd (h s)) = pieces h (snd (h s))"
    by (rule pieces_fuel_enough) (use shrinks [OF s] k in simp)
  finally show ?thesis .
qed

lemma pieces_Nil: "pieces h [] = []"
  by (simp add: pieces_def)

lemma pieces_induct:
  assumes "P []" and "\<And>s. s \<noteq> [] \<Longrightarrow> P (snd (h s)) \<Longrightarrow> P s"
  shows "P s"
proof (induction s rule: length_induct)
  case (1 s)
  then show ?case using assms shrinks by (cases "s = []") auto
qed

end

subsection \<open>Executions\<close>

text \<open>
  A step relation with a set of states it does not leave. What holds in the set and is kept by
  a step is kept by a run, and a goal is reached if there is a step towards it from every state.
\<close>

locale execution =
  fixes step :: "'s \<Rightarrow> 's \<Rightarrow> bool" and reach :: "'s \<Rightarrow> bool"
  assumes reach_step: "reach s \<Longrightarrow> step s s' \<Longrightarrow> reach s'"
begin

lemma reach_run: "step\<^sup>*\<^sup>* s s' \<Longrightarrow> reach s \<Longrightarrow> reach s'"
  by (induction rule: rtranclp_induct) (auto intro: reach_step)

lemma run_keeps:
  assumes "step\<^sup>*\<^sup>* s s'" and "reach s" and "P s"
    and "\<And>s s'. reach s \<Longrightarrow> P s \<Longrightarrow> step s s' \<Longrightarrow> P s'"
  shows "P s'"
  using assms(1)
proof (induction rule: rtranclp_induct)
  case (step s1 s2)
  then show ?case using assms(4) reach_run [OF step(1) assms(2)] by blast
qed (rule assms(3))

lemma progress:
  fixes measure_of :: "'s \<Rightarrow> nat"
  assumes "reach s" and "\<And>s. reach s \<Longrightarrow> \<not> P s \<Longrightarrow> \<exists>s'. step s s' \<and> measure_of s' < measure_of s"
  shows "\<exists>s'. step\<^sup>*\<^sup>* s s' \<and> reach s' \<and> P s'"
  using assms(1)
proof (induction "measure_of s" arbitrary: s rule: less_induct)
  case less
  show ?case
  proof (cases "P s")
    case False
    with assms(2) less.prems obtain s1 where s1: "step s s1" "measure_of s1 < measure_of s" by blast
    from less.hyps [OF s1(2) reach_step [OF less.prems s1(1)]] obtain s2 where
      "step\<^sup>*\<^sup>* s1 s2" "reach s2" "P s2" by blast
    with s1(1) show ?thesis by (blast intro: converse_rtranclp_into_rtranclp)
  qed (use less.prems in blast)
qed

end

text \<open>A relation that allows some of the steps only is an execution of its own.\<close>

locale sub_execution = execution +
  fixes sub :: "'s \<Rightarrow> 's \<Rightarrow> bool"
  assumes sub_step: "sub s s' \<Longrightarrow> step s s'"
begin

lemma sub_run: "sub\<^sup>*\<^sup>* s s' \<Longrightarrow> step\<^sup>*\<^sup>* s s'"
  by (rule rtranclp_mono [THEN predicate2D]) (auto intro: sub_step)

end

sublocale sub_execution \<subseteq> sub: execution sub reach
  by unfold_locales (rule reach_step [OF _ sub_step])

end
