(* ===== verification/GoStrings.thy ===== *)
theory GoStrings
  imports Prelude
begin

section \<open>The string functions of Go that the connector uses\<close>

text \<open>
  A Go string is a sequence of bytes: \<^typ>\<open>string\<close>, a list of 8-bit characters.
  \<open>TrimSpace\<close> is exact on every byte string (all Unicode white space, in its
  UTF-8 encoding). \<open>ToLower\<close> and \<open>EqualFold\<close> fold the ASCII letters only: they
  agree with Go on ASCII strings, and leave the bytes of other letters alone,
  where Go applies the Unicode case tables.
\<close>

subsection \<open>Prefixes\<close>

definition HasPrefix :: "string \<Rightarrow> string \<Rightarrow> bool" where
  "HasPrefix s p \<longleftrightarrow> take (length p) s = p"

definition TrimPrefix :: "string \<Rightarrow> string \<Rightarrow> string" where
  "TrimPrefix s p = (if HasPrefix s p then drop (length p) s else s)"

lemma HasPrefix_append [simp]: "HasPrefix (p @ s) p"
  by (simp add: HasPrefix_def)

lemma TrimPrefix_append [simp]: "TrimPrefix (p @ s) p = s"
  by (simp add: TrimPrefix_def)

lemma HasPrefixE:
  assumes "HasPrefix s p"
  obtains r where "s = p @ r"
  using assms by (metis HasPrefix_def append_take_drop_id)

lemma HasPrefix_Nil [simp]: "HasPrefix s []"
  by (simp add: HasPrefix_def)

subsection \<open>Splitting and joining\<close>

text \<open>\<^verbatim>\<open>strings.Split(s, "/")\<close> for a one-byte separator: never the empty list.\<close>

fun Split :: "string \<Rightarrow> char \<Rightarrow> string list" where
  "Split [] sep = [[]]"
| "Split (c # s) sep =
     (if c = sep then [] # Split s sep
      else (case Split s sep of [] \<Rightarrow> [[c]] | p # ps \<Rightarrow> (c # p) # ps))"

fun Join :: "string list \<Rightarrow> string \<Rightarrow> string" where
  "Join [] sep = []"
| "Join [s] sep = s"
| "Join (s # ss) sep = s @ sep @ Join ss sep"

lemma Split_ne [simp]: "Split s sep \<noteq> []"
  by (induction s) (auto split: list.splits)

lemma Join_Cons: "ss \<noteq> [] \<Longrightarrow> Join (s # ss) sep = s @ sep @ Join ss sep"
  by (cases ss) auto

lemma Split_no_sep: "sep \<notin> set s \<Longrightarrow> Split s sep = [s]"
  by (induction s) auto

lemma Split_append: "Split (s @ sep # t) sep = Split s sep @ Split t sep"
  by (induction s) (auto split: list.splits)

lemma Join_Split: "Join (Split s sep) [sep] = s"
proof (induction s)
  case Nil
  then show ?case by simp
next
  case (Cons c s)
  show ?case
  proof (cases "Split s sep")
    case Nil
    then show ?thesis by simp
  next
    case (Cons p ps)
    with Cons.IH show ?thesis by (cases ps) auto
  qed
qed

lemma Split_parts_no_sep: "p \<in> set (Split s sep) \<Longrightarrow> sep \<notin> set p"
  by (induction s arbitrary: p) (auto split: if_splits list.splits)

subsection \<open>White space\<close>

text \<open>The UTF-8 encodings of the characters \<^verbatim>\<open>unicode.IsSpace\<close> accepts.\<close>

definition bytes :: "nat list \<Rightarrow> string" where
  "bytes ns = map char_of ns"

definition white_space :: "string list" where
  "white_space = map bytes
     ([[9], [10], [11], [12], [13], [32], [0xC2, 0x85], [0xC2, 0xA0], [0xE1, 0x9A, 0x80],
       [0xE2, 0x80, 0xA8], [0xE2, 0x80, 0xA9], [0xE2, 0x80, 0xAF], [0xE2, 0x81, 0x9F],
       [0xE3, 0x80, 0x80]] @ map (\<lambda>b. [0xE2, 0x80, b]) [0x80..<0x8B])"

text \<open>Drop one of the given strings from the front as long as there is one.\<close>

primrec strip_fuel :: "nat \<Rightarrow> string list \<Rightarrow> string \<Rightarrow> string" where
  "strip_fuel 0 ws s = s"
| "strip_fuel (Suc n) ws s =
     (case find (HasPrefix s) ws of
        None \<Rightarrow> s
      | Some w \<Rightarrow> strip_fuel n ws (drop (length w) s))"

definition strip :: "string list \<Rightarrow> string \<Rightarrow> string" where
  "strip ws s = strip_fuel (length s) ws s"

definition TrimSpace :: "string \<Rightarrow> string" where
  "TrimSpace s = rev (strip (map rev white_space) (rev (strip white_space s)))"

text \<open>One unit of fuel per byte is enough: the result starts with none of the strings.\<close>

lemma strip_fuel_done:
  assumes "[] \<notin> set ws" and "length s \<le> n"
  shows "find (HasPrefix (strip_fuel n ws s)) ws = None"
  using assms(2)
proof (induction n arbitrary: s)
  case 0
  with assms(1) show ?case by (auto simp: find_None_iff HasPrefix_def)
next
  case (Suc n)
  show ?case
  proof (cases "find (HasPrefix s) ws")
    case None
    then show ?thesis by simp
  next
    case (Some w)
    then have "w \<in> set ws" and "HasPrefix s w" by (auto simp: find_Some_iff)
    with assms(1) have "w \<noteq> []" by metis
    then have "length (drop (length w) s) \<le> n"
      using Suc.prems by (cases w) auto
    with Some Suc.IH show ?thesis by simp
  qed
qed

lemma white_space_ne: "[] \<notin> set white_space"
  by (auto simp: white_space_def bytes_def)

lemma strip_done: "[] \<notin> set ws \<Longrightarrow> find (HasPrefix (strip ws s)) ws = None"
  by (simp add: strip_def strip_fuel_done)

lemma strip_fuel_id: "find (HasPrefix s) ws = None \<Longrightarrow> strip_fuel n ws s = s"
  by (cases n) auto

text \<open>A string that starts and ends with a printable ASCII character has nothing to trim.\<close>

definition plain_char :: "char \<Rightarrow> bool" where
  "plain_char c \<longleftrightarrow> 0x21 \<le> (of_char c :: nat) \<and> (of_char c :: nat) \<le> 0x7E"

lemma white_space_ends:
  assumes "w \<in> set white_space"
  shows "w \<noteq> []" and "\<not> plain_char (hd w)" and "\<not> plain_char (last w)"
  using assms by (auto simp: white_space_def bytes_def plain_char_def simp del: upt_rec_numeral)

lemma HasPrefix_hd: "HasPrefix s w \<Longrightarrow> w \<noteq> [] \<Longrightarrow> s \<noteq> [] \<and> hd s = hd w"
  by (cases w; cases s) (auto simp: HasPrefix_def)

lemma strip_plain:
  assumes "plain_char (hd s)" and "\<And>w. w \<in> set ws \<Longrightarrow> w \<noteq> [] \<and> \<not> plain_char (hd w)"
  shows "strip ws s = s"
  unfolding strip_def
proof (rule strip_fuel_id)
  show "find (HasPrefix s) ws = None"
    using assms HasPrefix_hd [of s] unfolding find_None_iff by metis
qed

lemma TrimSpace_plain:
  assumes "s \<noteq> []" and "plain_char (hd s)" and "plain_char (last s)"
  shows "TrimSpace s = s"
proof -
  have "strip white_space s = s" by (rule strip_plain) (use assms white_space_ends in blast)+
  moreover have "strip (map rev white_space) (rev s) = rev s"
    by (rule strip_plain) (use assms(1,3) white_space_ends in \<open>auto simp: hd_rev\<close>)
  ultimately show ?thesis by (simp add: TrimSpace_def)
qed

lemma TrimSpace_Nil [simp]: "TrimSpace [] = []"
  by (simp add: TrimSpace_def strip_def)

subsection \<open>Case folding\<close>

definition lower_char :: "char \<Rightarrow> char" where
  "lower_char c = (let n = (of_char c :: nat) in
     if 65 \<le> n \<and> n \<le> 90 then char_of (n + 32) else c)"

definition ToLower :: "string \<Rightarrow> string" where
  "ToLower s = map lower_char s"

definition EqualFold :: "string \<Rightarrow> string \<Rightarrow> bool" where
  "EqualFold s t \<longleftrightarrow> map lower_char s = map lower_char t"

lemma EqualFold_refl [simp]: "EqualFold s s"
  by (simp add: EqualFold_def)

lemma EqualFold_sym: "EqualFold s t \<longleftrightarrow> EqualFold t s"
  by (auto simp: EqualFold_def)

lemma EqualFold_trans: "EqualFold s t \<Longrightarrow> EqualFold t u \<Longrightarrow> EqualFold s u"
  by (simp add: EqualFold_def)

lemma lower_char_idem: "lower_char (lower_char c) = lower_char c"
proof (cases "65 \<le> (of_char c :: nat) \<and> (of_char c :: nat) \<le> 90")
  case True
  then have "(of_char (char_of ((of_char c :: nat) + 32)) :: nat) = of_char c + 32"
    by simp
  with True show ?thesis by (simp add: lower_char_def Let_def)
next
  case False
  then have "lower_char c = c" by (simp add: lower_char_def Let_def del: de_Morgan_conj)
  then show ?thesis by simp
qed

lemma ToLower_idem [simp]: "ToLower (ToLower s) = ToLower s"
  by (simp add: ToLower_def lower_char_idem)

lemma EqualFold_ToLower: "EqualFold s t \<longleftrightarrow> ToLower s = ToLower t"
  by (simp add: EqualFold_def ToLower_def)

lemmas [go_lib] = HasPrefix_def TrimPrefix_def TrimSpace_def strip_def white_space_def
  bytes_def lower_char_def ToLower_def EqualFold_def

subsection \<open>Byte-wise order\<close>

text \<open>\<^verbatim>\<open>sort.Strings\<close>: insertion sort on the byte-wise lexicographic order.\<close>

fun str_le :: "string \<Rightarrow> string \<Rightarrow> bool" where
  "str_le [] t = True"
| "str_le (c # s) [] = False"
| "str_le (c # s) (d # t) =
     (if c = d then str_le s t else (of_char c :: nat) < of_char d)"

fun str_insert :: "string \<Rightarrow> string list \<Rightarrow> string list" where
  "str_insert s [] = [s]"
| "str_insert s (t # ts) = (if str_le s t then s # t # ts else t # str_insert s ts)"

definition sort_Strings :: "string list \<Rightarrow> string list" where
  "sort_Strings ss = foldr str_insert ss []"

lemma str_le_refl [simp]: "str_le s s"
  by (induction s) auto

lemma str_le_Nil2 [simp]: "str_le s [] \<longleftrightarrow> s = []"
  by (cases s) auto

lemma of_char_neq: "c \<noteq> d \<Longrightarrow> (of_char c :: nat) < of_char d \<or> (of_char d :: nat) < of_char c"
  by (metis linorder_neqE_nat of_char_eq_iff)

lemma str_le_total: "str_le s t \<or> str_le t s"
  by (induction s t rule: str_le.induct) (auto dest: of_char_neq)

lemma str_le_antisym: "str_le s t \<Longrightarrow> str_le t s \<Longrightarrow> s = t"
  by (induction s t rule: str_le.induct) (auto split: if_splits)

lemma str_le_trans: "str_le s t \<Longrightarrow> str_le t u \<Longrightarrow> str_le s u"
proof (induction s t arbitrary: u rule: str_le.induct)
  case (3 c s d t)
  then show ?case by (cases u) (auto split: if_splits)
qed (auto elim: str_le.elims)

lemma set_str_insert [simp]: "set (str_insert s ts) = insert s (set ts)"
  by (induction ts) auto

lemma set_sort_Strings [simp]: "set (sort_Strings ss) = set ss"
  by (induction ss) (auto simp: sort_Strings_def)

lemma sorted_str_insert:
  "sorted_wrt str_le ts \<Longrightarrow> sorted_wrt str_le (str_insert s ts)"
proof (induction ts)
  case Nil
  then show ?case by simp
next
  case (Cons t ts)
  then show ?case using str_le_total [of s t] by (auto intro: str_le_trans)
qed

lemma sorted_sort_Strings: "sorted_wrt str_le (sort_Strings ss)"
  by (induction ss) (auto simp: sort_Strings_def intro: sorted_str_insert)

end
