(* ===== verification/GoFloat.thy ===== *)
theory GoFloat
  imports Prelude
begin

section \<open>Finite float64 values\<close>

text \<open>
  A finite IEEE double is \<open>m * 2 ^ e\<close>. The representation is canonical (an odd
  \<open>m\<close>, or zero with exponent zero), so Go's \<^verbatim>\<open>==\<close> on finite values is
  equality here (the two zeros of IEEE are one value). NaN and the infinities
  do not arise: JSON cannot carry them. \<open>f64_ratio p q\<close> rounds the rational
  \<open>p / q\<close> to the nearest double, ties to even, with subnormals; \<open>None\<close> is
  overflow, which \<^verbatim>\<open>strconv.ParseFloat\<close> reports as a range error.
\<close>

datatype float64 = F64 (mant: int) (expo: int)

text \<open>The number of binary digits; all numbers are \<^typ>\<open>int\<close>, which evaluates in binary.\<close>

function bitlen :: "int \<Rightarrow> nat" where
  "bitlen n = (if n \<le> 0 then 0 else Suc (bitlen (n div 2)))"
  by pat_completeness auto
termination
  by (relation "measure nat") auto

declare bitlen.simps [simp del]

text \<open>Remove factors of two: as many rounds as the number has binary digits are enough.\<close>

primrec canon_fuel :: "nat \<Rightarrow> int \<Rightarrow> int \<Rightarrow> float64" where
  "canon_fuel 0 m e = F64 m e"
| "canon_fuel (Suc n) m e =
     (if m = 0 then F64 0 0
      else if m mod 2 = 0 then canon_fuel n (m div 2) (e + 1) else F64 m e)"

definition canon :: "int \<Rightarrow> int \<Rightarrow> float64" where
  "canon m e = canon_fuel (Suc (bitlen \<bar>m\<bar>)) m e"

text \<open>\<open>flog2 p q\<close> is the floor of the binary logarithm of \<open>p / q\<close>, for positive \<open>p\<close>, \<open>q\<close>.\<close>

definition flog2 :: "int \<Rightarrow> int \<Rightarrow> int" where
  "flog2 p q = (let k = int (bitlen p) - int (bitlen q) in
     if (if 0 \<le> k then q * 2 ^ nat k \<le> p else q \<le> p * 2 ^ nat (- k)) then k else k - 1)"

definition f64_ratio :: "bool \<Rightarrow> int \<Rightarrow> int \<Rightarrow> float64 option" where
  "f64_ratio neg p q =
     (if p = 0 then Some (F64 0 0)
      else let e = max (flog2 p q - 52) (- 1074);
               a = (if 0 \<le> e then p else p * 2 ^ nat (- e));
               b = (if 0 \<le> e then q * 2 ^ nat e else q);
               m = a div b; r = a mod b;
               m' = (if b < 2 * r \<or> (2 * r = b \<and> m mod 2 = 1) then m + 1 else m)
           in if 971 < e \<or> (e = 971 \<and> 2 ^ 53 \<le> m') then None
              else Some (canon (if neg then - m' else m') e))"

definition f64_pos :: "float64 \<Rightarrow> bool" where
  "f64_pos x \<longleftrightarrow> 0 < mant x"

text \<open>Multiplication and division of non-negative values, correctly rounded.\<close>

definition f64_num :: "float64 \<Rightarrow> int" where
  "f64_num x = mant x * (if 0 \<le> expo x then 2 ^ nat (expo x) else 1)"

definition f64_den :: "float64 \<Rightarrow> int" where
  "f64_den x = (if 0 \<le> expo x then 1 else 2 ^ nat (- expo x))"

definition f64_mul :: "float64 \<Rightarrow> float64 \<Rightarrow> float64 option" where
  "f64_mul x y = f64_ratio False (f64_num x * f64_num y) (f64_den x * f64_den y)"

definition f64_div :: "float64 \<Rightarrow> float64 \<Rightarrow> float64 option" where
  "f64_div x y = f64_ratio False (f64_num x * f64_den y) (f64_den x * f64_num y)"

text \<open>Truncation of a non-negative value, as the conversion to an integer type does.\<close>

definition f64_trunc :: "float64 \<Rightarrow> int" where
  "f64_trunc x = f64_num x div f64_den x"

text \<open>
  Sum and difference of any two values: the exact result over the smaller exponent, rounded.
  \<open>None\<close> is an infinite result.
\<close>

definition f64_scaled :: "int \<Rightarrow> float64 \<Rightarrow> int" where
  "f64_scaled e x = mant x * 2 ^ nat (expo x - e)"

definition f64_exact :: "int \<Rightarrow> int \<Rightarrow> float64 option" where
  "f64_exact m e =
     (if 0 \<le> e then f64_ratio (m < 0) (\<bar>m\<bar> * 2 ^ nat e) 1 else f64_ratio (m < 0) \<bar>m\<bar> (2 ^ nat (- e)))"

definition f64_add :: "float64 \<Rightarrow> float64 \<Rightarrow> float64 option" where
  "f64_add x y = (let e = min (expo x) (expo y) in f64_exact (f64_scaled e x + f64_scaled e y) e)"

definition f64_sub :: "float64 \<Rightarrow> float64 \<Rightarrow> float64 option" where
  "f64_sub x y = (let e = min (expo x) (expo y) in f64_exact (f64_scaled e x - f64_scaled e y) e)"

text \<open>Comparison is exact. Two pairs may stand for the same value, so this is a preorder.\<close>

instantiation float64 :: preorder
begin

definition less_eq_float64 :: "float64 \<Rightarrow> float64 \<Rightarrow> bool" where
  "x \<le> y \<longleftrightarrow> f64_num x * f64_den y \<le> f64_num y * f64_den x"

definition less_float64 :: "float64 \<Rightarrow> float64 \<Rightarrow> bool" where
  "x < y \<longleftrightarrow> f64_num x * f64_den y < f64_num y * f64_den x"

instance
proof
  fix x y z :: float64
  show "x < y \<longleftrightarrow> x \<le> y \<and> \<not> y \<le> x" by (auto simp: less_eq_float64_def less_float64_def)
  show "x \<le> x" by (simp add: less_eq_float64_def)
  assume "x \<le> y" and "y \<le> z"
  then have "f64_num x * f64_den y * f64_den z \<le> f64_num y * f64_den x * f64_den z"
    and "f64_num y * f64_den z * f64_den x \<le> f64_num z * f64_den y * f64_den x"
    by (simp_all add: less_eq_float64_def f64_den_def mult_right_mono)
  then have "f64_num x * f64_den z * f64_den y \<le> f64_num z * f64_den x * f64_den y" by (simp only: ac_simps)
  then show "x \<le> z" by (simp add: less_eq_float64_def f64_den_def split: if_splits)
qed

end

text \<open>The value that overflow gives where a program keeps it: an infinity, written as \<open>+/- 2 ^ 1024\<close>.\<close>

definition f64_inf :: "bool \<Rightarrow> float64" where
  "f64_inf neg = F64 (if neg then - 1 else 1) 1024"

lemmas f64_defs [go_lib] = f64_ratio_def f64_pos_def f64_num_def f64_den_def f64_mul_def
  f64_div_def f64_trunc_def f64_scaled_def f64_exact_def f64_add_def f64_sub_def less_float64_def
  flog2_def canon_def bitlen.simps

lemma canon_fuel_value:
  "canon_fuel n m e = F64 m' e' \<Longrightarrow> m = 0 \<and> m' = 0 \<or> e \<le> e' \<and> m = m' * 2 ^ nat (e' - e)"
proof (induction n arbitrary: m e)
  case 0
  then show ?case by simp
next
  case (Suc n)
  show ?case
  proof (cases "m \<noteq> 0 \<and> m mod 2 = 0")
    case True
    with Suc.prems have "canon_fuel n (m div 2) (e + 1) = F64 m' e'" by simp
    from Suc.IH [OF this] True have *: "e + 1 \<le> e'" "m div 2 = m' * 2 ^ nat (e' - (e + 1))"
      by auto
    have "nat (e' - e) = Suc (nat (e' - (e + 1)))" using *(1) by simp
    moreover have "m = 2 * (m div 2)" using True by presburger
    ultimately show ?thesis using * by (simp add: algebra_simps)
  next
    case False
    with Suc.prems show ?thesis by (auto split: if_splits)
  qed
qed

text \<open>The representation is a normal form: canonical pairs of the same value are equal.\<close>

lemma canon_fuel_odd:
  "\<bar>m\<bar> < 2 ^ n \<Longrightarrow> canon_fuel (Suc n) m e = F64 m' e' \<Longrightarrow> m' = 0 \<and> e' = 0 \<or> m' mod 2 = 1"
proof (induction n arbitrary: m e)
  case 0
  then show ?case by (auto split: if_splits)
next
  case (Suc n)
  show ?case
  proof (cases "m \<noteq> 0 \<and> m mod 2 = 0")
    case True
    with Suc.prems(1) have "\<bar>m div 2\<bar> < 2 ^ n" by auto
    moreover from True Suc.prems(2) have "canon_fuel (Suc n) (m div 2) (e + 1) = F64 m' e'"
      by simp
    ultimately show ?thesis by (rule Suc.IH)
  next
    case False
    with Suc.prems(2) show ?thesis by (auto split: if_splits)
  qed
qed

lemma bitlen_gt: "n < 2 ^ bitlen n"
proof (induction n rule: bitlen.induct)
  case (1 n)
  show ?case
  proof (cases "n \<le> 0")
    case True
    then show ?thesis by (simp add: bitlen.simps [of n])
  next
    case False
    with 1 have "n div 2 < 2 ^ bitlen (n div 2)" by simp
    then have "n < 2 * 2 ^ bitlen (n div 2)" by simp
    with False show ?thesis by (simp add: bitlen.simps [of n])
  qed
qed

lemma canon_odd: "canon m e = F64 m' e' \<Longrightarrow> m' = 0 \<and> e' = 0 \<or> m' mod 2 = 1"
  unfolding canon_def by (rule canon_fuel_odd [OF bitlen_gt])

end
