(* ===== verification/GoJson.thy ===== *)
theory GoJson
  imports GoStrings GoFloat
begin

section \<open>Decoding JSON\<close>

text \<open>
  \<^verbatim>\<open>json.Unmarshal\<close> works on bytes. \<open>json_parse\<close> is a push-down automaton
  over the bytes of the document, with the states of Go's scanner: a mode and the
  stack of the containers that are still open. It is a primitive recursion over
  the input, so it needs no fuel. The result is the syntax tree \<open>json\<close>, where
  a number keeps its literal, because Go decodes the same literal differently
  into \<^verbatim>\<open>interface{}\<close> (a \<open>float64\<close>) and into an \<^verbatim>\<open>int\<close> field.
  \<open>go_value\<close> is a Go \<^verbatim>\<open>interface{}\<close> value as the connector handles it.
\<close>

datatype json =
    JNull
  | JBool bool
  | JNum string
  | JStr string
  | JArr "json list"
  | JObj "(string \<times> json) list"

datatype go_value =
    VNil
  | VBool bool
  | VFloat float64
  | VInt int
  | VStr string
  | VList "go_value list"
  | VMap "(string \<times> go_value) list"

subsection \<open>String literals\<close>

definition hex_digit :: "char \<Rightarrow> nat option" where
  "hex_digit c = (let n = (of_char c :: nat) in
     if 48 \<le> n \<and> n \<le> 57 then Some (n - 48)
     else if 97 \<le> n \<and> n \<le> 102 then Some (n - 87)
     else if 65 \<le> n \<and> n \<le> 70 then Some (n - 55)
     else None)"

definition hex4 :: "char \<Rightarrow> char \<Rightarrow> char \<Rightarrow> char \<Rightarrow> nat" where
  "hex4 a b c d = (let v = (\<lambda>x. case hex_digit x of None \<Rightarrow> 0 | Some n \<Rightarrow> n)
     in ((v a * 16 + v b) * 16 + v c) * 16 + v d)"

definition utf8 :: "nat \<Rightarrow> string" where
  "utf8 r =
     (if r < 0x80 then bytes [r]
      else if r < 0x800 then bytes [0xC0 + r div 64, 0x80 + r mod 64]
      else if r < 0x10000 then bytes [0xE0 + r div 4096, 0x80 + r div 64 mod 64, 0x80 + r mod 64]
      else bytes [0xF0 + r div 262144, 0x80 + r div 4096 mod 64, 0x80 + r div 64 mod 64,
                  0x80 + r mod 64])"

definition rune_error :: string where
  "rune_error = bytes [0xEF, 0xBF, 0xBD]"

definition in_range :: "char \<Rightarrow> nat \<Rightarrow> nat \<Rightarrow> bool" where
  "in_range c lo hi \<longleftrightarrow> lo \<le> of_char c \<and> of_char c \<le> hi"

text \<open>The length of the valid UTF-8 sequence a byte string starts with; 0 if it is invalid.\<close>

definition cont :: "char \<Rightarrow> bool" where
  "cont c \<longleftrightarrow> in_range c 0x80 0xBF"

definition utf8_1 :: "string \<Rightarrow> bool" where
  "utf8_1 s = (case s of a # _ \<Rightarrow> in_range a 0 0x7F | _ \<Rightarrow> False)"

definition utf8_2 :: "string \<Rightarrow> bool" where
  "utf8_2 s = (case s of a # b # _ \<Rightarrow> in_range a 0xC2 0xDF \<and> cont b | _ \<Rightarrow> False)"

definition utf8_3 :: "string \<Rightarrow> bool" where
  "utf8_3 s = (case s of a # b # c # _ \<Rightarrow>
       in_range a 0xE0 0xEF \<and> cont b \<and> cont c \<and>
       (a = CHR 0xE0 \<longrightarrow> in_range b 0xA0 0xBF) \<and> (a = CHR 0xED \<longrightarrow> in_range b 0x80 0x9F)
     | _ \<Rightarrow> False)"

definition utf8_4 :: "string \<Rightarrow> bool" where
  "utf8_4 s = (case s of a # b # c # d # _ \<Rightarrow>
       in_range a 0xF0 0xF4 \<and> cont b \<and> cont c \<and> cont d \<and>
       (a = CHR 0xF0 \<longrightarrow> in_range b 0x90 0xBF) \<and> (a = CHR 0xF4 \<longrightarrow> in_range b 0x80 0x8F)
     | _ \<Rightarrow> False)"

definition utf8_len :: "string \<Rightarrow> nat" where
  "utf8_len s =
     (if utf8_1 s then 1 else if utf8_2 s then 2 else if utf8_3 s then 3 else if utf8_4 s then 4 else 0)"

lemma utf8_len_Nil [simp]: "utf8_len [] = 0"
  by (simp add: utf8_len_def utf8_1_def utf8_2_def utf8_3_def utf8_4_def)

definition is_high :: "nat \<Rightarrow> bool" where
  "is_high r \<longleftrightarrow> 0xD800 \<le> r \<and> r < 0xDC00"

definition is_low :: "nat \<Rightarrow> bool" where
  "is_low r \<longleftrightarrow> 0xDC00 \<le> r \<and> r < 0xE000"

definition unescape :: "char \<Rightarrow> char" where
  "unescape c =
     (if c = CHR ''b'' then CHR 0x08 else if c = CHR ''f'' then CHR 0x0C
      else if c = CHR ''n'' then CHR 0x0A else if c = CHR ''r'' then CHR 0x0D
      else if c = CHR ''t'' then CHR 0x09 else c)"

text \<open>The longest valid piece at the front of a string and the rest; an invalid byte is replaced.\<close>

definition rune_head :: "string \<Rightarrow> string \<times> string" where
  "rune_head s =
     (if utf8_len s = 0 then (rune_error, drop 1 s) else (take (utf8_len s) s, drop (utf8_len s) s))"

text \<open>
  \<^verbatim>\<open>unquote\<close>: the bytes between the quotes, already checked by the scanner. One piece
  is a plain rune, a short escape, a \<^verbatim>\<open>\u\<close> escape or a pair of surrogates; a lone
  surrogate becomes U+FFFD.
\<close>

definition unquote_hex :: "nat \<Rightarrow> string \<Rightarrow> string \<times> string" where
  "unquote_hex r u =
     (if is_high r then
        (case u of
           bs # uu # a # b # c # d # w \<Rightarrow>
             if bs = CHR 0x5C \<and> uu = CHR ''u'' \<and> is_low (hex4 a b c d)
             then (utf8 (0x10000 + (r - 0xD800) * 1024 + (hex4 a b c d - 0xDC00)), w)
             else (rune_error, u)
         | _ \<Rightarrow> (rune_error, u))
      else if is_low r then (rune_error, u)
      else (utf8 r, u))"

definition unquote_head :: "string \<Rightarrow> string \<times> string" where
  "unquote_head s =
     (case s of
        c # e # t \<Rightarrow>
          if c = CHR 0x5C then
            (if e = CHR ''u'' then
               (case t of a # b # c' # d # u \<Rightarrow> unquote_hex (hex4 a b c' d) u | _ \<Rightarrow> ([], []))
             else ([unescape e], t))
          else rune_head s
      | _ \<Rightarrow> rune_head s)"

definition unquote :: "string \<Rightarrow> string" where
  "unquote = pieces unquote_head"

lemma rune_head_shrinks: "s \<noteq> [] \<Longrightarrow> length (snd (rune_head s)) < length s"
  by (simp add: rune_head_def)

lemma unquote_hex_length: "length (snd (unquote_hex r u)) \<le> length u"
  by (auto simp: unquote_hex_def split: list.splits)

interpretation unq: piecewise unquote_head
proof
  fix s :: string
  assume "s \<noteq> []"
  then show "length (snd (unquote_head s)) < length s"
    using rune_head_shrinks [of s]
    by (auto simp: unquote_head_def less_Suc_eq_le
        split: list.splits intro: order_trans [OF unquote_hex_length])
qed

subsection \<open>The scanner\<close>

datatype num_state = NNeg | NZero | NInt | NDot | NFrac | NExp | NExpSign | NExpInt

datatype frame =
    FArr "json list"
  | FObj "(string \<times> json) list"
  | FVal "(string \<times> json) list" string

datatype mode =
    BeginValue
  | BeginValueOrEmpty
  | BeginStringOrEmpty
  | BeginString
  | InString string
  | InEsc string
  | InHex string nat
  | Num num_state string
  | Lit string json
  | Colon
  | EndValue json

type_synonym scan = "mode \<times> frame list"

definition is_space :: "char \<Rightarrow> bool" where
  "is_space c \<longleftrightarrow> c = CHR 0x20 \<or> c = CHR 0x09 \<or> c = CHR 0x0D \<or> c = CHR 0x0A"

definition is_digit :: "char \<Rightarrow> bool" where
  "is_digit c \<longleftrightarrow> in_range c 48 57"

definition is_digit19 :: "char \<Rightarrow> bool" where
  "is_digit19 c \<longleftrightarrow> in_range c 49 57"

text \<open>Go's scanner refuses more than 10000 open containers.\<close>

definition max_depth :: nat where
  "max_depth = 10000"

definition push :: "frame \<Rightarrow> mode \<Rightarrow> frame list \<Rightarrow> scan option" where
  "push f m st = (if length st < max_depth then Some (m, f # st) else None)"

definition begin_value :: "char \<Rightarrow> frame list \<Rightarrow> scan option" where
  "begin_value c st =
     (if is_space c then Some (BeginValue, st)
      else if c = CHR 0x7B then push (FObj []) BeginStringOrEmpty st
      else if c = CHR 0x5B then push (FArr []) BeginValueOrEmpty st
      else if c = CHR 0x22 then Some (InString [], st)
      else if c = CHR 0x2D then Some (Num NNeg [c], st)
      else if c = CHR 0x30 then Some (Num NZero [c], st)
      else if is_digit19 c then Some (Num NInt [c], st)
      else if c = CHR ''t'' then Some (Lit ''rue'' (JBool True), st)
      else if c = CHR ''f'' then Some (Lit ''alse'' (JBool False), st)
      else if c = CHR ''n'' then Some (Lit ''ull'' JNull, st)
      else None)"

definition end_value :: "json \<Rightarrow> char \<Rightarrow> frame list \<Rightarrow> scan option" where
  "end_value v c st =
     (if is_space c then Some (EndValue v, st)
      else case st of
        FArr vs # st' \<Rightarrow>
          if c = CHR 0x2C then Some (BeginValue, FArr (v # vs) # st')
          else if c = CHR 0x5D then Some (EndValue (JArr (rev (v # vs))), st')
          else None
      | FVal ms k # st' \<Rightarrow>
          if c = CHR 0x2C then Some (BeginString, FObj ((k, v) # ms) # st')
          else if c = CHR 0x7D then Some (EndValue (JObj (rev ((k, v) # ms))), st')
          else None
      | _ \<Rightarrow> None)"

text \<open>A closed string literal is a key when an object waits for one, and a value otherwise.\<close>

definition end_string :: "string \<Rightarrow> frame list \<Rightarrow> scan" where
  "end_string raw st =
     (case st of
        FObj ms # st' \<Rightarrow> (Colon, FVal ms (unquote (rev raw)) # st')
      | _ \<Rightarrow> (EndValue (JStr (unquote (rev raw))), st))"

text \<open>The numeral automaton: the next state on a byte that continues the literal.\<close>

fun num_next :: "num_state \<Rightarrow> char \<Rightarrow> num_state option" where
  "num_next NNeg c = (if c = CHR 0x30 then Some NZero else if is_digit19 c then Some NInt else None)"
| "num_next NZero c = (if c = CHR 0x2E then Some NDot
     else if c = CHR ''e'' \<or> c = CHR ''E'' then Some NExp else None)"
| "num_next NInt c = (if is_digit c then Some NInt else if c = CHR 0x2E then Some NDot
     else if c = CHR ''e'' \<or> c = CHR ''E'' then Some NExp else None)"
| "num_next NDot c = (if is_digit c then Some NFrac else None)"
| "num_next NFrac c = (if is_digit c then Some NFrac
     else if c = CHR ''e'' \<or> c = CHR ''E'' then Some NExp else None)"
| "num_next NExp c = (if is_digit c then Some NExpInt
     else if c = CHR 0x2B \<or> c = CHR 0x2D then Some NExpSign else None)"
| "num_next NExpSign c = (if is_digit c then Some NExpInt else None)"
| "num_next NExpInt c = (if is_digit c then Some NExpInt else None)"

fun num_done :: "num_state \<Rightarrow> bool" where
  "num_done NZero = True"
| "num_done NInt = True"
| "num_done NFrac = True"
| "num_done NExpInt = True"
| "num_done _ = False"

fun scan_step :: "scan \<Rightarrow> char \<Rightarrow> scan option" where
  "scan_step (BeginValue, st) c = begin_value c st"
| "scan_step (BeginValueOrEmpty, st) c =
     (if is_space c then Some (BeginValueOrEmpty, st)
      else if c = CHR 0x5D then (case st of FArr vs # st' \<Rightarrow> Some (EndValue (JArr (rev vs)), st') | _ \<Rightarrow> None)
      else begin_value c st)"
| "scan_step (BeginStringOrEmpty, st) c =
     (if is_space c then Some (BeginStringOrEmpty, st)
      else if c = CHR 0x7D then (case st of FObj ms # st' \<Rightarrow> Some (EndValue (JObj (rev ms)), st') | _ \<Rightarrow> None)
      else if c = CHR 0x22 then Some (InString [], st)
      else None)"
| "scan_step (BeginString, st) c =
     (if is_space c then Some (BeginString, st)
      else if c = CHR 0x22 then Some (InString [], st)
      else None)"
| "scan_step (InString raw, st) c =
     (if c = CHR 0x22 then Some (end_string raw st)
      else if c = CHR 0x5C then Some (InEsc (c # raw), st)
      else if in_range c 0 0x1F then None
      else Some (InString (c # raw), st))"
| "scan_step (InEsc raw, st) c =
     (if c = CHR ''u'' then Some (InHex (c # raw) 4, st)
      else if c \<in> set [CHR ''b'', CHR ''f'', CHR ''n'', CHR ''r'', CHR ''t'', CHR 0x5C, CHR 0x2F, CHR 0x22]
      then Some (InString (c # raw), st)
      else None)"
| "scan_step (InHex raw n, st) c =
     (case hex_digit c of
        None \<Rightarrow> None
      | Some _ \<Rightarrow> Some (if n \<le> 1 then InString (c # raw) else InHex (c # raw) (n - 1), st))"
| "scan_step (Num ns raw, st) c =
     (case num_next ns c of
        Some ns' \<Rightarrow> Some (Num ns' (c # raw), st)
      | None \<Rightarrow> if num_done ns then end_value (JNum (rev raw)) c st else None)"
| "scan_step (Lit todo v, st) c =
     (case todo of
        [] \<Rightarrow> None
      | d # ds \<Rightarrow> if c = d then Some (if ds = [] then EndValue v else Lit ds v, st) else None)"
| "scan_step (Colon, st) c =
     (if is_space c then Some (Colon, st)
      else if c = CHR 0x3A then Some (BeginValue, st)
      else None)"
| "scan_step (EndValue v, st) c = end_value v c st"

primrec scan_run :: "string \<Rightarrow> scan \<Rightarrow> scan option" where
  "scan_run [] s = Some s"
| "scan_run (c # cs) s = (case scan_step s c of None \<Rightarrow> None | Some s' \<Rightarrow> scan_run cs s')"

text \<open>At the end of the input Go feeds one space and wants the top-level value to be closed.\<close>

definition json_parse :: "string \<Rightarrow> json option" where
  "json_parse s =
     (case scan_run (s @ [CHR 0x20]) (BeginValue, []) of
        Some (EndValue v, []) \<Rightarrow> Some v
      | _ \<Rightarrow> None)"

text \<open>
  \<^verbatim>\<open>json.Decoder.Decode\<close> reads the first value of a stream and leaves what follows: the
  value ends at its closing bracket or at the first byte that cannot continue it.
\<close>

definition closed_value :: "scan \<Rightarrow> json option" where
  "closed_value s = (case scan_step s CHR 0x20 of Some (EndValue v, []) \<Rightarrow> Some v | _ \<Rightarrow> None)"

primrec scan_first :: "string \<Rightarrow> scan \<Rightarrow> json option" where
  "scan_first [] s = closed_value s"
| "scan_first (c # cs) s =
     (case s of
        (EndValue v, []) \<Rightarrow> Some v
      | _ \<Rightarrow> (case scan_step s c of Some s' \<Rightarrow> scan_first cs s' | None \<Rightarrow> closed_value s))"

definition json_decode :: "string \<Rightarrow> json option" where
  "json_decode s = scan_first s (BeginValue, [])"

text \<open>A document that \<open>json_parse\<close> accepts is read whole.\<close>

lemma scan_end_value: "scan_run cs (EndValue v, []) = Some s' \<Longrightarrow> s' = (EndValue v, [])"
  by (induction cs) (auto simp: end_value_def split: if_splits)

lemma top_value_case:
  "\<nexists>w. s = (EndValue w, []) \<Longrightarrow> (case s of (EndValue v, []) \<Rightarrow> f v | _ \<Rightarrow> x) = x"
  by (cases s; cases "fst s"; cases "snd s") auto

lemma scan_first_run:
  "scan_run (cs @ [CHR 0x20]) s = Some (EndValue v, []) \<Longrightarrow> scan_first cs s = Some v"
proof (induction cs arbitrary: s)
  case Nil
  then show ?case by (auto simp: closed_value_def split: option.splits)
next
  case (Cons c cs)
  show ?case
  proof (cases "\<exists>w. s = (EndValue w, [])")
    case True
    then obtain w where w: "s = (EndValue w, [])" by blast
    with Cons.prems scan_end_value [of "(c # cs) @ [CHR 0x20]" w] show ?thesis by auto
  next
    case False
    from Cons.prems obtain s1 where s1: "scan_step s c = Some s1"
        "scan_run (cs @ [CHR 0x20]) s1 = Some (EndValue v, [])"
      by (auto split: option.splits)
    then show ?thesis
      unfolding scan_first.simps top_value_case [OF False] by (simp add: Cons.IH)
  qed
qed

lemma json_decode_parse: "json_parse s = Some v \<Longrightarrow> json_decode s = Some v"
  using scan_first_run [of s "(BeginValue, [])" v]
  by (auto simp: json_parse_def json_decode_def split: option.splits prod.splits mode.splits list.splits)

subsection \<open>Numbers\<close>

definition digit_val :: "char \<Rightarrow> int" where
  "digit_val c = of_char c - 48"

definition digits_val :: "string \<Rightarrow> int" where
  "digits_val s = foldl (\<lambda>n c. 10 * n + digit_val c) 0 s"

text \<open>A checked literal as sign, integer digits, fraction digits and exponent.\<close>

definition split_num :: "string \<Rightarrow> bool \<times> string \<times> string \<times> int" where
  "split_num s =
     (let neg = (take 1 s = [CHR 0x2D]);
          s1 = (if neg then drop 1 s else s);
          ip = takeWhile is_digit s1;
          s2 = dropWhile is_digit s1;
          fp = (if take 1 s2 = [CHR 0x2E] then takeWhile is_digit (drop 1 s2) else []);
          s3 = (if take 1 s2 = [CHR 0x2E] then dropWhile is_digit (drop 1 s2) else s2);
          ex = drop 1 s3;
          ev = (if s3 = [] then 0
                else if take 1 ex = [CHR 0x2D] then - digits_val (drop 1 ex)
                else if take 1 ex = [CHR 0x2B] then digits_val (drop 1 ex)
                else digits_val ex)
      in (neg, ip, fp, ev))"

text \<open>\<^verbatim>\<open>strconv.ParseFloat(s, 64)\<close> on a checked literal; \<open>None\<close> is a range error.\<close>

definition parse_float :: "string \<Rightarrow> float64 option" where
  "parse_float s =
     (case split_num s of (neg, ip, fp, ev) \<Rightarrow>
        let d = digits_val (ip @ fp); x = ev - int (length fp)
        in if 0 \<le> x then f64_ratio neg (d * 10 ^ nat x) 1
           else f64_ratio neg d (10 ^ nat (- x)))"

text \<open>\<^verbatim>\<open>strconv.ParseInt(s, 10, 64)\<close> on a checked literal; a fraction or an exponent is an error.\<close>

definition parse_int :: "string \<Rightarrow> int option" where
  "parse_int s =
     (let neg = (take 1 s = [CHR 0x2D]);
          ds = (if neg then drop 1 s else s);
          n = (if neg then - digits_val ds else digits_val ds)
      in if list_all is_digit ds \<and> - (2 ^ 63) \<le> n \<and> n < 2 ^ 63 then Some n else None)"

subsection \<open>Decoding into \<^verbatim>\<open>interface{}\<close> and into maps\<close>

text \<open>
  A later member of an object overwrites an earlier one with the same key. A number
  out of the range of float64 makes \<^verbatim>\<open>Unmarshal\<close> return an error.
\<close>

fun to_value :: "json \<Rightarrow> go_value option"
  and to_values :: "json list \<Rightarrow> go_value list option"
  and to_members :: "(string \<times> json) list \<Rightarrow> (string \<times> go_value) list \<Rightarrow> (string \<times> go_value) list option"
where
  "to_value JNull = Some VNil"
| "to_value (JBool b) = Some (VBool b)"
| "to_value (JNum s) = map_option VFloat (parse_float s)"
| "to_value (JStr s) = Some (VStr s)"
| "to_value (JArr vs) = map_option VList (to_values vs)"
| "to_value (JObj ms) = map_option VMap (to_members ms [])"
| "to_values [] = Some []"
| "to_values (v # vs) =
     (case to_value v of None \<Rightarrow> None
      | Some x \<Rightarrow> map_option ((#) x) (to_values vs))"
| "to_members [] m = Some m"
| "to_members ((k, v) # ms) m =
     (case to_value v of None \<Rightarrow> None
      | Some x \<Rightarrow> to_members ms (mput k x m))"

text \<open>\<^verbatim>\<open>var v interface{}; json.Unmarshal(b, &v)\<close>.\<close>

definition unmarshal_value :: "string \<Rightarrow> go_value option" where
  "unmarshal_value s = Option.bind (json_parse s) to_value"

text \<open>
  \<^verbatim>\<open>var m map[string]interface{}; json.Unmarshal(b, &m)\<close>: null leaves the nil
  map and is no error; any other value that is not an object is an error.
\<close>

definition to_map :: "json \<Rightarrow> (string, go_value) gomap option" where
  "to_map v = (case v of JNull \<Rightarrow> Some [] | JObj ms \<Rightarrow> to_members ms [] | _ \<Rightarrow> None)"

definition unmarshal_map :: "string \<Rightarrow> (string, go_value) gomap option" where
  "unmarshal_map s = Option.bind (json_parse s) to_map"

lemma mwf_to_members: "mwf m \<Longrightarrow> to_members ms m = Some m' \<Longrightarrow> mwf m'"
proof (induction ms arbitrary: m)
  case Nil
  then show ?case by simp
next
  case (Cons p ms)
  then show ?case by (cases p) (auto split: option.splits)
qed

lemma mwf_to_map: "to_map v = Some m \<Longrightarrow> mwf m"
  by (cases v) (auto simp: to_map_def intro: mwf_to_members [of "[]"])

lemma mwf_unmarshal_map: "unmarshal_map s = Some m \<Longrightarrow> mwf m"
  by (auto simp: unmarshal_map_def bind_eq_Some_conv intro: mwf_to_map)

end
