(* ===== verification/DeviceModel.thy ===== *)
theory DeviceModel
  imports GoJson
begin

section \<open>The data model (\<^verbatim>\<open>pkg/model/model.go\<close>) and its JSON decoding\<close>

text \<open>
  The Go structs as records, with their field names. A feature is recursive
  (\<^verbatim>\<open>features\<close>, \<^verbatim>\<open>item_type\<close>), so its plain fields are a record inside a
  datatype. A Go struct that JSON does not fill is the zero value.

  The decoders follow \<^verbatim>\<open>json.Unmarshal\<close> into these structs: a member is matched to
  a field by its name without regard to (ASCII) case, unknown members are ignored,
  \<^verbatim>\<open>null\<close> leaves a field as it is, and a value of the wrong type makes the whole
  call return an error, here \<open>None\<close>. (A member that occurs twice fills a slice
  again from the start, without Go's reuse of old elements.)
\<close>

record preset =
  PresetName :: string
  PresetDescription :: string
  PresetValue :: go_value

record feature_attrs =
  Type :: string
  Name :: string
  Property :: string
  Access :: int
  FeatureDescription :: string
  Unit :: string
  Values :: "go_value list"
  ValueMax :: float64
  ValueMin :: float64
  ValueOff :: go_value
  ValueOn :: go_value
  ValueToggle :: go_value
  Presets :: "preset list"

datatype feature =
  Feature (attrs: feature_attrs) (Features: "feature list") (ItemType: "feature option")

record definition_info =
  Description :: string
  Model :: string
  Vendor :: string
  Exposes :: "feature list"

record device_info =
  IeeeAddress :: string
  FriendlyName :: string
  Manufacturer :: string
  ModelId :: string
  Supported :: bool
  Disabled :: bool
  InterviewCompleted :: bool
  Definition :: definition_info

text \<open>Types of the models package: the fields the connector reads and writes.\<close>

record attribute =
  Key :: string
  Value :: string

text \<open>
  \<^verbatim>\<open>models.ContentVariable\<close> and its types; \<open>CvOther\<close> is a type named after a Go type.
\<close>

datatype cv_type = CvString | CvFloat | CvBoolean | CvList | CvStructure | CvOther string

datatype content_variable =
  ContentVariable (cv_name: string) (cv_type: cv_type) (cv_is_void: bool) (cv_omit_empty: bool)
    (cv_subs: "content_variable list")

datatype interaction = EVENT | REQUEST | EVENT_AND_REQUEST

record content =
  content_variable :: content_variable
  serialization :: string
  protocol_segment_id :: string

record models_service =
  ms_Id :: string
  ms_LocalId :: string
  ms_Name :: string
  ms_Interaction :: interaction
  ms_ProtocolId :: string
  ms_Attributes :: "attribute list"
  ms_Inputs :: "content list"
  ms_Outputs :: "content list"

record models_device_type =
  md_Id :: string
  md_Name :: string
  md_Description :: string
  md_DeviceClassId :: string
  md_Attributes :: "attribute list"
  md_Services :: "models_service list"

text \<open>The connector's own, smaller view of a device type.\<close>

record service =
  ServiceId :: string
  LocalId :: string
  ServiceName :: string
  Interaction :: interaction
  ServiceAttributes :: "attribute list"

record device_type =
  Id :: string
  DtName :: string
  DtDescription :: string
  Attributes :: "attribute list"
  Services :: "service list"

abbreviation zero_float :: float64 where
  "zero_float \<equiv> F64 0 0"

definition zero_preset :: preset where
  "zero_preset = \<lparr>PresetName = [], PresetDescription = [], PresetValue = VNil\<rparr>"

definition zero_attrs :: feature_attrs where
  "zero_attrs = \<lparr>Type = [], Name = [], Property = [], Access = 0, FeatureDescription = [],
     Unit = [], Values = [], ValueMax = zero_float, ValueMin = zero_float, ValueOff = VNil,
     ValueOn = VNil, ValueToggle = VNil, Presets = []\<rparr>"

definition zero_feature :: feature where
  "zero_feature = Feature zero_attrs [] None"

definition zero_definition :: definition_info where
  "zero_definition = \<lparr>Description = [], Model = [], Vendor = [], Exposes = []\<rparr>"

definition zero_device :: device_info where
  "zero_device = \<lparr>IeeeAddress = [], FriendlyName = [], Manufacturer = [], ModelId = [],
     Supported = False, Disabled = False, InterviewCompleted = False,
     Definition = zero_definition\<rparr>"

definition zero_device_type :: device_type where
  "zero_device_type = \<lparr>Id = [], DtName = [], DtDescription = [], Attributes = [], Services = []\<rparr>"

subsection \<open>Decoding a field\<close>

text \<open>The second argument is the value the field has before.\<close>

definition dec_string :: "json \<Rightarrow> string \<Rightarrow> string option" where
  "dec_string v cur = (case v of JStr s \<Rightarrow> Some s | JNull \<Rightarrow> Some cur | _ \<Rightarrow> None)"

definition dec_bool :: "json \<Rightarrow> bool \<Rightarrow> bool option" where
  "dec_bool v cur = (case v of JBool b \<Rightarrow> Some b | JNull \<Rightarrow> Some cur | _ \<Rightarrow> None)"

definition dec_int :: "json \<Rightarrow> int \<Rightarrow> int option" where
  "dec_int v cur = (case v of JNum s \<Rightarrow> parse_int s | JNull \<Rightarrow> Some cur | _ \<Rightarrow> None)"

definition dec_float :: "json \<Rightarrow> float64 \<Rightarrow> float64 option" where
  "dec_float v cur = (case v of JNum s \<Rightarrow> parse_float s | JNull \<Rightarrow> Some cur | _ \<Rightarrow> None)"

definition dec_values :: "json \<Rightarrow> go_value list option" where
  "dec_values v = (case v of JArr vs \<Rightarrow> to_values vs | JNull \<Rightarrow> Some [] | _ \<Rightarrow> None)"

text \<open>The loop over the members of an object: \<open>dec_field k v st\<close> decodes one member.\<close>

fun dec_members :: "(string \<Rightarrow> json \<Rightarrow> 's \<Rightarrow> 's option) \<Rightarrow> (string \<times> json) list \<Rightarrow> 's \<Rightarrow> 's option" where
  "dec_members df [] st = Some st"
| "dec_members df ((k, v) # ms) st =
     (case df (ToLower k) v st of None \<Rightarrow> None | Some st' \<Rightarrow> dec_members df ms st')"

definition dec_struct :: "(string \<Rightarrow> json \<Rightarrow> 's \<Rightarrow> 's option) \<Rightarrow> json \<Rightarrow> 's \<Rightarrow> 's option" where
  "dec_struct df v st = (case v of JNull \<Rightarrow> Some st | JObj ms \<Rightarrow> dec_members df ms st | _ \<Rightarrow> None)"

primrec dec_list :: "(json \<Rightarrow> 'a option) \<Rightarrow> json list \<Rightarrow> 'a list option" where
  "dec_list d [] = Some []"
| "dec_list d (v # vs) =
     (case d v of None \<Rightarrow> None | Some x \<Rightarrow> map_option ((#) x) (dec_list d vs))"

definition dec_slice :: "(json \<Rightarrow> 'a option) \<Rightarrow> json \<Rightarrow> 'a list option" where
  "dec_slice d v = (case v of JArr vs \<Rightarrow> dec_list d vs | JNull \<Rightarrow> Some [] | _ \<Rightarrow> None)"

subsection \<open>Presets, features, definitions, devices\<close>

definition preset_field :: "string \<Rightarrow> json \<Rightarrow> preset \<Rightarrow> preset option" where
  "preset_field k v p =
     (if k = ''name'' then map_option (\<lambda>x. p\<lparr>PresetName := x\<rparr>) (dec_string v (PresetName p))
      else if k = ''description'' then
        map_option (\<lambda>x. p\<lparr>PresetDescription := x\<rparr>) (dec_string v (PresetDescription p))
      else if k = ''value'' then map_option (\<lambda>x. p\<lparr>PresetValue := x\<rparr>) (to_value v)
      else Some p)"

definition attrs_field :: "string \<Rightarrow> json \<Rightarrow> feature_attrs \<Rightarrow> feature_attrs option" where
  "attrs_field k v a =
     (if k = ''type'' then map_option (\<lambda>x. a\<lparr>Type := x\<rparr>) (dec_string v (Type a))
      else if k = ''name'' then map_option (\<lambda>x. a\<lparr>Name := x\<rparr>) (dec_string v (Name a))
      else if k = ''property'' then map_option (\<lambda>x. a\<lparr>Property := x\<rparr>) (dec_string v (Property a))
      else if k = ''access'' then map_option (\<lambda>x. a\<lparr>Access := x\<rparr>) (dec_int v (Access a))
      else if k = ''description'' then
        map_option (\<lambda>x. a\<lparr>FeatureDescription := x\<rparr>) (dec_string v (FeatureDescription a))
      else if k = ''unit'' then map_option (\<lambda>x. a\<lparr>Unit := x\<rparr>) (dec_string v (Unit a))
      else if k = ''values'' then map_option (\<lambda>x. a\<lparr>Values := x\<rparr>) (dec_values v)
      else if k = ''value_max'' then map_option (\<lambda>x. a\<lparr>ValueMax := x\<rparr>) (dec_float v (ValueMax a))
      else if k = ''value_min'' then map_option (\<lambda>x. a\<lparr>ValueMin := x\<rparr>) (dec_float v (ValueMin a))
      else if k = ''value_off'' then map_option (\<lambda>x. a\<lparr>ValueOff := x\<rparr>) (to_value v)
      else if k = ''value_on'' then map_option (\<lambda>x. a\<lparr>ValueOn := x\<rparr>) (to_value v)
      else if k = ''value_toggle'' then map_option (\<lambda>x. a\<lparr>ValueToggle := x\<rparr>) (to_value v)
      else if k = ''presets'' then
        map_option (\<lambda>x. a\<lparr>Presets := x\<rparr>) (dec_slice (\<lambda>j. dec_struct preset_field j zero_preset) v)
      else Some a)"

fun dec_feature :: "json \<Rightarrow> feature \<Rightarrow> feature option"
  and dec_feature_members :: "(string \<times> json) list \<Rightarrow> feature \<Rightarrow> feature option"
  and dec_features :: "json list \<Rightarrow> feature list option"
where
  "dec_feature JNull f = Some f"
| "dec_feature (JObj ms) f = dec_feature_members ms f"
| "dec_feature _ f = None"
| "dec_feature_members [] f = Some f"
| "dec_feature_members ((k, v) # ms) (Feature a subs it) =
     (if ToLower k = ''features'' then
        (case v of
           JNull \<Rightarrow> dec_feature_members ms (Feature a [] it)
         | JArr vs \<Rightarrow> (case dec_features vs of None \<Rightarrow> None
             | Some fs \<Rightarrow> dec_feature_members ms (Feature a fs it))
         | _ \<Rightarrow> None)
      else if ToLower k = ''item_type'' then
        (case v of
           JNull \<Rightarrow> dec_feature_members ms (Feature a subs None)
         | _ \<Rightarrow> (case dec_feature v (case it of None \<Rightarrow> zero_feature | Some i \<Rightarrow> i) of
             None \<Rightarrow> None
           | Some i \<Rightarrow> dec_feature_members ms (Feature a subs (Some i))))
      else (case attrs_field (ToLower k) v a of None \<Rightarrow> None
        | Some a' \<Rightarrow> dec_feature_members ms (Feature a' subs it)))"
| "dec_features [] = Some []"
| "dec_features (v # vs) =
     (case dec_feature v zero_feature of None \<Rightarrow> None
      | Some f \<Rightarrow> map_option ((#) f) (dec_features vs))"

definition definition_field :: "string \<Rightarrow> json \<Rightarrow> definition_info \<Rightarrow> definition_info option" where
  "definition_field k v d =
     (if k = ''description'' then map_option (\<lambda>x. d\<lparr>Description := x\<rparr>) (dec_string v (Description d))
      else if k = ''model'' then map_option (\<lambda>x. d\<lparr>Model := x\<rparr>) (dec_string v (Model d))
      else if k = ''vendor'' then map_option (\<lambda>x. d\<lparr>Vendor := x\<rparr>) (dec_string v (Vendor d))
      else if k = ''exposes'' then
        map_option (\<lambda>x. d\<lparr>Exposes := x\<rparr>) (dec_slice (\<lambda>j. dec_feature j zero_feature) v)
      else Some d)"

definition device_field :: "string \<Rightarrow> json \<Rightarrow> device_info \<Rightarrow> device_info option" where
  "device_field k v d =
     (if k = ''ieee_address'' then map_option (\<lambda>x. d\<lparr>IeeeAddress := x\<rparr>) (dec_string v (IeeeAddress d))
      else if k = ''friendly_name'' then
        map_option (\<lambda>x. d\<lparr>FriendlyName := x\<rparr>) (dec_string v (FriendlyName d))
      else if k = ''manufacturer'' then
        map_option (\<lambda>x. d\<lparr>Manufacturer := x\<rparr>) (dec_string v (Manufacturer d))
      else if k = ''model_id'' then map_option (\<lambda>x. d\<lparr>ModelId := x\<rparr>) (dec_string v (ModelId d))
      else if k = ''supported'' then map_option (\<lambda>x. d\<lparr>Supported := x\<rparr>) (dec_bool v (Supported d))
      else if k = ''disabled'' then map_option (\<lambda>x. d\<lparr>Disabled := x\<rparr>) (dec_bool v (Disabled d))
      else if k = ''interview_completed'' then
        map_option (\<lambda>x. d\<lparr>InterviewCompleted := x\<rparr>) (dec_bool v (InterviewCompleted d))
      else if k = ''definition'' then
        map_option (\<lambda>x. d\<lparr>Definition := x\<rparr>) (dec_struct definition_field v (Definition d))
      else Some d)"

definition dec_device :: "json \<Rightarrow> device_info option" where
  "dec_device v = dec_struct device_field v zero_device"

lemmas dec_defs [go_lib] = dec_string_def dec_bool_def dec_int_def dec_float_def dec_values_def
  dec_struct_def dec_slice_def preset_field_def attrs_field_def definition_field_def
  device_field_def dec_device_def zero_preset_def zero_attrs_def zero_feature_def
  zero_definition_def zero_device_def zero_device_type_def

end
