(* ===== verification/DeviceRegister.thy ===== *)
theory DeviceRegister
  imports DeviceModel
begin

section \<open>The device register (\<^verbatim>\<open>pkg/zigbee2mqtt/register.go\<close>)\<close>

text \<open>
  The register holds the last device list of zigbee2mqtt and two indexes over it.
  Every operation but \<^verbatim>\<open>Set\<close> first waits until \<^verbatim>\<open>Set\<close> has been called once or its
  context ends. The model takes an operation at the moment its wait is over: the
  register is initialised, or it is not and the context ended as \<open>ctx_end\<close> says
  (a nil context ends with the deadline of one minute).

  The locale \<open>device_lookup\<close> is the contract the clients of the register rely on.
\<close>

record register =
  reg_list :: "device_info list"
  byIeee :: "(string, device_info) gomap"
  byFriendlyName :: "(string, device_info) gomap"
  reg_init :: bool

datatype ctx_end = CtxDeadline | CtxCanceled

definition NewDeviceRegister :: register where
  "NewDeviceRegister = \<lparr>reg_list = [], byIeee = [], byFriendlyName = [], reg_init = False\<rparr>"

definition waitForInit :: "ctx_end \<Rightarrow> register \<Rightarrow> goerr option" where
  "waitForInit ctx r =
     (if reg_init r then None
      else case ctx of CtxCanceled \<Rightarrow> None | CtxDeadline \<Rightarrow> Some DeadlineExceeded)"

text \<open>One index of \<^verbatim>\<open>Set\<close>: a loop that writes every device under its key.\<close>

primrec index_by :: "(device_info \<Rightarrow> string) \<Rightarrow> device_info list \<Rightarrow> (string, device_info) gomap \<Rightarrow>
    (string, device_info) gomap" where
  "index_by key [] m = m"
| "index_by key (e # es) m = index_by key es (mput (key e) e m)"

definition reg_Set :: "device_info list \<Rightarrow> register \<Rightarrow> bool \<times> register" where
  "reg_Set devices r =
     (let r' = r\<lparr>reg_list := devices, byIeee := index_by IeeeAddress devices [],
                 byFriendlyName := index_by FriendlyName devices []\<rparr>
      in if \<not> reg_init r' then (True, r'\<lparr>reg_init := True\<rparr>) else (False, r'))"

definition reg_GetByIeee :: "ctx_end \<Rightarrow> register \<Rightarrow> string \<Rightarrow> goerr + device_info" where
  "reg_GetByIeee ctx r ieee =
     (case waitForInit ctx r of
        Some e \<Rightarrow> Inl e
      | None \<Rightarrow> (case map_of (byIeee r) ieee of Some d \<Rightarrow> Inr d | None \<Rightarrow> Inl ErrNotFound))"

definition reg_GetByFriendlyName :: "ctx_end \<Rightarrow> register \<Rightarrow> string \<Rightarrow> goerr + device_info" where
  "reg_GetByFriendlyName ctx r name =
     (case waitForInit ctx r of
        Some e \<Rightarrow> Inl e
      | None \<Rightarrow> (case map_of (byFriendlyName r) name of Some d \<Rightarrow> Inr d | None \<Rightarrow> Inl ErrNotFound))"

definition reg_List :: "ctx_end \<Rightarrow> register \<Rightarrow> goerr + device_info list" where
  "reg_List ctx r = (case waitForInit ctx r of Some e \<Rightarrow> Inl e | None \<Rightarrow> Inr (reg_list r))"

subsection \<open>What the indexes hold\<close>

text \<open>The last device with a key wins.\<close>

lemma map_of_index_by:
  "map_of (index_by key ds m) k =
     (case find (\<lambda>d. key d = k) (rev ds) of Some d \<Rightarrow> Some d | None \<Rightarrow> map_of m k)"
proof (induction ds arbitrary: m)
  case Nil
  then show ?case by simp
next
  case (Cons d ds)
  from Cons.IH [of "mput (key d) d m"] show ?case
    by (auto simp: find_append split: option.splits)
qed

definition reg_wf :: "register \<Rightarrow> bool" where
  "reg_wf r \<longleftrightarrow> byIeee r = index_by IeeeAddress (reg_list r) []
     \<and> byFriendlyName r = index_by FriendlyName (reg_list r) []
     \<and> (\<not> reg_init r \<longrightarrow> reg_list r = [])"

lemma reg_wf_new: "reg_wf NewDeviceRegister"
  by (simp add: reg_wf_def NewDeviceRegister_def)

lemma reg_wf_Set: "reg_wf (snd (reg_Set devices r))"
  by (simp add: reg_wf_def reg_Set_def Let_def)

lemma reg_Set_simps [simp]:
  "reg_list (snd (reg_Set ds r)) = ds"
  "reg_init (snd (reg_Set ds r))"
  "fst (reg_Set ds r) \<longleftrightarrow> \<not> reg_init r"
  by (simp_all add: reg_Set_def Let_def)

text \<open>The contract of a lookup by a key over a listed collection.\<close>

locale device_lookup =
  fixes get :: "register \<Rightarrow> string \<Rightarrow> goerr + device_info"
    and key :: "device_info \<Rightarrow> string"
  assumes get_sound: "reg_wf r \<Longrightarrow> get r k = Inr d \<Longrightarrow> d \<in> set (reg_list r) \<and> key d = k"
    and get_complete: "reg_wf r \<Longrightarrow> reg_init r \<Longrightarrow> d \<in> set (reg_list r) \<Longrightarrow> \<exists>d'. get r (key d) = Inr d'"
    and get_missing: "reg_wf r \<Longrightarrow> reg_init r \<Longrightarrow> get r k = Inl e \<Longrightarrow> e = ErrNotFound"
begin

lemma get_ready_iff:
  assumes "reg_wf r" and "reg_init r"
  shows "(\<exists>d. get r k = Inr d) \<longleftrightarrow> k \<in> key ` set (reg_list r)"
proof
  assume "\<exists>d. get r k = Inr d"
  then obtain d where "get r k = Inr d" ..
  from get_sound [OF assms(1) this] show "k \<in> key ` set (reg_list r)" by auto
next
  assume "k \<in> key ` set (reg_list r)"
  then show "\<exists>d. get r k = Inr d" using get_complete [OF assms] by auto
qed

lemma get_not_found_iff:
  assumes "reg_wf r" and "reg_init r"
  shows "get r k = Inl ErrNotFound \<longleftrightarrow> k \<notin> key ` set (reg_list r)"
  using get_ready_iff [OF assms, of k] get_missing [OF assms, of k]
  by (cases "get r k") auto

lemma get_unique:
  assumes "reg_wf r" and "reg_init r" and "inj_on key (set (reg_list r))" and "d \<in> set (reg_list r)"
  shows "get r (key d) = Inr d"
proof -
  from get_complete [OF assms(1,2,4)] obtain d' where d': "get r (key d) = Inr d'" ..
  from get_sound [OF assms(1) d'] have "d' \<in> set (reg_list r)" "key d' = key d" by auto
  with assms(3,4) have "d' = d" by (auto dest: inj_onD)
  with d' show ?thesis by simp
qed

end

lemma index_lookup:
  assumes "reg_wf r" and m: "m = index_by key (reg_list r) []"
  shows "map_of m k = Some d \<Longrightarrow> d \<in> set (reg_list r) \<and> key d = k"
    and "d \<in> set (reg_list r) \<Longrightarrow> \<exists>d'. map_of m (key d) = Some d'"
proof -
  have *: "map_of m k' = find (\<lambda>d. key d = k') (rev (reg_list r))" for k'
    by (simp add: m map_of_index_by split: option.splits)
  show "map_of m k = Some d \<Longrightarrow> d \<in> set (reg_list r) \<and> key d = k"
    by (auto simp: * dest: find_SomeD)
  show "\<exists>d'. map_of m (key d) = Some d'" if "d \<in> set (reg_list r)"
  proof (rule ccontr)
    assume "\<not> ?thesis"
    then have "find (\<lambda>x. key x = key d) (rev (reg_list r)) = None" by (simp add: *)
    with that show False by (auto simp: find_None_iff)
  qed
qed

interpretation ieee: device_lookup "reg_GetByIeee ctx" IeeeAddress for ctx
proof unfold_locales
  fix r k d
  assume "reg_wf r" and "reg_GetByIeee ctx r k = Inr d"
  then show "d \<in> set (reg_list r) \<and> IeeeAddress d = k"
    using index_lookup(1) [of r "byIeee r" IeeeAddress]
    by (auto simp: reg_wf_def reg_GetByIeee_def split: option.splits)
next
  fix r d
  assume "reg_wf r" and "reg_init r" and "d \<in> set (reg_list r)"
  then show "\<exists>d'. reg_GetByIeee ctx r (IeeeAddress d) = Inr d'"
    using index_lookup(2) [of r "byIeee r" IeeeAddress d]
    by (auto simp: reg_wf_def reg_GetByIeee_def waitForInit_def)
next
  fix r k e
  assume "reg_init r" and "reg_GetByIeee ctx r k = Inl e"
  then show "e = ErrNotFound"
    by (auto simp: reg_GetByIeee_def waitForInit_def split: option.splits)
qed

interpretation friendly: device_lookup "reg_GetByFriendlyName ctx" FriendlyName for ctx
proof unfold_locales
  fix r k d
  assume "reg_wf r" and "reg_GetByFriendlyName ctx r k = Inr d"
  then show "d \<in> set (reg_list r) \<and> FriendlyName d = k"
    using index_lookup(1) [of r "byFriendlyName r" FriendlyName]
    by (auto simp: reg_wf_def reg_GetByFriendlyName_def split: option.splits)
next
  fix r d
  assume "reg_wf r" and "reg_init r" and "d \<in> set (reg_list r)"
  then show "\<exists>d'. reg_GetByFriendlyName ctx r (FriendlyName d) = Inr d'"
    using index_lookup(2) [of r "byFriendlyName r" FriendlyName d]
    by (auto simp: reg_wf_def reg_GetByFriendlyName_def waitForInit_def)
next
  fix r k e
  assume "reg_init r" and "reg_GetByFriendlyName ctx r k = Inl e"
  then show "e = ErrNotFound"
    by (auto simp: reg_GetByFriendlyName_def waitForInit_def split: option.splits)
qed

end
