(* ===== verification/MessageStructs.thy ===== *)
theory MessageStructs
  imports DeviceModel
begin

section \<open>Messages derived from the exposed features of a device\<close>

text \<open>
  \<^verbatim>\<open>GetZigbeeMessageStructOfFeatureList\<close> (\<^verbatim>\<open>pkg/zigbee2mqtt/devices.go\<close>) builds an
  example message from the exposed features, and \<^verbatim>\<open>getZigbeeGetMessage\<close>
  (\<^verbatim>\<open>event.go\<close>) the message that asks a device for its values. The lemmas state
  which keys these messages have, by a recursive description of the features
  that does not mention the loops.
\<close>

unbundle bit_operations_syntax

subsection \<open>Access bits\<close>

definition ZigbeeEventAccess :: int where "ZigbeeEventAccess = 1"
definition ZigbeeSetAccess :: int where "ZigbeeSetAccess = 2"
definition ZigbeeGetAccess :: int where "ZigbeeGetAccess = 4"

definition checkZigbeeAccess :: "int \<Rightarrow> int \<Rightarrow> bool" where
  "checkZigbeeAccess access checkFor \<longleftrightarrow> access AND checkFor \<noteq> 0"

subsection \<open>The example message\<close>

text \<open>
  A composite feature with the message \<open>sub\<close> of its nested features: one whose property is
  already in the map as an object is merged into that object; one without a property
  puts the nested keys beside the others.
\<close>

definition put_composite ::
    "int \<Rightarrow> feature_attrs \<Rightarrow> (string, go_value) gomap \<Rightarrow> (string, go_value) gomap \<Rightarrow> (string, go_value) gomap"
where
  "put_composite access a sub req =
     (if sub \<noteq> [] \<or> checkZigbeeAccess (Access a) access then
        (if Property a \<noteq> [] then
           mput (Property a)
             (VMap (case map_of req (Property a) of Some (VMap m) \<Rightarrow> mcopy sub m | _ \<Rightarrow> sub)) req
         else mcopy sub req)
      else req)"

text \<open>
  A feature without nested features; \<open>isub\<close> is the message of its item type. A type
  that is not one of the five adds nothing.
\<close>

definition put_leaf ::
    "feature_attrs \<Rightarrow> feature option \<Rightarrow> (string, go_value) gomap \<Rightarrow> (string, go_value) gomap \<Rightarrow> (string, go_value) gomap"
where
  "put_leaf a it isub req =
     (if Type a = ''numeric'' then
        mput (Property a) (if f64_pos (ValueMax a) then VFloat (ValueMax a) else VInt 42) req
      else if Type a = ''binary'' then mput (Property a) (ValueOn a) req
      else if Type a = ''enum'' then
        mput (Property a) (case Values a of v # _ \<Rightarrow> v | [] \<Rightarrow> VNil) req
      else if Type a = ''text'' then mput (Property a) (VStr ''text'') req
      else if Type a = ''list'' then
        mput (Property a)
          (case it of
             None \<Rightarrow> VList []
           | Some i \<Rightarrow>
               if Features i \<noteq> [] then VList [VMap isub]
               else VList [case map_of isub (Property (attrs i)) of Some v \<Rightarrow> v | None \<Rightarrow> VNil])
          req
      else req)"

text \<open>
  The loop over \<^verbatim>\<open>todo\<close> with the map \<^verbatim>\<open>req\<close> built so far. The recursive calls, for the
  nested features and for the item type of a list, start with an empty map.
\<close>

fun struct_loop :: "feature list \<Rightarrow> int \<Rightarrow> (string, go_value) gomap \<Rightarrow> (string, go_value) gomap" where
  "struct_loop [] access req = req"
| "struct_loop (Feature a subs it # todo) access req =
     struct_loop todo access
       (if subs \<noteq> [] then put_composite access a (struct_loop subs access []) req
        else if checkZigbeeAccess (Access a) access then
          put_leaf a it (case it of None \<Rightarrow> [] | Some i \<Rightarrow> struct_loop [i] access []) req
        else req)"

definition GetZigbeeMessageStructOfFeatureList ::
    "feature list \<Rightarrow> int \<Rightarrow> (string, go_value) gomap" where
  "GetZigbeeMessageStructOfFeatureList features access = struct_loop features access []"

definition GetZigbeeMessageStruct :: "device_info \<Rightarrow> int \<Rightarrow> (string, go_value) gomap" where
  "GetZigbeeMessageStruct device access =
     GetZigbeeMessageStructOfFeatureList (Exposes (Definition device)) access"

definition GetZigbeeMessageOutputStruct :: "device_info \<Rightarrow> (string, go_value) gomap" where
  [simp]: "GetZigbeeMessageOutputStruct device = GetZigbeeMessageStruct device ZigbeeEventAccess"

definition GetZigbeeMessageInputStruct :: "device_info \<Rightarrow> (string, go_value) gomap" where
  [simp]: "GetZigbeeMessageInputStruct device = GetZigbeeMessageStruct device ZigbeeSetAccess"

text \<open>The keys a feature contributes, and whether it contributes any.\<close>

definition leaf_types :: "string list" where
  "leaf_types = [''numeric'', ''binary'', ''enum'', ''text'', ''list'']"

fun feature_keys :: "int \<Rightarrow> feature \<Rightarrow> string set" where
  "feature_keys access (Feature a subs it) =
     (if subs \<noteq> [] then
        (if (\<Union>f \<in> set subs. feature_keys access f) \<noteq> {} \<or> checkZigbeeAccess (Access a) access then
           (if Property a \<noteq> [] then {Property a} else (\<Union>f \<in> set subs. feature_keys access f))
         else {})
      else if checkZigbeeAccess (Access a) access \<and> Type a \<in> set leaf_types then {Property a}
      else {})"

lemma put_composite_keys:
  "fst ` set (put_composite access a sub req) =
     fst ` set req \<union>
     (if fst ` set sub \<noteq> {} \<or> checkZigbeeAccess (Access a) access
      then (if Property a \<noteq> [] then {Property a} else fst ` set sub) else {})"
  by (auto simp: put_composite_def)

lemma put_leaf_keys:
  "fst ` set (put_leaf a it isub req) =
     fst ` set req \<union> (if Type a \<in> set leaf_types then {Property a} else {})"
  by (simp add: put_leaf_def leaf_types_def)

lemma struct_loop_keys:
  "fst ` set (struct_loop fs access req) = fst ` set req \<union> (\<Union>f \<in> set fs. feature_keys access f)"
proof (induction fs access req rule: struct_loop.induct)
  case (2 a subs it todo access req)
  have "fst ` set (struct_loop subs access []) = (\<Union>f \<in> set subs. feature_keys access f)" if "subs \<noteq> []"
    using "2.IH"(1) [OF that] by simp
  then show ?case
    by (simp add: "2.IH"(3) put_composite_keys put_leaf_keys Un_assoc Un_left_commute)
qed simp

lemma mwf_put: "mwf req \<Longrightarrow> mwf (put_composite access a sub req)"
  "mwf req \<Longrightarrow> mwf (put_leaf a it isub req)"
  by (simp_all add: put_composite_def put_leaf_def)

lemma mwf_struct_loop: "mwf req \<Longrightarrow> mwf (struct_loop fs access req)"
  by (induction fs access req rule: struct_loop.induct) (simp_all add: mwf_put)

subsection \<open>The message that requests the values\<close>

text \<open>
  The worklist loop: a feature without a property hands its nested features to the end
  of the list. The sum of the sizes of the listed features decreases.
\<close>

function get_loop :: "feature list \<Rightarrow> (string, go_value) gomap \<Rightarrow> (string, go_value) gomap" where
  "get_loop [] req = req"
| "get_loop (Feature a subs it # todo) req =
     (if Property a \<noteq> [] then
        get_loop todo
          (if Access a = 0 \<or> checkZigbeeAccess (Access a) ZigbeeGetAccess
           then mput (Property a) VNil req else req)
      else if subs \<noteq> [] then get_loop (todo @ subs) req
      else get_loop todo req)"
  by pat_completeness auto
termination
  by (relation "measure (\<lambda>(todo, req). sum_list (map size todo))")
     (auto simp: size_list_conv_sum_list)

definition getZigbeeGetMessage :: "device_info \<Rightarrow> (string, go_value) gomap" where
  "getZigbeeGetMessage device = get_loop (Exposes (Definition device)) []"

fun get_keys :: "feature \<Rightarrow> string set" where
  "get_keys (Feature a subs it) =
     (if Property a \<noteq> [] then
        (if Access a = 0 \<or> checkZigbeeAccess (Access a) ZigbeeGetAccess then {Property a} else {})
      else (\<Union>f \<in> set subs. get_keys f))"

lemma get_loop_keys: "fst ` set (get_loop fs req) = fst ` set req \<union> (\<Union>f \<in> set fs. get_keys f)"
  by (induction fs req rule: get_loop.induct) auto

lemma get_loop_nil: "snd ` set req \<subseteq> {VNil} \<Longrightarrow> mwf req \<Longrightarrow> snd ` set (get_loop fs req) \<subseteq> {VNil}"
proof (induction fs req rule: get_loop.induct)
  case (2 a subs it todo req)
  have "snd ` set (mput (Property a) VNil req) \<subseteq> {VNil}"
  proof
    fix v assume "v \<in> snd ` set (mput (Property a) VNil req)"
    then obtain k where "(k, v) \<in> set (mput (Property a) VNil req)" by auto
    with "2.prems" show "v \<in> {VNil}" by (auto simp: set_mput split: if_splits)
  qed
  with 2 show ?case by simp
qed simp

lemma mwf_get_loop: "mwf req \<Longrightarrow> mwf (get_loop fs req)"
  by (induction fs req rule: get_loop.induct) auto

end
