(* ===== verification/GoMarshal.thy ===== *)
theory GoMarshal
  imports GoJson
begin

section \<open>Encoding JSON\<close>

text \<open>
  \<^verbatim>\<open>json.Marshal\<close> for the values the connector publishes: strings, null, objects and
  arrays of encoded members. A string is escaped rune by rune: the HTML characters and
  the line separators U+2028 and U+2029 as \<^verbatim>\<open>\u\<close> escapes, invalid bytes as
  \<^verbatim>\<open>\ufffd\<close>. The lemmas say that the scanner and \<^verbatim>\<open>unquote\<close> undo the escaping of every
  valid UTF-8 string.
\<close>

definition hex_char :: "nat \<Rightarrow> char" where
  "hex_char n = (if n < 10 then char_of (48 + n) else char_of (87 + n))"

definition esc_byte :: "char \<Rightarrow> string" where
  "esc_byte c =
     (if c = CHR 0x22 \<or> c = CHR 0x5C then [CHR 0x5C, c]
      else if c = CHR 0x08 then [CHR 0x5C, CHR ''b'']
      else if c = CHR 0x0C then [CHR 0x5C, CHR ''f'']
      else if c = CHR 0x0A then [CHR 0x5C, CHR ''n'']
      else if c = CHR 0x0D then [CHR 0x5C, CHR ''r'']
      else if c = CHR 0x09 then [CHR 0x5C, CHR ''t'']
      else if in_range c 0 0x1F \<or> c = CHR 0x3C \<or> c = CHR 0x3E \<or> c = CHR 0x26 then
        CHR 0x5C # ''u00'' @ [hex_char (of_char c div 16), hex_char (of_char c mod 16)]
      else [c])"

definition esc_rune :: "string \<Rightarrow> string" where
  "esc_rune r =
     (case r of [c] \<Rightarrow> esc_byte c
      | _ \<Rightarrow> if r = bytes [0xE2, 0x80, 0xA8] then CHR 0x5C # ''u2028''
             else if r = bytes [0xE2, 0x80, 0xA9] then CHR 0x5C # ''u2029''
             else r)"

definition escape_head :: "string \<Rightarrow> string \<times> string" where
  "escape_head s =
     (if utf8_len s = 0 then (CHR 0x5C # ''ufffd'', drop 1 s)
      else (esc_rune (take (utf8_len s) s), drop (utf8_len s) s))"

definition escape :: "string \<Rightarrow> string" where
  "escape = pieces escape_head"

interpretation esc: piecewise escape_head
  by unfold_locales (simp add: escape_head_def)

definition enc_string :: "string \<Rightarrow> string" where
  "enc_string s = CHR 0x22 # escape s @ [CHR 0x22]"

definition enc_null :: string where
  "enc_null = ''null''"

definition enc_object :: "(string \<times> string) list \<Rightarrow> string" where
  "enc_object ms =
     CHR 0x7B # Join (map (\<lambda>(k, v). enc_string k @ CHR 0x3A # v) ms) [CHR 0x2C] @ [CHR 0x7D]"

definition enc_array :: "string list \<Rightarrow> string" where
  "enc_array vs = CHR 0x5B # Join vs [CHR 0x2C] @ [CHR 0x5D]"

text \<open>A Go map is encoded with its keys in byte order.\<close>

definition enc_map :: "(string, string) gomap \<Rightarrow> string" where
  "enc_map m = enc_object
     (map (\<lambda>k. (k, case map_of m k of Some v \<Rightarrow> v | None \<Rightarrow> [])) (sort_Strings (mkeys m)))"

text \<open>Valid UTF-8: the loop over the runes meets no invalid byte.\<close>

inductive valid_utf8 :: "string \<Rightarrow> bool" where
  valid_Nil: "valid_utf8 []"
| valid_rune: "utf8_len s = Suc k \<Longrightarrow> valid_utf8 (drop (Suc k) s) \<Longrightarrow> valid_utf8 s"

code_pred valid_utf8 .

subsection \<open>Undoing one escape\<close>

lemma unquote_Nil [simp]: "unquote [] = []"
  by (simp add: unquote_def unq.pieces_Nil)

lemma unquote_esc: "e \<noteq> CHR ''u'' \<Longrightarrow> unquote (CHR 0x5C # e # t) = unescape e # unquote t"
  by (simp add: unquote_def unq.pieces_unfold unquote_head_def)

lemma unquote_u:
  "\<not> is_high (hex4 a b c d) \<Longrightarrow> \<not> is_low (hex4 a b c d) \<Longrightarrow>
   unquote (CHR 0x5C # CHR ''u'' # a # b # c # d # t) = utf8 (hex4 a b c d) @ unquote t"
  by (simp add: unquote_def unq.pieces_unfold unquote_head_def unquote_hex_def)

lemma unquote_rune:
  assumes "s = c # t" and "c \<noteq> CHR 0x5C" and "utf8_len s = Suc k"
  shows "unquote s = take (Suc k) s @ unquote (drop (Suc k) s)"
  using assms by (auto simp: unquote_def unq.pieces_unfold unquote_head_def rune_head_def split: list.splits)

lemma hex_digit_char: "n < 16 \<Longrightarrow> hex_digit (hex_char n) = Some n"
  by (auto simp: hex_digit_def hex_char_def Let_def)

lemma hex4_control: "n < 256 \<Longrightarrow> hex4 CHR ''0'' CHR ''0'' (hex_char (n div 16)) (hex_char (n mod 16)) = n"
  by (simp add: hex4_def hex_digit_char Let_def) (simp add: hex_digit_def Let_def)

lemma of_char_bytes: "bytes [of_char c] = [c]"
  by (simp add: bytes_def)

lemma utf8_len_1: "in_range c 0 0x7F \<Longrightarrow> utf8_len (c # s) = 1"
  by (simp add: utf8_len_def utf8_1_def)

lemma unquote_esc_byte:
  assumes "in_range c 0 0x7F"
  shows "unquote (esc_byte c @ t) = c # unquote t"
proof -
  have n: "(of_char c :: nat) < 128" using assms by (simp add: in_range_def)
  then have hex: "unquote (CHR 0x5C # ''u00'' @
      [hex_char (of_char c div 16), hex_char (of_char c mod 16)] @ t) = c # unquote t"
    by (simp add: unquote_u hex4_control is_high_def is_low_def utf8_def of_char_bytes)
  have plain: "unquote (c # t) = c # unquote t" if "c \<noteq> CHR 0x5C"
    using unquote_rune [of "c # t" c t 0] that utf8_len_1 [OF assms] by simp
  show ?thesis
    using hex plain by (auto simp: esc_byte_def unquote_esc unescape_def)
qed

lemma in_set_hex: "hex_digit c = Some n \<Longrightarrow> scan_run (c # t) (InHex raw k, st) =
   scan_run t (if k \<le> 1 then InString (c # raw) else InHex (c # raw) (k - 1), st)"
  by simp

lemma hex_digit_0: "hex_digit CHR ''0'' = Some 0"
  by (simp add: hex_digit_def Let_def)

lemma scan_esc_byte:
  assumes "in_range c 0 0x7F"
  shows "scan_run (esc_byte c @ t) (InString raw, st) = scan_run t (InString (rev (esc_byte c) @ raw), st)"
proof -
  have "(of_char c :: nat) div 16 < 16" by (simp add: less_mult_imp_div_less)
  then have "hex_digit (hex_char (of_char c div 16)) = Some (of_char c div 16)"
      and "hex_digit (hex_char (of_char c mod 16)) = Some (of_char c mod 16)"
    by (simp_all add: hex_digit_char)
  then show ?thesis by (simp add: esc_byte_def hex_digit_0)
qed

text \<open>A longer rune: none of its bytes is special, and \<open>utf8_len\<close> depends on them alone.\<close>

lemma utf8_k_take:
  "utf8_1 s \<Longrightarrow> utf8_1 (take 1 s @ t)" "utf8_2 s \<Longrightarrow> utf8_2 (take 2 s @ t)"
  "utf8_3 s \<Longrightarrow> utf8_3 (take 3 s @ t)" "utf8_4 s \<Longrightarrow> utf8_4 (take 4 s @ t)"
  by (auto simp: utf8_1_def utf8_2_def utf8_3_def utf8_4_def numeral_eq_Suc split: list.splits)

lemma utf8_first:
  "utf8_1 s \<Longrightarrow> \<exists>a u. s = a # u \<and> in_range a 0 0x7F"
  "utf8_2 s \<Longrightarrow> \<exists>a u. s = a # u \<and> in_range a 0xC2 0xDF"
  "utf8_3 s \<Longrightarrow> \<exists>a u. s = a # u \<and> in_range a 0xE0 0xEF"
  "utf8_4 s \<Longrightarrow> \<exists>a u. s = a # u \<and> in_range a 0xF0 0xF4"
  by (auto simp: utf8_1_def utf8_2_def utf8_3_def utf8_4_def split: list.splits)

lemma utf8_len_iff:
  "utf8_1 s \<Longrightarrow> utf8_len s = 1" "utf8_2 s \<Longrightarrow> utf8_len s = 2"
  "utf8_3 s \<Longrightarrow> utf8_len s = 3" "utf8_4 s \<Longrightarrow> utf8_len s = 4"
  by (auto simp: utf8_len_def in_range_def dest!: utf8_first)

lemma utf8_len_cases:
  assumes "utf8_len s = Suc k"
  obtains "utf8_1 s" "k = 0" | "utf8_2 s" "k = 1" | "utf8_3 s" "k = 2" | "utf8_4 s" "k = 3"
  using assms by (auto simp: utf8_len_def split: if_splits)

lemma utf8_len_take: "utf8_len s = Suc k \<Longrightarrow> utf8_len (take (Suc k) s @ t) = Suc k"
  by (erule utf8_len_cases)
     (use utf8_k_take utf8_len_iff in \<open>auto simp: numeral_eq_Suc\<close>)

lemma utf8_high:
  "utf8_2 s \<Longrightarrow> list_all (\<lambda>c. in_range c 0x80 0xFF) (take 2 s)"
  "utf8_3 s \<Longrightarrow> list_all (\<lambda>c. in_range c 0x80 0xFF) (take 3 s)"
  "utf8_4 s \<Longrightarrow> list_all (\<lambda>c. in_range c 0x80 0xFF) (take 4 s)"
  by (auto simp: utf8_2_def utf8_3_def utf8_4_def in_range_def cont_def numeral_eq_Suc split: list.splits)

lemma utf8_len_length: "utf8_len s \<le> length s"
  by (auto simp: utf8_len_def utf8_1_def utf8_2_def utf8_3_def utf8_4_def split: list.splits)

lemma scan_high: "list_all (\<lambda>c. in_range c 0x80 0xFF) u \<Longrightarrow>
   scan_run (u @ t) (InString raw, st) = scan_run t (InString (rev u @ raw), st)"
proof (induction u arbitrary: raw)
  case (Cons c u)
  then have "c \<noteq> CHR 0x22" "c \<noteq> CHR 0x5C" "\<not> in_range c 0 0x1F" by (auto simp: in_range_def)
  with Cons show ?case by simp
qed simp

lemma hex_char_digits: "hex_char 8 = CHR ''8''" "hex_char 9 = CHR ''9''"
  by code_simp+

lemma esc_rune_cases:
  assumes "utf8_len s = Suc k"
  obtains (one) c where "k = 0" "in_range c 0 0x7F" "take (Suc k) s = [c]"
      "esc_rune (take (Suc k) s) = esc_byte c"
  | (sep) d where "take (Suc k) s = bytes [0xE2, 0x80, 0xA0 + d]" "d = 8 \<or> d = 9"
      "esc_rune (take (Suc k) s) = CHR 0x5C # ''u202'' @ [hex_char d]"
  | (high) "esc_rune (take (Suc k) s) = take (Suc k) s" "k \<noteq> 0"
      "list_all (\<lambda>c. in_range c 0x80 0xFF) (take (Suc k) s)"
proof (cases k)
  case 0
  from assms have "utf8_1 s"
    by (rule utf8_len_cases) (simp_all add: 0)
  then obtain c u where "s = c # u" "in_range c 0 0x7F"
    using utf8_first(1) by blast
  with 0 show thesis by (intro one) (auto simp: esc_rune_def)
next
  case (Suc j)
  let ?r = "take (Suc k) s"
  have hi: "list_all (\<lambda>c. in_range c 0x80 0xFF) ?r"
    using assms Suc by (cases rule: utf8_len_cases) (use utf8_high in \<open>auto simp: numeral_eq_Suc\<close>)
  have len: "length ?r = Suc (Suc j)" using utf8_len_length [of s] assms Suc by simp
  then have not1: "?r \<noteq> [c]" for c by (metis length_Cons list.size(3) old.nat.inject nat.distinct(1))
  consider "?r = bytes [0xE2, 0x80, 0xA8]" | "?r = bytes [0xE2, 0x80, 0xA9]"
    | "?r \<noteq> bytes [0xE2, 0x80, 0xA8]" "?r \<noteq> bytes [0xE2, 0x80, 0xA9]" by blast
  then show thesis
  proof cases
    case 1
    then show thesis using not1
      by (intro sep [of 8]) (auto simp: esc_rune_def hex_char_digits bytes_def split: list.splits)
  next
    case 2
    then show thesis using not1
      by (intro sep [of 9]) (auto simp: esc_rune_def hex_char_digits bytes_def split: list.splits)
  next
    case 3
    then have "esc_rune ?r = ?r" using not1 by (auto simp: esc_rune_def split: list.splits)
    with hi Suc show thesis by (intro high) auto
  qed
qed

lemma hex4_sep: "d = 8 \<or> d = 9 \<Longrightarrow> hex4 CHR ''2'' CHR ''0'' CHR ''2'' (hex_char d) = 0x2020 + d"
  by (auto simp: hex4_def hex_char_def hex_digit_def Let_def)

lemma utf8_sep: "d = 8 \<or> d = 9 \<Longrightarrow> utf8 (0x2020 + d) = bytes [0xE2, 0x80, 0xA0 + d]"
  by (auto simp: utf8_def)

lemma unquote_esc_rune:
  assumes "utf8_len s = Suc k"
  shows "unquote (esc_rune (take (Suc k) s) @ t) = take (Suc k) s @ unquote t"
  using assms
proof (cases rule: esc_rune_cases)
  case (one c)
  then show ?thesis by (simp add: unquote_esc_byte)
next
  case (sep d)
  then show ?thesis
    using utf8_sep [of d] by (auto simp: unquote_u hex4_sep is_high_def is_low_def)
next
  case high
  let ?r = "take (Suc k) s"
  have len: "length ?r = Suc k" using utf8_len_length [of s] assms by simp
  then obtain c u where r: "?r = c # u" by (cases ?r) auto
  with high have "c \<noteq> CHR 0x5C" by (auto simp: in_range_def)
  then have "unquote (?r @ t) = take (Suc k) (?r @ t) @ unquote (drop (Suc k) (?r @ t))"
    using unquote_rune [of "?r @ t" c "u @ t" k] r utf8_len_take [OF assms, of t] by simp
  moreover have "take (length r) (r @ t) = r" and "drop (length r) (r @ t) = t" for r :: string
    by simp_all
  from this [of ?r] have "take (Suc k) (?r @ t) = ?r" and "drop (Suc k) (?r @ t) = t"
    by (simp_all only: len)
  ultimately show ?thesis using high(1) by simp
qed

lemma scan_esc_rune:
  assumes "utf8_len s = Suc k"
  shows "scan_run (esc_rune (take (Suc k) s) @ t) (InString raw, st) =
    scan_run t (InString (rev (esc_rune (take (Suc k) s)) @ raw), st)"
  using assms
proof (cases rule: esc_rune_cases)
  case (one c)
  then show ?thesis by (simp add: scan_esc_byte)
next
  case (sep d)
  then show ?thesis by (auto simp: hex_digit_def hex_char_def Let_def)
next
  case high
  then show ?thesis by (simp add: scan_high)
qed

lemma escape_unfold: "utf8_len s = Suc k \<Longrightarrow> escape s = esc_rune (take (Suc k) s) @ escape (drop (Suc k) s)"
  using esc.pieces_unfold [of s] by (cases "s = []") (auto simp: escape_def escape_head_def)

lemma unquote_escape: "valid_utf8 s \<Longrightarrow> unquote (escape s) = s"
proof (induction rule: valid_utf8.induct)
  case valid_Nil
  then show ?case by (simp add: escape_def esc.pieces_Nil)
next
  case (valid_rune s k)
  then show ?case by (simp add: escape_unfold unquote_esc_rune)
qed

lemma scan_escape: "valid_utf8 s \<Longrightarrow>
   scan_run (escape s @ t) (InString raw, st) = scan_run t (InString (rev (escape s) @ raw), st)"
proof (induction arbitrary: raw rule: valid_utf8.induct)
  case valid_Nil
  then show ?case by (simp add: escape_def esc.pieces_Nil)
next
  case (valid_rune s k)
  then show ?case by (simp add: escape_unfold scan_esc_rune)
qed

subsection \<open>Reading back what was encoded\<close>

text \<open>
  \<open>scans d e v\<close>: read where a value is expected, the text \<open>e\<close> is the value \<open>v\<close>, if
  \<open>d\<close> more containers may be opened.
\<close>

definition value_stack :: "frame list \<Rightarrow> bool" where
  "value_stack st \<longleftrightarrow> (case st of FObj ms # st' \<Rightarrow> False | _ \<Rightarrow> True)"

definition scans :: "nat \<Rightarrow> string \<Rightarrow> json \<Rightarrow> bool" where
  "scans d e v \<longleftrightarrow> (\<forall>st t. value_stack st \<longrightarrow> length st + d \<le> max_depth \<longrightarrow>
     scan_run (e @ t) (BeginValue, st) = scan_run t (EndValue v, st))"

lemma scans_mono: "scans d e v \<Longrightarrow> d \<le> d' \<Longrightarrow> scans d' e v"
  by (auto simp: scans_def)

lemma scan_string_value:
  assumes "valid_utf8 s" and "value_stack st"
  shows "scan_run (enc_string s @ t) (BeginValue, st) = scan_run t (EndValue (JStr s), st)"
  using assms
  by (auto simp: enc_string_def begin_value_def is_space_def scan_escape end_string_def unquote_escape
      value_stack_def split: list.splits frame.splits)

lemma scan_string_key:
  assumes "valid_utf8 s" and "m = BeginString \<or> m = BeginStringOrEmpty"
  shows "scan_run (enc_string s @ t) (m, FObj ms # st) = scan_run t (Colon, FVal ms s # st)"
  using assms
  by (auto simp: enc_string_def is_space_def scan_escape end_string_def unquote_escape)

lemma scans_string: "valid_utf8 s \<Longrightarrow> scans 0 (enc_string s) (JStr s)"
  by (simp add: scans_def scan_string_value)

lemma scans_null: "scans 0 enc_null JNull"
  by (simp add: scans_def enc_null_def begin_value_def is_space_def is_digit19_def in_range_def)

lemma scan_members:
  assumes "list_all2 (\<lambda>(k, e) (k', v). k' = k \<and> valid_utf8 k \<and> scans d e v) ms vs" and "ms \<noteq> []"
    and "m = BeginString \<or> m = BeginStringOrEmpty" and "Suc (length st) + d \<le> max_depth"
  shows "scan_run (Join (map (\<lambda>(k, e). enc_string k @ CHR 0x3A # e) ms) [CHR 0x2C] @ CHR 0x7D # t)
      (m, FObj acc # st) = scan_run t (EndValue (JObj (rev acc @ vs)), st)"
  using assms
proof (induction ms vs arbitrary: acc m rule: list_all2_induct)
  case Nil
  then show ?case by simp
next
  case (Cons p ms q vs)
  obtain k e v where p: "p = (k, e)" and q: "q = (k, v)" and k: "valid_utf8 k" and e: "scans d e v"
    using Cons.hyps(1) by (cases p; cases q) auto
  let ?rest = "\<lambda>u. scan_run (enc_string k @ CHR 0x3A # e @ u) (m, FObj acc # st)"
  have head: "?rest u = scan_run u (EndValue v, FVal acc k # st)" for u
    using e k Cons.prems(2,3)
    by (simp add: scan_string_key is_space_def scans_def value_stack_def)
  show ?case
  proof (cases "ms = []")
    case True
    with Cons.hyps(2) have "vs = []" by simp
    with True show ?thesis using head by (simp add: p q end_value_def is_space_def)
  next
    case False
    with Cons.IH [of BeginString "(k, v) # acc"] Cons.prems(3) head show ?thesis
      by (simp add: p q Join_Cons end_value_def is_space_def)
  qed
qed

lemma scans_object:
  assumes "list_all2 (\<lambda>(k, e) (k', v). k' = k \<and> valid_utf8 k \<and> scans d e v) ms vs"
  shows "scans (Suc d) (enc_object ms) (JObj vs)"
proof (cases "ms = []")
  case True
  with assms show ?thesis
    by (auto simp: scans_def enc_object_def begin_value_def is_space_def push_def)
next
  case False
  then show ?thesis
    using scan_members [OF assms False, where m = BeginStringOrEmpty and acc = "[]"]
    by (auto simp: scans_def enc_object_def begin_value_def is_space_def push_def)
qed

text \<open>A whole document.\<close>

lemma json_parse_scans: "scans d e v \<Longrightarrow> d \<le> max_depth \<Longrightarrow> json_parse e = Some v"
  by (simp add: json_parse_def scans_def value_stack_def end_value_def is_space_def)

lemma valid_utf8_Cons: "in_range c 0 0x7F \<Longrightarrow> valid_utf8 s \<Longrightarrow> valid_utf8 (c # s)"
  by (rule valid_rune [where k = 0]) (simp_all add: utf8_len_1)

lemma valid_utf8_ascii: "list_all (\<lambda>c. in_range c 0 0x7F) s \<Longrightarrow> valid_utf8 s"
  by (induction s) (auto intro: valid_utf8.intros valid_utf8_Cons)

end
