(* ===== verification/Mqtt.thy ===== *)
theory Mqtt
  imports Prelude
begin

section \<open>The MQTT library as a parameter\<close>

text \<open>
  The paho client and the broker behind it are not code of the repository. They are
  one function \<open>broker\<close>, an argument of every operation that uses MQTT: given
  everything that was asked before and what was answered, it answers the next action
  with success (\<open>None\<close>) or with an error text. The last will is part of connecting. So a broker may refuse, lose the
  connection and recover at any point. A state keeps the \<open>trace\<close> of actions and
  answers; \<open>accepted\<close> are the messages whose publish was answered with success.
\<close>

record mqtt_msg =
  msg_topic :: string
  msg_qos :: nat
  msg_retained :: bool
  msg_payload :: string

datatype mqtt_act =
    Connect "mqtt_msg option"
  | IsConnected
  | Publish mqtt_msg
  | Subscribe string nat
  | Unsubscribe string

type_synonym mqtt_trace = "(mqtt_act \<times> string option) list"
type_synonym broker = "mqtt_trace \<Rightarrow> mqtt_act \<Rightarrow> string option"

definition ask :: "broker \<Rightarrow> mqtt_act \<Rightarrow> mqtt_trace \<Rightarrow> string option \<times> mqtt_trace" where
  "ask b a tr = (b tr a, tr @ [(a, b tr a)])"

fun accepted_act :: "mqtt_act \<times> string option \<Rightarrow> mqtt_msg list" where
  "accepted_act (Publish m, None) = [m]"
| "accepted_act _ = []"

definition accepted :: "mqtt_trace \<Rightarrow> mqtt_msg list" where
  "accepted tr = concat (map accepted_act tr)"

lemma accepted_Nil [simp]: "accepted [] = []"
  by (simp add: accepted_def)

lemma accepted_Cons [simp]: "accepted (x # tr) = accepted_act x @ accepted tr"
  by (simp add: accepted_def)

lemma accepted_append [simp]: "accepted (tr @ tr') = accepted tr @ accepted tr'"
  by (simp add: accepted_def)

text \<open>Brokers for concrete runs: one that accepts everything, one that is not reachable.\<close>

definition reliable :: broker where
  "reliable tr a = None"

definition unreachable :: broker where
  "unreachable tr a = Some ''not connected''"

end
