(* ===== verification/GoTime.thy ===== *)
theory GoTime
  imports GoStrings GoFloat
begin

section \<open>Durations and the clock\<close>

text \<open>
  A \<^verbatim>\<open>time.Duration\<close> is an \<^verbatim>\<open>int64\<close> count of nanoseconds; here an \<^typ>\<open>int\<close>
  with the bounds written out. \<open>ParseDuration\<close> follows the library's scanner: a
  sign, then one or more groups of a decimal number and a unit, with its overflow
  checks on \<^verbatim>\<open>uint64\<close> and its float64 product for fractions. The error texts,
  which the connector only prints, are left out: an error is \<open>None\<close>.
\<close>

definition max_int64 :: int where
  "max_int64 = 2 ^ 63 - 1"

definition min_int64 :: int where
  "min_int64 = - (2 ^ 63)"

definition second :: int where
  "second = 1000000000"

definition minute :: int where
  "minute = 60 * second"

definition digit_byte :: "char \<Rightarrow> bool" where
  "digit_byte c \<longleftrightarrow> 48 \<le> (of_char c :: nat) \<and> (of_char c :: nat) \<le> 57"

definition digit_of :: "char \<Rightarrow> int" where
  "digit_of c = int (of_char c) - 48"

text \<open>\<^verbatim>\<open>leadingInt\<close>: the value of the leading digits and the rest; \<open>None\<close> on overflow.\<close>

fun leadingInt :: "int \<Rightarrow> string \<Rightarrow> (int \<times> string) option" where
  "leadingInt x [] = Some (x, [])"
| "leadingInt x (c # s) =
     (if \<not> digit_byte c then Some (x, c # s)
      else if x > 2 ^ 63 div 10 then None
      else let y = x * 10 + digit_of c
           in if y > 2 ^ 63 then None else leadingInt y s)"

text \<open>\<^verbatim>\<open>leadingFraction\<close>: digits that do not fit any more are skipped.\<close>

fun leadingFraction :: "int \<Rightarrow> int \<Rightarrow> bool \<Rightarrow> string \<Rightarrow> int \<times> int \<times> string" where
  "leadingFraction x scale ovf [] = (x, scale, [])"
| "leadingFraction x scale ovf (c # s) =
     (if \<not> digit_byte c then (x, scale, c # s)
      else if ovf then leadingFraction x scale True s
      else if x > (2 ^ 63 - 1) div 10 then leadingFraction x scale True s
      else let y = x * 10 + digit_of c
           in if y > 2 ^ 63 then leadingFraction x scale True s
              else leadingFraction y (scale * 10) False s)"

text \<open>The units: ns, us (with U+00B5 and U+03BC as well), ms, s, m, h.\<close>

definition unit_map :: "(string, int) gomap" where
  "unit_map = [(''ns'', 1), (''us'', 1000), (bytes [0xC2, 0xB5] @ ''s'', 1000),
     (bytes [0xCE, 0xBC] @ ''s'', 1000), (''ms'', 1000000), (''s'', 1000000000),
     (''m'', 60000000000), (''h'', 3600000000000)]"

definition unit_byte :: "char \<Rightarrow> bool" where
  "unit_byte c \<longleftrightarrow> c \<noteq> CHR 0x2E \<and> \<not> digit_byte c"

text \<open>\<^verbatim>\<open>uint64(float64(f) * (float64(unit) / scale))\<close>.\<close>

definition frac_ns :: "int \<Rightarrow> int \<Rightarrow> int \<Rightarrow> int" where
  "frac_ns f u scale =
     (case (f64_ratio False f 1, f64_ratio False u scale) of
        (Some a, Some b) \<Rightarrow> (case f64_mul a b of Some x \<Rightarrow> f64_trunc x | None \<Rightarrow> 0)
      | _ \<Rightarrow> 0)"

text \<open>The number of a group: integer part, fraction, scale of the fraction, rest of the string.\<close>

definition duration_number :: "string \<Rightarrow> (int \<times> int \<times> int \<times> string) option" where
  "duration_number s =
     (case s of [] \<Rightarrow> None
      | c # _ \<Rightarrow>
        if \<not> (c = CHR 0x2E \<or> digit_byte c) then None
        else case leadingInt 0 s of None \<Rightarrow> None
        | Some (v, s1) \<Rightarrow>
          if take 1 s1 = [CHR 0x2E] then
            (case leadingFraction 0 1 False (drop 1 s1) of
               (f, scale, s2) \<Rightarrow>
                 if length s1 = length s \<and> length s2 = length (drop 1 s1) then None
                 else Some (v, f, scale, s2))
          else if length s1 = length s then None
          else Some (v, 0, 1, s1))"

text \<open>One group: its nanoseconds and the rest of the string.\<close>

definition duration_group :: "string \<Rightarrow> (int \<times> string) option" where
  "duration_group s =
     (case duration_number s of None \<Rightarrow> None
      | Some (v, f, scale, s2) \<Rightarrow>
        if takeWhile unit_byte s2 = [] then None
        else case map_of unit_map (takeWhile unit_byte s2) of None \<Rightarrow> None
        | Some unit \<Rightarrow>
          if v > 2 ^ 63 div unit then None
          else let d = v * unit + (if 0 < f then frac_ns f unit scale else 0)
               in if d > 2 ^ 63 then None else Some (d, dropWhile unit_byte s2))"

text \<open>
  The loop over the groups. The fuel is the length of the string; a group consumes
  at least its unit.
\<close>

primrec duration_groups :: "nat \<Rightarrow> int \<Rightarrow> string \<Rightarrow> int option" where
  "duration_groups 0 d s = (if s = [] then Some d else None)"
| "duration_groups (Suc n) d s =
     (if s = [] then Some d
      else case duration_group s of None \<Rightarrow> None
      | Some (v, s') \<Rightarrow> if d + v > 2 ^ 63 then None else duration_groups n (d + v) s')"

definition ParseDuration :: "string \<Rightarrow> int option" where
  "ParseDuration s0 =
     (let neg = (take 1 s0 = [CHR 0x2D]);
          s = (if neg \<or> take 1 s0 = [CHR 0x2B] then drop 1 s0 else s0)
      in if s = ''0'' then Some 0
         else if s = [] then None
         else case duration_groups (length s) 0 s of None \<Rightarrow> None
         | Some d \<Rightarrow> if neg then Some (- d) else if d > 2 ^ 63 - 1 then None else Some d)"

subsection \<open>The fuel of the loop is enough, and the result is an int64\<close>

lemma leadingInt_length: "leadingInt x s = Some (v, r) \<Longrightarrow> length r \<le> length s"
  by (induction x s rule: leadingInt.induct) (auto simp: Let_def split: if_splits)

lemma leadingFraction_length: "leadingFraction x sc ov s = (f, sc', r) \<Longrightarrow> length r \<le> length s"
  by (induction x sc ov s rule: leadingFraction.induct) (auto simp: Let_def split: if_splits)

lemma duration_number_length:
  assumes "duration_number s = Some (v, f, sc, r)"
  shows "length r \<le> length s"
proof -
  from assms obtain v' s1 where li: "leadingInt 0 s = Some (v', s1)"
      and r: "r = s1 \<or> (\<exists>f' sc'. leadingFraction 0 1 False (drop 1 s1) = (f', sc', r))"
    by (auto simp: duration_number_def split: list.splits if_splits option.splits prod.splits)
  from r have "length r \<le> length s1"
  proof
    assume "\<exists>f' sc'. leadingFraction 0 1 False (drop 1 s1) = (f', sc', r)"
    then obtain f' sc' where "leadingFraction 0 1 False (drop 1 s1) = (f', sc', r)" by blast
    from leadingFraction_length [OF this] show ?thesis by simp
  qed simp
  with leadingInt_length [OF li] show ?thesis by simp
qed

lemma duration_group_length:
  assumes "duration_group s = Some (d, r)"
  shows "length r < length s"
proof -
  from assms obtain v f sc s2 where num: "duration_number s = Some (v, f, sc, s2)"
      and u: "takeWhile unit_byte s2 \<noteq> []" and r: "r = dropWhile unit_byte s2"
    by (auto simp: duration_group_def Let_def split: if_splits option.splits)
  have "length s2 = length (takeWhile unit_byte s2) + length r"
    unfolding r by (metis length_append takeWhile_dropWhile_id)
  with u have "length r < length s2" by (cases "takeWhile unit_byte s2") auto
  with duration_number_length [OF num] show ?thesis by simp
qed

text \<open>With one unit of fuel per byte the loop never stops early.\<close>

lemma duration_groups_fuel:
  "length s \<le> n \<Longrightarrow> duration_groups n d s = duration_groups (length s) d s"
proof (induction n arbitrary: d s rule: less_induct)
  case (less n)
  show ?case
  proof (cases s)
    case Nil
    then show ?thesis by (cases n) auto
  next
    case (Cons c t)
    with less.prems obtain m where n: "n = Suc m" by (cases n) auto
    have "duration_groups m d' s' = duration_groups (length t) d' s'"
      if "duration_group s = Some (v, s')" for v s' d'
    proof -
      have len: "length s' \<le> length t" using duration_group_length [OF that] Cons by simp
      moreover have "length t \<le> m" using less.prems n Cons by simp
      ultimately have "duration_groups m d' s' = duration_groups (length s') d' s'"
        using less.IH [of m s' d'] n by simp
      moreover have "duration_groups (length t) d' s' = duration_groups (length s') d' s'"
        using less.IH [of "length t" s' d'] len less.prems n Cons by simp
      ultimately show ?thesis by simp
    qed
    with Cons n show ?thesis by (auto split: option.splits prod.splits)
  qed
qed

lemma digit_of_nonneg: "digit_byte c \<Longrightarrow> 0 \<le> digit_of c"
  by (simp add: digit_byte_def digit_of_def)

lemma leadingInt_nonneg: "0 \<le> x \<Longrightarrow> leadingInt x s = Some (v, r) \<Longrightarrow> 0 \<le> v"
proof (induction x s rule: leadingInt.induct)
  case (2 x c s)
  then show ?case using digit_of_nonneg [of c]
    by (cases "digit_byte c") (auto simp: Let_def split: if_splits)
qed simp

lemma duration_groups_upper:
  "d \<le> 2 ^ 63 \<Longrightarrow> duration_groups n d s = Some r \<Longrightarrow> r \<le> 2 ^ 63"
proof (induction n arbitrary: d s)
  case 0
  then show ?case by (auto split: if_splits)
next
  case (Suc n)
  show ?case
  proof (cases "s = []")
    case True
    with Suc.prems show ?thesis by simp
  next
    case False
    with Suc.prems(2) obtain v s' where "\<not> d + v > 2 ^ 63" "duration_groups n (d + v) s' = Some r"
      by (auto split: if_splits option.splits prod.splits)
    then show ?thesis using Suc.IH [of "d + v" s'] by simp
  qed
qed

subsection \<open>The clock\<close>

text \<open>
  A \<^verbatim>\<open>time.Time\<close> is a count of nanoseconds since the zero time. \<^verbatim>\<open>Sub\<close> and
  \<^verbatim>\<open>Since\<close> saturate at the ends of the int64 range: the age of the zero time is
  the greatest duration, about 292 years.
\<close>

definition zero_time :: int where
  "zero_time = 0"

definition time_sub :: "int \<Rightarrow> int \<Rightarrow> int" where
  "time_sub t u = max min_int64 (min max_int64 (t - u))"

lemma time_sub_range: "min_int64 \<le> time_sub t u \<and> time_sub t u \<le> max_int64"
  by (simp add: time_sub_def min_int64_def max_int64_def)

lemma time_sub_le_iff: "d < max_int64 \<Longrightarrow> min_int64 \<le> d \<Longrightarrow> time_sub t u \<le> d \<longleftrightarrow> t - u \<le> d"
  by (auto simp: time_sub_def min_int64_def max_int64_def)

lemma time_sub_self [simp]: "time_sub t t = 0"
  by (simp add: time_sub_def min_int64_def max_int64_def)

subsection \<open>Printing numbers and durations\<close>

text \<open>\<^verbatim>\<open>strconv.Itoa\<close> for numbers that are not negative.\<close>

definition digit_char :: "int \<Rightarrow> char" where
  "digit_char n = char_of (48 + n)"

function Itoa :: "int \<Rightarrow> string" where
  "Itoa n = (if n < 10 then [digit_char n] else Itoa (n div 10) @ [digit_char (n mod 10)])"
  by pat_completeness auto
termination by (relation "measure nat") auto

declare Itoa.simps [simp del]

text \<open>
  \<^verbatim>\<open>fmtFrac\<close>: the last \<open>prec\<close> digits as a fraction without trailing zeros, nothing if
  they are all zero. \<open>tail_zero\<close> says that every digit printed so far was one.
\<close>

primrec frac_text :: "nat \<Rightarrow> int \<Rightarrow> bool \<Rightarrow> string \<Rightarrow> string" where
  "frac_text 0 v tail_zero acc = (if tail_zero then [] else CHR ''.'' # acc)"
| "frac_text (Suc prec) v tail_zero acc =
     (if tail_zero \<and> v mod 10 = 0 then frac_text prec (v div 10) True []
      else frac_text prec (v div 10) False (digit_char (v mod 10) # acc))"

text \<open>\<^verbatim>\<open>Duration.String\<close>; \<open>bytes [0xC2, 0xB5]\<close> is the micro sign.\<close>

definition small_duration_text :: "int \<Rightarrow> string" where
  "small_duration_text u =
     (if u = 0 then ''0s''
      else if u < 1000 then Itoa u @ ''ns''
      else if u < 1000000 then Itoa (u div 1000) @ frac_text 3 u True [] @ bytes [0xC2, 0xB5] @ ''s''
      else Itoa (u div 1000000) @ frac_text 6 u True [] @ ''ms'')"

definition large_duration_text :: "int \<Rightarrow> string" where
  "large_duration_text u =
     (let s = u div 1000000000;
          secs = Itoa (s mod 60) @ frac_text 9 u True [] @ ''s'';
          m = s div 60
      in if m = 0 then secs
         else (let mins = Itoa (m mod 60) @ ''m'' @ secs; h = m div 60
               in if h = 0 then mins else Itoa h @ ''h'' @ mins))"

definition duration_text :: "int \<Rightarrow> string" where
  "duration_text d =
     (let u = \<bar>d\<bar>;
          t = (if u < 1000000000 then small_duration_text u else large_duration_text u)
      in if d < 0 then CHR ''-'' # t else t)"

end
