(* ===== verification/StructFields.thy ===== *)
theory StructFields
  imports DeviceModel
begin

section \<open>Structs as reflection sees them\<close>

text \<open>
  \<^verbatim>\<open>json.Decoder\<close> and the loop over the environment variables walk over the fields of a struct
  by reflection. A struct is the table of its fields here: Go name, JSON name and kind, and
  the walks are recursions over that table. Unlike \<open>dec_struct\<close>, which gives up at the first
  wrong value, these decoders return what \<^verbatim>\<open>Decode\<close> leaves in the struct when it reports an
  error.
\<close>

subsection \<open>Kinds of fields\<close>

text \<open>
  The kinds of fields the configuration code distinguishes, each with how it is read and
  written. No field of the modelled structs is an \<^verbatim>\<open>int64\<close> or a slice, but the code handles them.
\<close>

datatype 'c field_kind =
    KBool "'c \<Rightarrow> bool" "bool \<Rightarrow> 'c \<Rightarrow> 'c"
  | KString "'c \<Rightarrow> string" "string \<Rightarrow> 'c \<Rightarrow> 'c"
  | KInt "'c \<Rightarrow> int" "int \<Rightarrow> 'c \<Rightarrow> 'c"
  | KInt64 "'c \<Rightarrow> int" "int \<Rightarrow> 'c \<Rightarrow> 'c"
  | KFloat64 "'c \<Rightarrow> float64" "float64 \<Rightarrow> 'c \<Rightarrow> 'c"
  | KSlice "'c \<Rightarrow> string list" "string list \<Rightarrow> 'c \<Rightarrow> 'c"
  | KMap "'c \<Rightarrow> (string, string) gomap" "(string, string) gomap \<Rightarrow> 'c \<Rightarrow> 'c"

subsection \<open>Decoding\<close>

text \<open>
  \<^verbatim>\<open>Decode\<close> goes on after a member of the wrong type and reports the error at the end; the
  second component says that there was none. A \<^verbatim>\<open>map[string]string\<close> gets the key of a wrong
  value too, with the empty string.
\<close>

definition decoded :: "('a \<Rightarrow> 'c \<Rightarrow> 'c) \<Rightarrow> 'a option \<Rightarrow> 'c \<Rightarrow> 'c \<times> bool" where
  "decoded upd x c = (case x of Some y \<Rightarrow> (upd y c, True) | None \<Rightarrow> (c, False))"

fun string_members :: "(string \<times> json) list \<Rightarrow> (string, string) gomap \<Rightarrow> (string, string) gomap \<times> bool" where
  "string_members [] m = (m, True)"
| "string_members ((k, v) # ms) m =
     (case dec_string v [] of
        Some s \<Rightarrow> string_members ms (mput k s m)
      | None \<Rightarrow> (fst (string_members ms (mput k [] m)), False))"

fun decode_field :: "'c field_kind \<Rightarrow> json \<Rightarrow> 'c \<Rightarrow> 'c \<times> bool" where
  "decode_field (KBool get upd) v c = decoded upd (dec_bool v (get c)) c"
| "decode_field (KString get upd) v c = decoded upd (dec_string v (get c)) c"
| "decode_field (KInt get upd) v c = decoded upd (dec_int v (get c)) c"
| "decode_field (KInt64 get upd) v c = decoded upd (dec_int v (get c)) c"
| "decode_field (KFloat64 get upd) v c = decoded upd (dec_float v (get c)) c"
| "decode_field (KSlice get upd) v c = decoded upd (dec_slice (\<lambda>j. dec_string j []) v) c"
| "decode_field (KMap get upd) v c =
     (case v of
        JNull \<Rightarrow> (upd [] c, True)
      | JObj ms \<Rightarrow> (case string_members ms (get c) of (m, ok) \<Rightarrow> (upd m c, ok))
      | _ \<Rightarrow> (c, False))"

definition field_of :: "(string \<times> string \<times> 'c field_kind) list \<Rightarrow> string \<Rightarrow> 'c field_kind option" where
  "field_of tab k = map_option (\<lambda>f. snd (snd f)) (find (\<lambda>f. EqualFold (fst (snd f)) k) tab)"

primrec decode_members ::
    "(string \<times> string \<times> 'c field_kind) list \<Rightarrow> (string \<times> json) list \<Rightarrow> 'c \<Rightarrow> 'c \<times> bool" where
  "decode_members tab [] c = (c, True)"
| "decode_members tab (m # ms) c =
     (case (case field_of tab (fst m) of None \<Rightarrow> (c, True) | Some f \<Rightarrow> decode_field f (snd m) c) of
        (c1, ok) \<Rightarrow> (case decode_members tab ms c1 of (c2, ok') \<Rightarrow> (c2, ok \<and> ok')))"

definition decode_struct ::
    "(string \<times> string \<times> 'c field_kind) list \<Rightarrow> string \<Rightarrow> 'c \<Rightarrow> 'c \<times> bool" where
  "decode_struct tab body c =
     (case json_decode body of
        Some (JObj ms) \<Rightarrow> decode_members tab ms c
      | Some JNull \<Rightarrow> (c, True)
      | _ \<Rightarrow> (c, False))"

end
