(* ===== verification/Config.thy ===== *)
theory Config
  imports GoTime StructFields
begin

section \<open>The configuration (\<^verbatim>\<open>pkg/configuration/config.go\<close>)\<close>

text \<open>
  \<^verbatim>\<open>Config\<close> with all its exported fields, how \<^verbatim>\<open>Load\<close> fills it from a JSON file, and how the
  environment variables overwrite it. Both walk over the fields by reflection: the table
  \<open>config_fields\<close> lists the fields with what reflection sees of them, and the two loops are
  recursions over it. The unexported logger is an argument of \<open>GetLogger\<close>.
\<close>

record config =
  Debug :: bool
  ConnectorId :: string
  DeviceIdPrefix :: string
  MgwMqttBroker :: string
  MgwMqttClientId :: string
  MgwMqttUser :: string
  MgwMqttPw :: string
  ZigbeeMqttBroker :: string
  ZigbeeMqttClientId :: string
  ZigbeeMqttUser :: string
  ZigbeeMqttPw :: string
  ZigbeeQos :: int
  ZigbeeMqttTopicPrefix :: string
  EventRefreshInterval :: string
  AuthEndpoint :: string
  AuthClientId :: string
  AuthExpirationTimeBuffer :: float64
  AuthUsername :: string
  AuthPassword :: string
  DeviceRepositoryUrl :: string
  MinCacheDuration :: string
  MaxCacheDuration :: string
  CreateMissingDeviceTypes :: bool
  CreateMissingDeviceTypesWithDeviceClass :: string
  CreateMissingDeviceTypesWithProtocol :: string
  CreateMissingDeviceTypesWithProtocolSegment :: string
  ModelAliases :: "(string, string) gomap"
  LastMessageMaxAge :: string
  CommandAckTimeout :: string
  LogLevel :: string

definition AuthEnabled :: "config \<Rightarrow> bool" where
  "AuthEnabled cfg \<longleftrightarrow> AuthEndpoint cfg \<noteq> [] \<and> AuthEndpoint cfg \<noteq> ''-''"

text \<open>The conversion \<^verbatim>\<open>byte(config.ZigbeeQos)\<close>.\<close>

definition zigbee_qos :: "config \<Rightarrow> nat" where
  "zigbee_qos cfg = nat (ZigbeeQos cfg mod 256)"

definition zero_config :: config where
  "zero_config = \<lparr>Debug = False, ConnectorId = [], DeviceIdPrefix = [], MgwMqttBroker = [],
     MgwMqttClientId = [], MgwMqttUser = [], MgwMqttPw = [], ZigbeeMqttBroker = [],
     ZigbeeMqttClientId = [], ZigbeeMqttUser = [], ZigbeeMqttPw = [], ZigbeeQos = 0,
     ZigbeeMqttTopicPrefix = [], EventRefreshInterval = [], AuthEndpoint = [], AuthClientId = [],
     AuthExpirationTimeBuffer = zero_float, AuthUsername = [], AuthPassword = [],
     DeviceRepositoryUrl = [], MinCacheDuration = [], MaxCacheDuration = [],
     CreateMissingDeviceTypes = False, CreateMissingDeviceTypesWithDeviceClass = [],
     CreateMissingDeviceTypesWithProtocol = [], CreateMissingDeviceTypesWithProtocolSegment = [],
     ModelAliases = [], LastMessageMaxAge = [], CommandAckTimeout = [], LogLevel = []\<rparr>"

subsection \<open>The fields\<close>

text \<open>In the order of the struct; the tags of the struct are the JSON names.\<close>

definition config_fields :: "(string \<times> string \<times> config field_kind) list" where
  "config_fields =
    [(''Debug'', ''debug'', KBool Debug (\<lambda>x c. c\<lparr>Debug := x\<rparr>)),
     (''ConnectorId'', ''connector_id'', KString ConnectorId (\<lambda>x c. c\<lparr>ConnectorId := x\<rparr>)),
     (''DeviceIdPrefix'', ''device_id_prefix'', KString DeviceIdPrefix (\<lambda>x c. c\<lparr>DeviceIdPrefix := x\<rparr>)),
     (''MgwMqttBroker'', ''mgw_mqtt_broker'', KString MgwMqttBroker (\<lambda>x c. c\<lparr>MgwMqttBroker := x\<rparr>)),
     (''MgwMqttClientId'', ''mgw_mqtt_client_id'', KString MgwMqttClientId (\<lambda>x c. c\<lparr>MgwMqttClientId := x\<rparr>)),
     (''MgwMqttUser'', ''mgw_mqtt_user'', KString MgwMqttUser (\<lambda>x c. c\<lparr>MgwMqttUser := x\<rparr>)),
     (''MgwMqttPw'', ''mgw_mqtt_pw'', KString MgwMqttPw (\<lambda>x c. c\<lparr>MgwMqttPw := x\<rparr>)),
     (''ZigbeeMqttBroker'', ''zigbee_mqtt_broker'', KString ZigbeeMqttBroker (\<lambda>x c. c\<lparr>ZigbeeMqttBroker := x\<rparr>)),
     (''ZigbeeMqttClientId'', ''zigbee_mqtt_client_id'',
        KString ZigbeeMqttClientId (\<lambda>x c. c\<lparr>ZigbeeMqttClientId := x\<rparr>)),
     (''ZigbeeMqttUser'', ''zigbee_mqtt_user'', KString ZigbeeMqttUser (\<lambda>x c. c\<lparr>ZigbeeMqttUser := x\<rparr>)),
     (''ZigbeeMqttPw'', ''zigbee_mqtt_pw'', KString ZigbeeMqttPw (\<lambda>x c. c\<lparr>ZigbeeMqttPw := x\<rparr>)),
     (''ZigbeeQos'', ''zigbee_qos'', KInt ZigbeeQos (\<lambda>x c. c\<lparr>ZigbeeQos := x\<rparr>)),
     (''ZigbeeMqttTopicPrefix'', ''zigbee_mqtt_topic_prefix'',
        KString ZigbeeMqttTopicPrefix (\<lambda>x c. c\<lparr>ZigbeeMqttTopicPrefix := x\<rparr>)),
     (''EventRefreshInterval'', ''event_refresh_interval'',
        KString EventRefreshInterval (\<lambda>x c. c\<lparr>EventRefreshInterval := x\<rparr>)),
     (''AuthEndpoint'', ''auth_endpoint'', KString AuthEndpoint (\<lambda>x c. c\<lparr>AuthEndpoint := x\<rparr>)),
     (''AuthClientId'', ''auth_client_id'', KString AuthClientId (\<lambda>x c. c\<lparr>AuthClientId := x\<rparr>)),
     (''AuthExpirationTimeBuffer'', ''auth_expiration_time_buffer'',
        KFloat64 AuthExpirationTimeBuffer (\<lambda>x c. c\<lparr>AuthExpirationTimeBuffer := x\<rparr>)),
     (''AuthUsername'', ''auth_username'', KString AuthUsername (\<lambda>x c. c\<lparr>AuthUsername := x\<rparr>)),
     (''AuthPassword'', ''auth_password'', KString AuthPassword (\<lambda>x c. c\<lparr>AuthPassword := x\<rparr>)),
     (''DeviceRepositoryUrl'', ''device_repository_url'',
        KString DeviceRepositoryUrl (\<lambda>x c. c\<lparr>DeviceRepositoryUrl := x\<rparr>)),
     (''MinCacheDuration'', ''min_cache_duration'', KString MinCacheDuration (\<lambda>x c. c\<lparr>MinCacheDuration := x\<rparr>)),
     (''MaxCacheDuration'', ''max_cache_duration'', KString MaxCacheDuration (\<lambda>x c. c\<lparr>MaxCacheDuration := x\<rparr>)),
     (''CreateMissingDeviceTypes'', ''create_missing_device_types'',
        KBool CreateMissingDeviceTypes (\<lambda>x c. c\<lparr>CreateMissingDeviceTypes := x\<rparr>)),
     (''CreateMissingDeviceTypesWithDeviceClass'', ''create_missing_device_types_with_device_class'',
        KString CreateMissingDeviceTypesWithDeviceClass (\<lambda>x c. c\<lparr>CreateMissingDeviceTypesWithDeviceClass := x\<rparr>)),
     (''CreateMissingDeviceTypesWithProtocol'', ''create_missing_device_types_with_protocol'',
        KString CreateMissingDeviceTypesWithProtocol (\<lambda>x c. c\<lparr>CreateMissingDeviceTypesWithProtocol := x\<rparr>)),
     (''CreateMissingDeviceTypesWithProtocolSegment'', ''create_missing_device_types_with_protocol_segment'',
        KString CreateMissingDeviceTypesWithProtocolSegment
          (\<lambda>x c. c\<lparr>CreateMissingDeviceTypesWithProtocolSegment := x\<rparr>)),
     (''ModelAliases'', ''ModelAliases'', KMap ModelAliases (\<lambda>x c. c\<lparr>ModelAliases := x\<rparr>)),
     (''LastMessageMaxAge'', ''last_message_max_age'',
        KString LastMessageMaxAge (\<lambda>x c. c\<lparr>LastMessageMaxAge := x\<rparr>)),
     (''CommandAckTimeout'', ''command_ack_timeout'',
        KString CommandAckTimeout (\<lambda>x c. c\<lparr>CommandAckTimeout := x\<rparr>)),
     (''LogLevel'', ''log_level'', KString LogLevel (\<lambda>x c. c\<lparr>LogLevel := x\<rparr>))]"

text \<open>The values of \<^verbatim>\<open>config.json\<close>.\<close>

definition default_config :: config where
  "default_config = zero_config\<lparr>ConnectorId := ''mgw-zigbee-dc'', DeviceIdPrefix := ''zigbee:'',
     MgwMqttBroker := ''tcp://message-broker:1883'', MgwMqttClientId := ''mgw-zigbee-dc_mgw'',
     ZigbeeMqttBroker := ''tcp://message-broker:1883'', ZigbeeMqttClientId := ''mgw-zigbee-dc_zigbee'',
     ZigbeeQos := 2, ZigbeeMqttTopicPrefix := ''zigbee2mqtt/'', EventRefreshInterval := ''1h'',
     AuthClientId := ''client-connector-lib'', AuthExpirationTimeBuffer := F64 1 1,
     DeviceRepositoryUrl := ''https://api.senergy.infai.org/device-repository'',
     MinCacheDuration := ''1m'', MaxCacheDuration := ''1h'', CreateMissingDeviceTypes := True,
     CreateMissingDeviceTypesWithDeviceClass := ''urn:infai:ses:device-class:ff64280a-58e6-4cf9-9a44-e70d3831a79d'',
     CreateMissingDeviceTypesWithProtocol := ''urn:infai:ses:protocol:f3a63aeb-187e-4dd9-9ef5-d97a6eb6292b'',
     CreateMissingDeviceTypesWithProtocolSegment :=
       ''urn:infai:ses:protocol-segment:0d211842-cef8-41ec-ab6b-9dbc31bc3a65'',
     CommandAckTimeout := ''30s''\<rparr>"

end
