(* ===== verification/ZigbeeClient.thy ===== *)
theory ZigbeeClient
  imports DeviceRegister MessageStructs GoMarshal Mqtt Config
begin

section \<open>The zigbee2mqtt client (\<^verbatim>\<open>pkg/zigbee2mqtt\<close>)\<close>

text \<open>
  The client keeps the device register, the last payload per device and the MQTT
  connection. Its message handlers call the connector: those calls are the list of
  \<open>upcall\<close>s an operation returns, in the order the code makes them.
  \<open>InitialRefresh\<close> is the goroutine that the first device list starts.
\<close>

record zclient =
  zregister :: register
  zvalues :: "(string, string) gomap"
  ztrace :: mqtt_trace
  zmqtt_set :: bool

datatype upcall =
    StateObserved string string
  | EventReceived device_info string
  | DeviceInfoUpdate "device_info list"
  | InitialRefresh

definition new_zclient :: zclient where
  "new_zclient = \<lparr>zregister = NewDeviceRegister, zvalues = [], ztrace = [], zmqtt_set = True\<rparr>"

subsection \<open>Device lists\<close>

text \<open>\<^verbatim>\<open>parseDeviceInfoMessage\<close>: elements that cannot be read are skipped.\<close>

primrec keep_readable :: "json list \<Rightarrow> device_info list" where
  "keep_readable [] = []"
| "keep_readable (e # raw) =
     (case dec_device e of None \<Rightarrow> keep_readable raw | Some d \<Rightarrow> d # keep_readable raw)"

definition parseDeviceInfoMessage :: "string \<Rightarrow> device_info list option" where
  "parseDeviceInfoMessage payload =
     (case json_parse payload of
        Some (JArr raw) \<Rightarrow> Some (keep_readable raw)
      | Some JNull \<Rightarrow> Some []
      | _ \<Rightarrow> None)"

definition deviceInfoHandler :: "string \<Rightarrow> zclient \<Rightarrow> upcall list \<times> zclient" where
  "deviceInfoHandler payload z =
     (case parseDeviceInfoMessage payload of
        None \<Rightarrow> ([], z)
      | Some devices \<Rightarrow>
          (let (doInitialEventRefresh, r) = reg_Set devices (zregister z) in
           (DeviceInfoUpdate devices # (if doInitialEventRefresh then [InitialRefresh] else []),
            z\<lparr>zregister := r\<rparr>)))"

subsection \<open>States of devices\<close>

definition getDeviceInfoTopic :: "config \<Rightarrow> string" where
  "getDeviceInfoTopic cfg = ZigbeeMqttTopicPrefix cfg @ ''bridge/devices''"

definition getEventTopic :: "config \<Rightarrow> string" where
  "getEventTopic cfg = ZigbeeMqttTopicPrefix cfg @ ''#''"

definition eventHandler :: "config \<Rightarrow> ctx_end \<Rightarrow> mqtt_msg \<Rightarrow> zclient \<Rightarrow> upcall list \<times> zclient" where
  "eventHandler cfg ctx message z =
     (let topic = msg_topic message in
      if HasPrefix topic (ZigbeeMqttTopicPrefix cfg @ ''bridge/'') then ([], z)
      else
        (let deviceName = TrimPrefix topic (ZigbeeMqttTopicPrefix cfg) in
         case reg_GetByFriendlyName ctx (zregister z) deviceName of
           Inl _ \<Rightarrow> ([], z)
         | Inr device \<Rightarrow>
             ((if msg_retained message then [] else [StateObserved (IeeeAddress device) (msg_payload message)])
                @ [EventReceived device (msg_payload message)],
              z\<lparr>zvalues := mput (IeeeAddress device) (msg_payload message) (zvalues z)\<rparr>)))"

text \<open>The store of the handler by itself, and what it is for the handler.\<close>

definition z_store :: "device_info \<Rightarrow> string \<Rightarrow> zclient \<Rightarrow> zclient" where
  "z_store device pl z = z\<lparr>zvalues := mput (IeeeAddress device) pl (zvalues z)\<rparr>"

lemma eventHandler_stores:
  "eventHandler cfg ctx message z = (ups, z') \<Longrightarrow>
     (ups = [] \<and> z' = z) \<or> (\<exists>d. z' = z_store d (msg_payload message) z
       \<and> ups = (if msg_retained message then [] else [StateObserved (IeeeAddress d) (msg_payload message)])
            @ [EventReceived d (msg_payload message)])"
  by (auto simp: eventHandler_def z_store_def Let_def split: if_splits sum.splits)

subsection \<open>Commands\<close>

definition z_send :: "broker \<Rightarrow> string \<Rightarrow> nat \<Rightarrow> bool \<Rightarrow> string \<Rightarrow> zclient \<Rightarrow> goerr option \<times> zclient" where
  "z_send b topic q ret pl z =
     (if \<not> zmqtt_set z then (Some ErrNotReady, z)
      else case ask b (Publish \<lparr>msg_topic = topic, msg_qos = q, msg_retained = ret, msg_payload = pl\<rparr>) (ztrace z) of
        (err, tr) \<Rightarrow> (map_option Other err, z\<lparr>ztrace := tr\<rparr>))"

definition z_SetByIeee ::
    "config \<Rightarrow> broker \<Rightarrow> ctx_end \<Rightarrow> string \<Rightarrow> string \<Rightarrow> zclient \<Rightarrow> goerr option \<times> zclient" where
  "z_SetByIeee cfg b ctx ieee pl z =
     (case reg_GetByIeee ctx (zregister z) ieee of
        Inl e \<Rightarrow> (Some e, z)
      | Inr device \<Rightarrow>
          z_send b (ZigbeeMqttTopicPrefix cfg @ FriendlyName device @ ''/set'') (zigbee_qos cfg) False pl z)"

definition z_SetByFriendlyName ::
    "config \<Rightarrow> broker \<Rightarrow> ctx_end \<Rightarrow> string \<Rightarrow> string \<Rightarrow> zclient \<Rightarrow> goerr option \<times> zclient" where
  "z_SetByFriendlyName cfg b ctx name pl z =
     (case reg_GetByFriendlyName ctx (zregister z) name of
        Inl e \<Rightarrow> (Some e, z)
      | Inr device \<Rightarrow>
          z_send b (ZigbeeMqttTopicPrefix cfg @ FriendlyName device @ ''/set'') (zigbee_qos cfg) False pl z)"

definition z_Get :: "device_info \<Rightarrow> zclient \<Rightarrow> goerr + string" where
  "z_Get device z =
     (case map_of (zvalues z) (IeeeAddress device) of Some v \<Rightarrow> Inr v | None \<Rightarrow> Inl ErrNoValueFound)"

definition z_GetByIeee :: "ctx_end \<Rightarrow> string \<Rightarrow> zclient \<Rightarrow> goerr + string" where
  "z_GetByIeee ctx ieee z =
     (case reg_GetByIeee ctx (zregister z) ieee of Inl e \<Rightarrow> Inl e | Inr device \<Rightarrow> z_Get device z)"

definition z_GetByFriendlyName :: "ctx_end \<Rightarrow> string \<Rightarrow> zclient \<Rightarrow> goerr + string" where
  "z_GetByFriendlyName ctx name z =
     (case reg_GetByFriendlyName ctx (zregister z) name of Inl e \<Rightarrow> Inl e | Inr device \<Rightarrow> z_Get device z)"

definition z_GetDeviceList :: "ctx_end \<Rightarrow> zclient \<Rightarrow> goerr + device_info list" where
  "z_GetDeviceList ctx z = reg_List ctx (zregister z)"

subsection \<open>Requesting values\<close>

text \<open>The values of the get message are all nil, which JSON writes as null.\<close>

definition enc_get_message :: "device_info \<Rightarrow> string" where
  "enc_get_message device = enc_map (map (\<lambda>(k, v). (k, enc_null)) (getZigbeeGetMessage device))"

definition z_RefreshDeviceEventValues ::
    "config \<Rightarrow> broker \<Rightarrow> device_info \<Rightarrow> zclient \<Rightarrow> goerr option \<times> zclient" where
  "z_RefreshDeviceEventValues cfg b device z =
     z_send b (ZigbeeMqttTopicPrefix cfg @ FriendlyName device @ ''/get'') 2 False (enc_get_message device) z"

primrec refresh_loop :: "config \<Rightarrow> broker \<Rightarrow> device_info list \<Rightarrow> zclient \<Rightarrow> goerr option \<times> zclient" where
  "refresh_loop cfg b [] z = (None, z)"
| "refresh_loop cfg b (device # ds) z =
     (if \<not> Disabled device \<and> Supported device \<and> InterviewCompleted device then
        (case z_RefreshDeviceEventValues cfg b device z of
           (Some e, z') \<Rightarrow> (Some e, z')
         | (None, z') \<Rightarrow> refresh_loop cfg b ds z')
      else refresh_loop cfg b ds z)"

definition z_RefreshEventValues ::
    "config \<Rightarrow> broker \<Rightarrow> ctx_end \<Rightarrow> zclient \<Rightarrow> goerr option \<times> zclient" where
  "z_RefreshEventValues cfg b ctx z =
     (case reg_List ctx (zregister z) of Inl e \<Rightarrow> (Some e, z) | Inr devices \<Rightarrow> refresh_loop cfg b devices z)"

text \<open>One round of its loop, for a goroutine among others: the devices that are left, and the client.\<close>

definition refresh_one ::
    "config \<Rightarrow> broker \<Rightarrow> device_info \<Rightarrow> device_info list \<Rightarrow> zclient \<Rightarrow> device_info list \<times> zclient" where
  "refresh_one cfg b device ds z =
     (if \<not> Disabled device \<and> Supported device \<and> InterviewCompleted device then
        (case z_RefreshDeviceEventValues cfg b device z of
           (Some e, z') \<Rightarrow> ([], z')
         | (None, z') \<Rightarrow> (ds, z'))
      else (ds, z))"

lemma refresh_one_rest:
  "refresh_one cfg b device ds z = (ds', z') \<Longrightarrow>
     snd (refresh_loop cfg b ds' z') = snd (refresh_loop cfg b (device # ds) z)"
  by (auto simp: refresh_one_def split: if_splits prod.splits option.splits)

subsection \<open>Connecting\<close>

text \<open>
  \<^verbatim>\<open>startListener\<close> runs whenever the connection is up; its error ends the process, which is
  \<open>None\<close> in \<open>z_on_connect\<close>.
\<close>

definition z_subscribe :: "broker \<Rightarrow> string \<Rightarrow> nat \<Rightarrow> zclient \<Rightarrow> goerr option \<times> zclient" where
  "z_subscribe b topic q z =
     (case ask b (Subscribe topic q) (ztrace z) of (err, tr) \<Rightarrow> (map_option Other err, z\<lparr>ztrace := tr\<rparr>))"

definition startDeviceInfoListener :: "config \<Rightarrow> broker \<Rightarrow> zclient \<Rightarrow> goerr option \<times> zclient" where
  "startDeviceInfoListener cfg b z = z_subscribe b (getDeviceInfoTopic cfg) (zigbee_qos cfg) z"

definition startEventListener :: "config \<Rightarrow> broker \<Rightarrow> zclient \<Rightarrow> goerr option \<times> zclient" where
  "startEventListener cfg b z = z_subscribe b (getEventTopic cfg) (zigbee_qos cfg) z"

definition startListener :: "config \<Rightarrow> broker \<Rightarrow> zclient \<Rightarrow> goerr option \<times> zclient" where
  "startListener cfg b z =
     (case startDeviceInfoListener cfg b z of
        (Some err, z1) \<Rightarrow> (Some err, z1)
      | (None, z1) \<Rightarrow> startEventListener cfg b z1)"

definition z_on_connect :: "config \<Rightarrow> broker \<Rightarrow> zclient \<Rightarrow> zclient option" where
  "z_on_connect cfg b z =
     (case startListener cfg b z of (Some err, z1) \<Rightarrow> None | (None, z1) \<Rightarrow> Some z1)"

text \<open>
  The refresh ticker: \<open>Started\<close> with its period, if there is one. \<^verbatim>\<open>time.NewTicker\<close> panics for
  a period that is not positive.
\<close>

datatype 'a start = Started 'a | StartError | StartPanic

definition startEventRefreshLoop :: "config \<Rightarrow> int option start" where
  "startEventRefreshLoop cfg =
     (if EventRefreshInterval cfg \<noteq> [] \<and> EventRefreshInterval cfg \<noteq> ''-'' then
        (case ParseDuration (EventRefreshInterval cfg) of
           None \<Rightarrow> StartError
         | Some dur \<Rightarrow> if dur \<le> 0 then StartPanic else Started (Some dur))
      else Started None)"

text \<open>\<^verbatim>\<open>New\<close>: the client, connected, with the period of its ticker.\<close>

definition z_New :: "config \<Rightarrow> broker \<Rightarrow> (zclient \<times> int option) start" where
  "z_New cfg b =
     (case ask b (Connect None) (ztrace new_zclient) of
        (Some err, tr) \<Rightarrow> StartError
      | (None, tr) \<Rightarrow>
          (case startEventRefreshLoop cfg of
             Started period \<Rightarrow> Started (new_zclient\<lparr>ztrace := tr\<rparr>, period)
           | StartError \<Rightarrow> StartError
           | StartPanic \<Rightarrow> StartPanic))"

subsection \<open>Well-formedness\<close>

definition zclient_wf :: "zclient \<Rightarrow> bool" where
  "zclient_wf z \<longleftrightarrow> reg_wf (zregister z) \<and> mwf (zvalues z)"

lemma zclient_wf_new: "zclient_wf new_zclient"
  by (simp add: zclient_wf_def new_zclient_def reg_wf_new)

lemma zclient_wf_deviceInfoHandler: "zclient_wf z \<Longrightarrow> zclient_wf (snd (deviceInfoHandler p z))"
  using reg_wf_Set [of _ "zregister z"]
  by (auto simp: zclient_wf_def deviceInfoHandler_def split: option.splits prod.splits) (metis snd_conv)

lemma zclient_wf_eventHandler: "zclient_wf z \<Longrightarrow> zclient_wf (snd (eventHandler cfg ctx m z))"
  by (auto simp: zclient_wf_def eventHandler_def Let_def split: sum.splits)

lemma z_send_frame [frame_simps]:
  "zregister (snd (z_send b t q r pl z)) = zregister z"
  "zvalues (snd (z_send b t q r pl z)) = zvalues z"
  by (simp_all add: z_send_def ask_def)

lemma z_ops_frame [frame_simps]:
  "zregister (snd (z_SetByIeee cfg b ctx i pl z)) = zregister z"
  "zvalues (snd (z_SetByIeee cfg b ctx i pl z)) = zvalues z"
  "zregister (snd (z_RefreshDeviceEventValues cfg b d z)) = zregister z"
  "zvalues (snd (z_RefreshDeviceEventValues cfg b d z)) = zvalues z"
  by (simp_all add: z_SetByIeee_def z_RefreshDeviceEventValues_def frame_simps split: sum.splits)

lemma refresh_one_frame [frame_simps]:
  "zregister (snd (refresh_one cfg b d ds z)) = zregister z"
  "zvalues (snd (refresh_one cfg b d ds z)) = zvalues z"
  using z_ops_frame(3,4) [of cfg b d z]
  by (auto simp: refresh_one_def split: prod.split option.split)

text \<open>A successful send is one accepted message, a failed one none.\<close>

lemma z_send_accepted:
  "accepted (ztrace (snd (z_send b t q r pl z))) =
     accepted (ztrace z) @ (if fst (z_send b t q r pl z) = None
       then [\<lparr>msg_topic = t, msg_qos = q, msg_retained = r, msg_payload = pl\<rparr>] else [])"
  by (auto simp: z_send_def ask_def)

end
