(* ===== verification/MgwClient.thy ===== *)
theory MgwClient
  imports GoMarshal DeviceModel Mqtt
begin

section \<open>The gateway client (\<^verbatim>\<open>pkg/mgw\<close>)\<close>

text \<open>
  Topics, payloads and error paths of the client of the gateway's message bus: device
  updates, events, responses, errors, and the subscription to commands. A handler of a
  subscription is named by its kind. The client state is the MQTT trace and the map of
  registered subscriptions; \<open>connectorId\<close> is an argument.
\<close>

datatype mgw_state = Online | Offline | NoState

record mgw_attribute =
  AttrKey :: string
  AttrValue :: string

record device_update =
  InfoName :: string
  State :: mgw_state
  DeviceType :: string
  InfoAttributes :: "mgw_attribute list"

record command =
  CommandId :: string
  Data :: string

datatype handler = CommandsHandler | DeviceCommandsHandler string | RefreshHandler

record mgw_client =
  mtrace :: mqtt_trace
  subscriptions :: "(string, handler) gomap"
  refresh_notifier :: bool

text \<open>\<open>refresh_notifier\<close> says that \<^verbatim>\<open>deviceManagerRefreshNotifier\<close> is not nil.\<close>

definition new_mgw_client :: mgw_client where
  "new_mgw_client = \<lparr>mtrace = [], subscriptions = [], refresh_notifier = True\<rparr>"

subsection \<open>Encoding\<close>

fun state_text :: "mgw_state \<Rightarrow> string" where
  "state_text Online = ''online''"
| "state_text Offline = ''offline''"
| "state_text NoState = []"

definition enc_command :: "command \<Rightarrow> string" where
  "enc_command c = enc_object
     [(''command_id'', enc_string (CommandId c)), (''data'', enc_string (Data c))]"

definition enc_attribute :: "mgw_attribute \<Rightarrow> string" where
  "enc_attribute a = enc_object
     [(''key'', enc_string (AttrKey a)), (''value'', enc_string (AttrValue a))]"

text \<open>\<^verbatim>\<open>attributes\<close> is omitted when it is empty.\<close>

definition enc_info :: "device_update \<Rightarrow> string" where
  "enc_info i = enc_object
     ([(''name'', enc_string (InfoName i)), (''state'', enc_string (state_text (State i))),
       (''device_type'', enc_string (DeviceType i))]
      @ (if InfoAttributes i = [] then []
         else [(''attributes'', enc_array (map enc_attribute (InfoAttributes i)))]))"

definition enc_update :: "string \<Rightarrow> string \<Rightarrow> device_update \<Rightarrow> string" where
  "enc_update meth deviceId i = enc_object
     [(''method'', enc_string meth), (''device_id'', enc_string deviceId), (''data'', enc_info i)]"

definition command_field :: "string \<Rightarrow> json \<Rightarrow> command \<Rightarrow> command option" where
  "command_field k v c =
     (if k = ''command_id'' then map_option (\<lambda>x. c\<lparr>CommandId := x\<rparr>) (dec_string v (CommandId c))
      else if k = ''data'' then map_option (\<lambda>x. c\<lparr>Data := x\<rparr>) (dec_string v (Data c))
      else Some c)"

definition unmarshal_command :: "string \<Rightarrow> command option" where
  "unmarshal_command s =
     Option.bind (json_parse s) (\<lambda>v. dec_struct command_field v \<lparr>CommandId = [], Data = []\<rparr>)"

subsection \<open>Publishing\<close>

definition not_connected :: goerr where
  "not_connected = Other ''mqtt client not connected''"

text \<open>Every publish of the package: refuse when not connected, then QoS 2, not retained.\<close>

definition mgw_publish :: "broker \<Rightarrow> string \<Rightarrow> string \<Rightarrow> mgw_client \<Rightarrow> goerr option \<times> mgw_client" where
  "mgw_publish b topic pl m =
     (case ask b IsConnected (mtrace m) of
        (Some _, tr) \<Rightarrow> (Some not_connected, m\<lparr>mtrace := tr\<rparr>)
      | (None, tr) \<Rightarrow>
          (case ask b (Publish \<lparr>msg_topic = topic, msg_qos = 2, msg_retained = False, msg_payload = pl\<rparr>) tr of
             (err, tr') \<Rightarrow> (map_option Other err, m\<lparr>mtrace := tr'\<rparr>)))"

definition DeviceManagerTopic :: string where
  "DeviceManagerTopic = ''device-manager/device''"

definition SendDeviceUpdate ::
    "broker \<Rightarrow> string \<Rightarrow> string \<Rightarrow> string \<Rightarrow> device_update \<Rightarrow> mgw_client \<Rightarrow> goerr option \<times> mgw_client" where
  "SendDeviceUpdate b connectorId meth deviceId info m =
     mgw_publish b (DeviceManagerTopic @ ''/'' @ connectorId) (enc_update meth deviceId info) m"

definition SetDevice ::
    "broker \<Rightarrow> string \<Rightarrow> string \<Rightarrow> device_update \<Rightarrow> mgw_client \<Rightarrow> goerr option \<times> mgw_client" where
  "SetDevice b connectorId deviceId info m = SendDeviceUpdate b connectorId ''set'' deviceId info m"

definition RemoveDevice ::
    "broker \<Rightarrow> string \<Rightarrow> string \<Rightarrow> mgw_client \<Rightarrow> goerr option \<times> mgw_client" where
  "RemoveDevice b connectorId deviceId m =
     SendDeviceUpdate b connectorId ''delete'' deviceId
       \<lparr>InfoName = [], State = NoState, DeviceType = [], InfoAttributes = []\<rparr> m"

definition SendEvent ::
    "broker \<Rightarrow> string \<Rightarrow> string \<Rightarrow> string \<Rightarrow> mgw_client \<Rightarrow> goerr option \<times> mgw_client" where
  "SendEvent b deviceId serviceId msg m =
     mgw_publish b (''event/'' @ deviceId @ ''/'' @ serviceId) msg m"

text \<open>\<open>marshal\<close> is the encoder of \<^verbatim>\<open>encoding/json\<close> at the type of the value.\<close>

definition MarshalAndSendEvent ::
    "('v \<Rightarrow> goerr + string) \<Rightarrow> broker \<Rightarrow> string \<Rightarrow> string \<Rightarrow> 'v \<Rightarrow> mgw_client \<Rightarrow> goerr option \<times> mgw_client" where
  "MarshalAndSendEvent marshal b deviceId serviceId value m =
     (case marshal value of
        Inl err \<Rightarrow> (Some err, m)
      | Inr msg \<Rightarrow> SendEvent b deviceId serviceId msg m)"

definition Respond ::
    "broker \<Rightarrow> string \<Rightarrow> string \<Rightarrow> command \<Rightarrow> mgw_client \<Rightarrow> goerr option \<times> mgw_client" where
  "Respond b deviceId serviceId response m =
     mgw_publish b (''response/'' @ deviceId @ ''/'' @ serviceId) (enc_command response) m"

text \<open>The error topics. Only \<^verbatim>\<open>SendCommandError\<close> publishes the text without the connector id.\<close>

definition SendClientError :: "broker \<Rightarrow> string \<Rightarrow> string \<Rightarrow> mgw_client \<Rightarrow> mgw_client" where
  "SendClientError b connectorId message m =
     snd (mgw_publish b ''error/client'' (connectorId @ '': '' @ message) m)"

definition SendDeviceError :: "broker \<Rightarrow> string \<Rightarrow> string \<Rightarrow> string \<Rightarrow> mgw_client \<Rightarrow> mgw_client" where
  "SendDeviceError b connectorId localDeviceId message m =
     snd (mgw_publish b (''error/device/'' @ localDeviceId) (connectorId @ '': '' @ message) m)"

definition SendCommandError :: "broker \<Rightarrow> string \<Rightarrow> string \<Rightarrow> mgw_client \<Rightarrow> mgw_client" where
  "SendCommandError b correlationId message m =
     snd (mgw_publish b (''error/command/'' @ correlationId) message m)"

subsection \<open>Receiving commands\<close>

text \<open>
  The ids a command topic names, \<^verbatim>\<open>command/<device id>/<service id>\<close>. On a topic without
  a slash the slice expression \<^verbatim>\<open>parts[1:len(parts)-1]\<close> panics: \<open>None\<close>. (The filter of
  the subscription delivers topics of three levels only.)
\<close>

definition parse_command_topic :: "string \<Rightarrow> (string \<times> string) option" where
  "parse_command_topic topic =
     (let parts = Split topic CHR ''/''
      in if length parts < 2 then None
         else Some (Join (take (length parts - 2) (drop 1 parts)) ''/'', last parts))"

text \<open>
  The handler of \<^verbatim>\<open>ListenToCommands\<close>: \<open>None\<close> is the panic, otherwise the first component
  is the call of the command handler, if there is one. \<open>jerr\<close> is the text of the
  decoding error.
\<close>

definition command_message ::
    "broker \<Rightarrow> string \<Rightarrow> (string \<Rightarrow> string) \<Rightarrow> mqtt_msg \<Rightarrow> mgw_client \<Rightarrow>
       ((string \<times> string \<times> command) option \<times> mgw_client) option" where
  "command_message b connectorId jerr message m =
     (case parse_command_topic (msg_topic message) of
        None \<Rightarrow> None
      | Some (deviceId, serviceId) \<Rightarrow>
          (case unmarshal_command (msg_payload message) of
             None \<Rightarrow> Some (None, SendClientError b connectorId
                        (''unable to unmarshal command: '' @ jerr (msg_payload message)) m)
           | Some c \<Rightarrow> Some (Some (deviceId, serviceId, c), m)))"

text \<open>The handler of \<^verbatim>\<open>ListenToDeviceCommands\<close> takes the device id of the subscription.\<close>

definition device_command_message ::
    "broker \<Rightarrow> string \<Rightarrow> (string \<Rightarrow> string) \<Rightarrow> string \<Rightarrow> mqtt_msg \<Rightarrow> mgw_client \<Rightarrow>
       (string \<times> string \<times> command) option \<times> mgw_client" where
  "device_command_message b connectorId jerr deviceId message m =
     (let serviceId = last (Split (msg_topic message) CHR ''/'') in
      case unmarshal_command (msg_payload message) of
        None \<Rightarrow> (None, SendClientError b connectorId
                   (''unable to unmarshal command: '' @ jerr (msg_payload message)) m)
      | Some c \<Rightarrow> (Some (deviceId, serviceId, c), m))"

subsection \<open>Subscriptions\<close>

definition registerSubscription :: "string \<Rightarrow> handler \<Rightarrow> mgw_client \<Rightarrow> mgw_client" where
  "registerSubscription topic h m = m\<lparr>subscriptions := mput topic h (subscriptions m)\<rparr>"

definition unregisterSubscriptions :: "string \<Rightarrow> mgw_client \<Rightarrow> mgw_client" where
  "unregisterSubscriptions topic m = m\<lparr>subscriptions := mdel topic (subscriptions m)\<rparr>"

text \<open>A connected (un)subscribe with QoS 2.\<close>

definition mgw_act :: "broker \<Rightarrow> mqtt_act \<Rightarrow> mgw_client \<Rightarrow> goerr option \<times> mgw_client" where
  "mgw_act b a m = (case ask b a (mtrace m) of (err, tr) \<Rightarrow> (map_option Other err, m\<lparr>mtrace := tr\<rparr>))"

definition mgw_connected :: "broker \<Rightarrow> mgw_client \<Rightarrow> goerr option \<times> mgw_client" where
  "mgw_connected b m =
     (case ask b IsConnected (mtrace m) of
        (Some _, tr) \<Rightarrow> (Some not_connected, m\<lparr>mtrace := tr\<rparr>)
      | (None, tr) \<Rightarrow> (None, m\<lparr>mtrace := tr\<rparr>))"

definition subscribe_checked :: "broker \<Rightarrow> string \<Rightarrow> mgw_client \<Rightarrow> goerr option \<times> mgw_client" where
  "subscribe_checked b topic m =
     (case mgw_connected b m of
        (Some e, m1) \<Rightarrow> (Some e, m1)
      | (None, m1) \<Rightarrow> mgw_act b (Subscribe topic 2) m1)"

definition ListenToCommands :: "broker \<Rightarrow> mgw_client \<Rightarrow> goerr option \<times> mgw_client" where
  "ListenToCommands b m =
     (case subscribe_checked b ''command/+/+'' m of
        (Some e, m1) \<Rightarrow> (Some e, m1)
      | (None, m1) \<Rightarrow> (None, registerSubscription ''command/+/+'' CommandsHandler m1))"

definition ListenToDeviceCommands :: "broker \<Rightarrow> string \<Rightarrow> mgw_client \<Rightarrow> goerr option \<times> mgw_client" where
  "ListenToDeviceCommands b deviceId m =
     (let topic = ''command/'' @ deviceId @ ''/+'' in
      case subscribe_checked b topic m of
        (Some e, m1) \<Rightarrow> (Some e, m1)
      | (None, m1) \<Rightarrow> (None, registerSubscription topic (DeviceCommandsHandler deviceId) m1))"

definition StopListenToDeviceCommands :: "broker \<Rightarrow> string \<Rightarrow> mgw_client \<Rightarrow> goerr option \<times> mgw_client" where
  "StopListenToDeviceCommands b deviceId m =
     (let topic = ''command/'' @ deviceId @ ''/+'' in
      case mgw_connected b m of
        (Some e, m1) \<Rightarrow> (Some e, m1)
      | (None, m1) \<Rightarrow>
          (case mgw_act b (Unsubscribe topic) m1 of
             (Some e, m2) \<Rightarrow> (Some e, m2)
           | (None, m2) \<Rightarrow> (None, unregisterSubscriptions topic m2)))"

definition getSubscriptions :: "mgw_client \<Rightarrow> (string \<times> handler) list" where
  "getSubscriptions m = map (\<lambda>(topic, h). (topic, h)) (subscriptions m)"

primrec resubscribe :: "broker \<Rightarrow> (string \<times> handler) list \<Rightarrow> mgw_client \<Rightarrow> goerr option \<times> mgw_client" where
  "resubscribe b [] m = (None, m)"
| "resubscribe b (sub # subs) m =
     (case mgw_act b (Subscribe (fst sub) 2) m of
        (Some e, m1) \<Rightarrow> (Some e, m1)
      | (None, m1) \<Rightarrow> resubscribe b subs m1)"

definition loadOldSubscriptions :: "broker \<Rightarrow> mgw_client \<Rightarrow> goerr option \<times> mgw_client" where
  "loadOldSubscriptions b m =
     (case mgw_connected b m of
        (Some e, m1) \<Rightarrow> (Some e, m1)
      | (None, m1) \<Rightarrow> resubscribe b (getSubscriptions m1) m1)"

definition listenToDeviceManagementRefresh :: "broker \<Rightarrow> mgw_client \<Rightarrow> goerr option \<times> mgw_client" where
  "listenToDeviceManagementRefresh b m = subscribe_checked b ''device-manager/refresh'' m"

text \<open>The error of the second call is assigned and not returned.\<close>

definition initSubscriptions :: "broker \<Rightarrow> mgw_client \<Rightarrow> goerr option \<times> mgw_client" where
  "initSubscriptions b m =
     (case loadOldSubscriptions b m of
        (Some e, m1) \<Rightarrow> (Some e, m1)
      | (None, m1) \<Rightarrow> (None, snd (listenToDeviceManagementRefresh b m1)))"

text \<open>
  The handlers of a refresh message and of a new connection; the first component says that the
  notifier is called. An error of the subscriptions ends the process: \<open>None\<close>.
\<close>

definition refresh_message :: "mgw_client \<Rightarrow> bool" where
  "refresh_message m = refresh_notifier m"

definition mgw_on_connect :: "broker \<Rightarrow> mgw_client \<Rightarrow> (bool \<times> mgw_client) option" where
  "mgw_on_connect b m =
     (case initSubscriptions b m of
        (Some err, m1) \<Rightarrow> None
      | (None, m1) \<Rightarrow> Some (refresh_notifier m1, m1))"

definition NotifyDeviceManagerRefresh :: "bool \<Rightarrow> mgw_client \<Rightarrow> mgw_client" where
  "NotifyDeviceManagerRefresh f m = m\<lparr>refresh_notifier := f\<rparr>"

text \<open>\<^verbatim>\<open>New\<close>: the connection carries the last will; \<open>None\<close> is the error of connecting.\<close>

definition last_will :: "string \<Rightarrow> mqtt_msg" where
  "last_will connectorId = \<lparr>msg_topic = ''device-manager/device/'' @ connectorId @ ''/lw'', msg_qos = 2,
     msg_retained = False, msg_payload = ''offline''\<rparr>"

definition mgw_New :: "string \<Rightarrow> broker \<Rightarrow> bool \<Rightarrow> mgw_client option" where
  "mgw_New connectorId b refreshNotifier =
     (let client = new_mgw_client\<lparr>refresh_notifier := refreshNotifier\<rparr> in
      case ask b (Connect (Some (last_will connectorId))) (mtrace client) of
        (Some err, tr) \<Rightarrow> None
      | (None, tr) \<Rightarrow> Some (client\<lparr>mtrace := tr\<rparr>))"

subsection \<open>One publish, one message\<close>

lemma mgw_publish_accepted:
  "accepted (mtrace (snd (mgw_publish b t pl m))) =
     accepted (mtrace m) @ (if fst (mgw_publish b t pl m) = None
       then [\<lparr>msg_topic = t, msg_qos = 2, msg_retained = False, msg_payload = pl\<rparr>] else [])"
  by (auto simp: mgw_publish_def ask_def split: option.splits)

lemma mgw_publish_subscriptions [frame_simps]:
  "subscriptions (snd (mgw_publish b t pl m)) = subscriptions m"
  by (auto simp: mgw_publish_def ask_def split: option.splits)

end
