(* ===== verification/DeviceRepo.thy ===== *)
theory DeviceRepo
  imports DeviceModel Config
begin

section \<open>The device repository cache (\<^verbatim>\<open>pkg/devicerepo\<close>)\<close>

text \<open>
  The component caches the zigbee device types of the platform and the device type of
  every known device. The platform (the repository client, the token service, the HTTP
  call that creates a type) and the clock are not code of the repository: they are the
  record \<open>remote\<close>, an argument. Each of its functions sees every call made before, so
  it may answer differently each time, fail or recover. \<open>rtrace\<close> lists the calls. The answer
  to the HTTP request is an error or a status and a body; \<open>decode_type\<close> is the JSON decoder of
  \<^verbatim>\<open>models.DeviceType\<close>, a type of another package.
\<close>

datatype repo_act =
    Now
  | Token
  | ListDevices string string
  | ListDeviceTypes string
  | CreateDeviceType string models_device_type "string list"

type_synonym repo_trace = "repo_act list"

record remote =
  clock :: "repo_trace \<Rightarrow> int"
  ensure_access :: "repo_trace \<Rightarrow> string + string"
  list_devices :: "repo_trace \<Rightarrow> string \<Rightarrow> string \<Rightarrow> string + string list"
  list_device_types :: "repo_trace \<Rightarrow> string \<Rightarrow> string + models_device_type list"
  create_type :: "repo_trace \<Rightarrow> string \<Rightarrow> models_device_type \<Rightarrow> string list \<Rightarrow> string + (int \<times> string)"
  decode_type :: "string \<Rightarrow> string + models_device_type"

record repo =
  deviceTypes :: "device_type list"
  minCacheDuration :: int
  maxCacheDuration :: int
  lastDtRefresh :: int
  createdDt :: "(string, models_device_type) gomap"
  deviceDeviceTypeIdCache :: "(string, string) gomap"
  rtrace :: repo_trace

definition called :: "repo_act \<Rightarrow> repo \<Rightarrow> repo" where
  "called a r = r\<lparr>rtrace := rtrace r @ [a]\<rparr>"

text \<open>\<^verbatim>\<open>NewWithDependencies\<close>: an invalid duration is an error.\<close>

definition NewWithDependencies :: "config \<Rightarrow> repo option" where
  "NewWithDependencies cfg =
     (case ParseDuration (MinCacheDuration cfg) of None \<Rightarrow> None
      | Some mind \<Rightarrow>
        (case ParseDuration (MaxCacheDuration cfg) of None \<Rightarrow> None
         | Some maxd \<Rightarrow> Some \<lparr>deviceTypes = [], minCacheDuration = mind, maxCacheDuration = maxd,
             lastDtRefresh = zero_time, createdDt = [], deviceDeviceTypeIdCache = [], rtrace = []\<rparr>))"

definition now :: "remote \<Rightarrow> repo \<Rightarrow> int \<times> repo" where
  "now R r = (clock R (rtrace r), called Now r)"

definition getToken :: "config \<Rightarrow> remote \<Rightarrow> repo \<Rightarrow> (goerr + string) \<times> repo" where
  "getToken cfg R r =
     (if \<not> AuthEnabled cfg then (Inr [], r)
      else (case ensure_access R (rtrace r) of Inl e \<Rightarrow> Inl (Other e) | Inr t \<Rightarrow> Inr t, called Token r))"

subsection \<open>Known devices\<close>

text \<open>The device type ids of the devices with the local id; the code takes the first.\<close>

definition getDeviceFromRepo ::
    "config \<Rightarrow> remote \<Rightarrow> string \<Rightarrow> repo \<Rightarrow> (goerr + string option) \<times> repo" where
  "getDeviceFromRepo cfg R deviceId r =
     (case getToken cfg R r of
        (Inl e, r1) \<Rightarrow> (Inl e, r1)
      | (Inr token, r1) \<Rightarrow>
          (case list_devices R (rtrace r1) token deviceId of
             Inl e \<Rightarrow> (Inl (Other e), called (ListDevices token deviceId) r1)
           | Inr [] \<Rightarrow> (Inr None, called (ListDevices token deviceId) r1)
           | Inr (d # _) \<Rightarrow> (Inr (Some d), called (ListDevices token deviceId) r1)))"

definition GetKnownDeviceDeviceTypeId ::
    "config \<Rightarrow> remote \<Rightarrow> string \<Rightarrow> repo \<Rightarrow> (goerr + string option) \<times> repo" where
  "GetKnownDeviceDeviceTypeId cfg R deviceId r =
     (case map_of (deviceDeviceTypeIdCache r) deviceId of
        Some dtId \<Rightarrow> (Inr (Some dtId), r)
      | None \<Rightarrow>
          (case getDeviceFromRepo cfg R deviceId r of
             (Inl e, r1) \<Rightarrow> (Inl e, r1)
           | (Inr None, r1) \<Rightarrow> (Inr None, r1)
           | (Inr (Some dtId), r1) \<Rightarrow>
               (Inr (Some dtId),
                r1\<lparr>deviceDeviceTypeIdCache := mput deviceId dtId (deviceDeviceTypeIdCache r1)\<rparr>)))"

subsection \<open>The device type list\<close>

definition view_service :: "models_service \<Rightarrow> service" where
  "view_service s = \<lparr>ServiceId = ms_Id s, LocalId = ms_LocalId s, ServiceName = ms_Name s,
     Interaction = ms_Interaction s, ServiceAttributes = ms_Attributes s\<rparr>"

definition view_device_type :: "models_device_type \<Rightarrow> device_type" where
  "view_device_type d = \<lparr>Id = md_Id d, DtName = md_Name d, DtDescription = md_Description d,
     Attributes = md_Attributes d, Services = map view_service (md_Services d)\<rparr>"

definition getDeviceTypeListFromPlatform ::
    "config \<Rightarrow> remote \<Rightarrow> repo \<Rightarrow> (goerr + device_type list) \<times> repo" where
  "getDeviceTypeListFromPlatform cfg R r =
     (case getToken cfg R r of
        (Inl e, r1) \<Rightarrow> (Inl e, r1)
      | (Inr token, r1) \<Rightarrow>
          (case list_device_types R (rtrace r1) token of
             Inl e \<Rightarrow> (Inl (Other e), called (ListDeviceTypes token) r1)
           | Inr l \<Rightarrow> (Inr (map view_device_type l), called (ListDeviceTypes token) r1)))"

definition refreshDeviceTypeList :: "config \<Rightarrow> remote \<Rightarrow> repo \<Rightarrow> goerr option \<times> repo" where
  "refreshDeviceTypeList cfg R r =
     (case getDeviceTypeListFromPlatform cfg R r of
        (Inl e, r1) \<Rightarrow> (Some e, r1)
      | (Inr result, r1) \<Rightarrow>
          (let (t, r2) = now R r1 in (None, r2\<lparr>deviceTypes := result, lastDtRefresh := t\<rparr>)))"

definition getDeviceTypeList :: "repo \<Rightarrow> device_type list" where
  [simp]: "getDeviceTypeList r = deviceTypes r"

definition ListZigbeeDeviceTypes ::
    "config \<Rightarrow> remote \<Rightarrow> repo \<Rightarrow> (goerr + device_type list) \<times> repo" where
  "ListZigbeeDeviceTypes cfg R r =
     (let (t, r1) = now R r in
      if time_sub t (lastDtRefresh r1) > maxCacheDuration r1 then
        (case refreshDeviceTypeList cfg R r1 of
           (Some e, r2) \<Rightarrow> (Inl e, r2)
         | (None, r2) \<Rightarrow> (Inr (getDeviceTypeList r2), r2))
      else (Inr (getDeviceTypeList r1), r1))"

subsection \<open>Searching the list\<close>

definition AttributeUsedForZigbee :: string where "AttributeUsedForZigbee = ''senergy/zigbee-dc''"
definition AttributeZigbeeVendor :: string where "AttributeZigbeeVendor = ''senergy/zigbee-vendor''"
definition AttributeZigbeeModel :: string where "AttributeZigbeeModel = ''senergy/zigbee-model''"

definition normalize :: "string \<Rightarrow> string" where
  "normalize s = ToLower (TrimSpace s)"

text \<open>The map from attribute keys to the normalized values, in the order of the attributes.\<close>

primrec attr_map :: "attribute list \<Rightarrow> (string, string list) gomap \<Rightarrow> (string, string list) gomap" where
  "attr_map [] m = m"
| "attr_map (a # as) m =
     attr_map as (mput (Key a)
       ((case map_of m (Key a) of Some vs \<Rightarrow> vs | None \<Rightarrow> []) @ [normalize (Value a)]) m)"

definition matches_device :: "device_info \<Rightarrow> device_type \<Rightarrow> bool" where
  "matches_device device dt =
     (let m = attr_map (Attributes dt) [] in
      case map_of m AttributeZigbeeVendor of
        None \<Rightarrow> False
      | Some vendors \<Rightarrow>
          if normalize (Vendor (Definition device)) \<in> set vendors then
            (case map_of m AttributeZigbeeModel of
               None \<Rightarrow> False
             | Some modelList \<Rightarrow> normalize (Model (Definition device)) \<in> set modelList)
          else False)"

definition getMatchingDeviceType :: "device_info \<Rightarrow> device_type list \<Rightarrow> device_type option" where
  "getMatchingDeviceType device dts = find (matches_device device) dts"

definition getDeviceTypeById :: "string \<Rightarrow> device_type list \<Rightarrow> device_type option" where
  "getDeviceTypeById dtId dts = find (\<lambda>dt. Id dt = dtId) dts"

text \<open>
  The body shared by \<^verbatim>\<open>GetDeviceType\<close>, \<^verbatim>\<open>FindDeviceTypeId\<close> and \<^verbatim>\<open>FindDeviceType\<close>: search
  the cached list; if nothing is found and the list is older than the minimum, reload it
  once and search again. The clock is read only when the first search fails.
\<close>

definition find_reloading ::
    "config \<Rightarrow> remote \<Rightarrow> (device_type list \<Rightarrow> device_type option) \<Rightarrow> string \<Rightarrow> repo \<Rightarrow>
       (goerr + device_type) \<times> repo" where
  "find_reloading cfg R search detail r =
     (case ListZigbeeDeviceTypes cfg R r of
        (Inl e, r1) \<Rightarrow> (Inl e, r1)
      | (Inr dts, r1) \<Rightarrow>
          (case search dts of
             Some dt \<Rightarrow> (Inr dt, r1)
           | None \<Rightarrow>
               (let (t, r2) = now R r1 in
                if time_sub t (lastDtRefresh r2) > minCacheDuration r2 then
                  (case refreshDeviceTypeList cfg R r2 of
                     (Some e, r3) \<Rightarrow> (Inl e, r3)
                   | (None, r3) \<Rightarrow>
                       (case ListZigbeeDeviceTypes cfg R r3 of
                          (Inl e, r4) \<Rightarrow> (Inl e, r4)
                        | (Inr dts', r4) \<Rightarrow>
                            (case search dts' of
                               Some dt \<Rightarrow> (Inr dt, r4)
                             | None \<Rightarrow> (Inl (NoMatch detail), r4))))
                else (Inl (NoMatch detail), r2))))"

definition GetDeviceType :: "config \<Rightarrow> remote \<Rightarrow> string \<Rightarrow> repo \<Rightarrow> (goerr + device_type) \<times> repo" where
  "GetDeviceType cfg R dtId r =
     find_reloading cfg R (getDeviceTypeById dtId) ('': id='' @ dtId) r"

definition device_detail :: "device_info \<Rightarrow> string" where
  "device_detail device =
     '': vendor='' @ Vendor (Definition device) @ '' model='' @ Model (Definition device)"

definition FindDeviceType :: "config \<Rightarrow> remote \<Rightarrow> device_info \<Rightarrow> repo \<Rightarrow> (goerr + device_type) \<times> repo" where
  "FindDeviceType cfg R device r =
     find_reloading cfg R (getMatchingDeviceType device) (device_detail device) r"

definition FindDeviceTypeId :: "config \<Rightarrow> remote \<Rightarrow> device_info \<Rightarrow> repo \<Rightarrow> (goerr + string) \<times> repo" where
  "FindDeviceTypeId cfg R device r =
     (case find_reloading cfg R (getMatchingDeviceType device) (device_detail device) r of
        (Inl e, r1) \<Rightarrow> (Inl e, r1)
      | (Inr dt, r1) \<Rightarrow> (Inr (Id dt), r1))"

subsection \<open>Creating device types\<close>

definition getDtVendorModelKey :: "models_device_type \<Rightarrow> string" where
  "getDtVendorModelKey dt =
     (let m = foldl (\<lambda>m a. mput (Key a) (Value a) m) [] (md_Attributes dt);
          v = (\<lambda>k. case map_of m k of Some x \<Rightarrow> x | None \<Rightarrow> [])
      in ''vendor='' @ v AttributeZigbeeVendor @ '';model='' @ v AttributeZigbeeModel)"

text \<open>\<^verbatim>\<open>Do\<close>: the result or the error, each with a status code.\<close>

definition Do :: "(string \<Rightarrow> string + 'a) \<Rightarrow> string + (int \<times> string) \<Rightarrow> (string \<times> int) + ('a \<times> int)" where
  "Do decode resp =
     (case resp of
        Inl err \<Rightarrow> Inl (err, 500)
      | Inr (status, body) \<Rightarrow>
          if status > 299 then Inl (body, status)
          else (case decode body of Inl err \<Rightarrow> Inl (err, 500) | Inr result \<Rightarrow> Inr (result, status)))"

text \<open>
  The result has the status code as in the source. The cached list is marked as stale
  before the request, whether the request succeeds or not. A \<^verbatim>\<open>models.DeviceType\<close> always
  encodes, so that error branch is absent. A request that cannot be built, because the URL of
  the configuration is none, is an error of \<open>create_type\<close> here: the result is the same.
\<close>

definition CreateDeviceTypeWithDistinctAttributes ::
    "config \<Rightarrow> remote \<Rightarrow> models_device_type \<Rightarrow> string list \<Rightarrow> repo \<Rightarrow>
       ((goerr \<times> int) + (models_device_type \<times> int)) \<times> repo" where
  "CreateDeviceTypeWithDistinctAttributes cfg R dt keys r =
     (let key = getDtVendorModelKey dt in
      case map_of (createdDt r) key of
        Some existing \<Rightarrow> (Inr (existing, 200), r)
      | None \<Rightarrow>
          (let r0 = r\<lparr>lastDtRefresh := zero_time\<rparr> in
           case getToken cfg R r0 of
             (Inl e, r1) \<Rightarrow> (Inl (e, 500), r1)
           | (Inr token, r1) \<Rightarrow>
               (let r2 = called (CreateDeviceType token dt keys) r1 in
                case Do (decode_type R) (create_type R (rtrace r1) token dt keys) of
                  Inl (e, code) \<Rightarrow> (Inl (Other e, code), r2)
                | Inr (result, code) \<Rightarrow>
                    (Inr (result, code), r2\<lparr>createdDt := mput key result (createdDt r2)\<rparr>))))"

subsection \<open>What the operations leave alone\<close>

lemma called_simps [simp]:
  "deviceTypes (called a r) = deviceTypes r" "minCacheDuration (called a r) = minCacheDuration r"
  "maxCacheDuration (called a r) = maxCacheDuration r" "lastDtRefresh (called a r) = lastDtRefresh r"
  "createdDt (called a r) = createdDt r"
  "deviceDeviceTypeIdCache (called a r) = deviceDeviceTypeIdCache r"
  "rtrace (called a r) = rtrace r @ [a]"
  by (simp_all add: called_def)

lemma getToken_cases:
  obtains e where "getToken cfg R r = (Inl (Other e), called Token r)"
  | t where "getToken cfg R r = (Inr t, called Token r)" "AuthEnabled cfg"
  | "getToken cfg R r = (Inr [], r)" "\<not> AuthEnabled cfg"
  by (cases "AuthEnabled cfg"; cases "ensure_access R (rtrace r)") (auto simp: getToken_def)

text \<open>
  \<open>keeps r r'\<close>: a call into the platform leaves every cache alone and only extends the
  trace.
\<close>

definition keeps :: "repo \<Rightarrow> repo \<Rightarrow> bool" where
  "keeps r r' \<longleftrightarrow> createdDt r' = createdDt r
     \<and> deviceDeviceTypeIdCache r' = deviceDeviceTypeIdCache r
     \<and> minCacheDuration r' = minCacheDuration r \<and> maxCacheDuration r' = maxCacheDuration r
     \<and> (\<exists>tr. rtrace r' = rtrace r @ tr)"

lemma keeps_refl [simp, intro]: "keeps r r"
  by (simp add: keeps_def)

lemma keeps_trans: "keeps r r' \<Longrightarrow> keeps r' r'' \<Longrightarrow> keeps r r''"
  by (auto simp: keeps_def)

lemma keeps_called [simp, intro]: "keeps r (called a r)"
  by (simp add: keeps_def)

lemma keeps_token: "getToken cfg R r = (x, r') \<Longrightarrow> keeps r r'"
  by (cases rule: getToken_cases [of cfg R r]) auto

lemma keeps_device: "getDeviceFromRepo cfg R d r = (x, r') \<Longrightarrow> keeps r r'"
  by (auto simp: getDeviceFromRepo_def dest!: keeps_token intro: keeps_trans
      split: prod.splits sum.splits list.splits)

lemma keeps_platform: "getDeviceTypeListFromPlatform cfg R r = (x, r') \<Longrightarrow> keeps r r'"
  by (auto simp: getDeviceTypeListFromPlatform_def dest!: keeps_token intro: keeps_trans
      split: prod.splits sum.splits)

lemma keeps_update: "keeps r r' \<Longrightarrow> keeps r (r'\<lparr>deviceTypes := ts, lastDtRefresh := t\<rparr>)"
  by (simp add: keeps_def)

lemma keeps_refresh: "refreshDeviceTypeList cfg R r = (x, r') \<Longrightarrow> keeps r r'"
  by (auto simp: refreshDeviceTypeList_def now_def Let_def dest!: keeps_platform
      intro!: keeps_update intro: keeps_trans split: prod.splits sum.splits)

lemma keeps_list: "ListZigbeeDeviceTypes cfg R r = (x, r') \<Longrightarrow> keeps r r'"
  by (auto simp: ListZigbeeDeviceTypes_def now_def Let_def dest!: keeps_refresh intro: keeps_trans
      split: prod.splits option.splits if_splits)

lemma keeps_retry:
  assumes "keeps r r1"
  shows "keeps r (snd (refreshDeviceTypeList cfg R (called Now r1)))"
    and "refreshDeviceTypeList cfg R (called Now r1) = (y, r2) \<Longrightarrow>
      keeps r (snd (ListZigbeeDeviceTypes cfg R r2))"
proof -
  have step: "keeps r (snd (refreshDeviceTypeList cfg R (called Now r1)))"
    by (cases "refreshDeviceTypeList cfg R (called Now r1)")
       (auto dest!: keeps_refresh intro: keeps_trans [OF assms] keeps_trans [OF keeps_called])
  then show "keeps r (snd (refreshDeviceTypeList cfg R (called Now r1)))" .
  assume "refreshDeviceTypeList cfg R (called Now r1) = (y, r2)"
  with step have "keeps r r2" by simp
  then show "keeps r (snd (ListZigbeeDeviceTypes cfg R r2))"
    by (cases "ListZigbeeDeviceTypes cfg R r2") (auto dest!: keeps_list intro: keeps_trans)
qed

lemma keeps_find: "find_reloading cfg R search det r = (x, r') \<Longrightarrow> keeps r r'"
proof (cases "ListZigbeeDeviceTypes cfg R r")
  case (Pair y r1)
  assume res: "find_reloading cfg R search det r = (x, r')"
  from Pair have k: "keeps r r1" by (rule keeps_list)
  have k': "keeps r (called Now r1)" by (rule keeps_trans [OF k keeps_called])
  show ?thesis
    using res Pair k k' keeps_retry [OF k, of cfg R]
    by (auto simp: find_reloading_def now_def Let_def
        split: prod.splits option.splits sum.splits if_splits)
qed

subsection \<open>The search in the cached list\<close>

lemma list_types_result: "ListZigbeeDeviceTypes cfg R r = (Inr l, r') \<Longrightarrow> l = deviceTypes r'"
  by (auto simp: ListZigbeeDeviceTypes_def now_def Let_def split: prod.splits option.splits if_splits)

lemma refresh_not_NoMatch: "refreshDeviceTypeList cfg R r = (Some e, r') \<Longrightarrow> \<not> is_no_match e"
  by (cases rule: getToken_cases [of cfg R r])
     (auto simp: refreshDeviceTypeList_def getDeviceTypeListFromPlatform_def now_def
       split: prod.splits sum.splits)

lemma list_not_NoMatch: "ListZigbeeDeviceTypes cfg R r = (Inl e, r') \<Longrightarrow> \<not> is_no_match e"
  by (auto simp: ListZigbeeDeviceTypes_def now_def Let_def dest: refresh_not_NoMatch
      split: prod.splits option.splits if_splits)

locale type_search =
  fixes search :: "device_type list \<Rightarrow> device_type option"
    and good :: "device_type \<Rightarrow> bool"
  assumes found: "search ts = Some t \<Longrightarrow> t \<in> set ts \<and> good t"
    and missing: "search ts = None \<Longrightarrow> t \<in> set ts \<Longrightarrow> \<not> good t"
begin

lemma reloading_found:
  assumes "find_reloading cfg R search det r = (Inr dt, r')"
  shows "search (deviceTypes r') = Some dt"
  using assms by (auto simp: find_reloading_def now_def Let_def dest!: list_types_result
      split: prod.splits option.splits sum.splits if_splits)

lemma reloading_no_match:
  assumes "find_reloading cfg R search det r = (Inl e, r')" and "is_no_match e"
  shows "search (deviceTypes r') = None" and "e = NoMatch det"
  using assms by (auto simp: find_reloading_def now_def Let_def
      dest!: list_types_result dest: refresh_not_NoMatch list_not_NoMatch
      split: prod.splits option.splits sum.splits if_splits)

lemma reloading_sound:
  assumes "find_reloading cfg R search det r = (Inr dt, r')"
  shows "dt \<in> set (deviceTypes r')" and "good dt"
  using found [OF reloading_found [OF assms]] by auto

lemma reloading_complete:
  assumes "find_reloading cfg R search det r = (Inl e, r')" and "is_no_match e"
  shows "\<not> (\<exists>t \<in> set (deviceTypes r'). good t)"
  using missing [OF reloading_no_match(1) [OF assms]] by auto

end

lemma attr_map_values:
  "(case map_of (attr_map as m) k of Some vs \<Rightarrow> set vs | None \<Rightarrow> {}) =
     (case map_of m k of Some vs \<Rightarrow> set vs | None \<Rightarrow> {})
       \<union> (\<lambda>a. normalize (Value a)) ` {a \<in> set as. Key a = k}"
proof (induction as arbitrary: m)
  case (Cons a as)
  have "{x \<in> set (a # as). Key x = k}
      = (if Key a = k then insert a {x \<in> set as. Key x = k} else {x \<in> set as. Key x = k})"
    by auto
  with Cons show ?case by (auto simp: map_of_mput split: option.splits)
qed (simp split: option.split)

text \<open>A type fits a device if some vendor and some model attribute agree up to case and space.\<close>

definition has_attr :: "device_type \<Rightarrow> string \<Rightarrow> string \<Rightarrow> bool" where
  "has_attr dt k v \<longleftrightarrow> (\<exists>a \<in> set (Attributes dt). Key a = k \<and> normalize (Value a) = normalize v)"

definition fits :: "device_info \<Rightarrow> device_type \<Rightarrow> bool" where
  "fits device dt \<longleftrightarrow> has_attr dt AttributeZigbeeVendor (Vendor (Definition device))
     \<and> has_attr dt AttributeZigbeeModel (Model (Definition device))"

lemma matches_device_fits: "matches_device device dt = fits device dt"
proof -
  have attr: "(\<exists>vs. map_of (attr_map (Attributes dt) []) k = Some vs \<and> normalize v \<in> set vs) = has_attr dt k v"
    for k v using attr_map_values [of "Attributes dt" "[]" k]
    by (cases "map_of (attr_map (Attributes dt) []) k") (auto simp: has_attr_def image_iff)
  show ?thesis
    unfolding fits_def attr [symmetric] matches_device_def Let_def
    by (auto split: option.splits if_splits)
qed

interpretation by_device: type_search "getMatchingDeviceType device" "fits device" for device
  by unfold_locales
     (auto simp: getMatchingDeviceType_def matches_device_fits dest: find_SomeD find_None_all)

interpretation by_id: type_search "getDeviceTypeById dtId" "\<lambda>dt. Id dt = dtId" for dtId
  by unfold_locales (auto simp: getDeviceTypeById_def dest: find_SomeD find_None_all)

subsection \<open>The tokens of the requests\<close>

text \<open>
  The contract with the token service: with authentication every token it hands out is a bearer
  token. Then every request to the platform carries one, and without authentication none does.
\<close>

definition token_ok :: "config \<Rightarrow> string \<Rightarrow> bool" where
  "token_ok cfg t \<longleftrightarrow> (if AuthEnabled cfg then HasPrefix t ''Bearer '' else t = [])"

definition request_ok :: "config \<Rightarrow> repo_act \<Rightarrow> bool" where
  "request_ok cfg a \<longleftrightarrow>
     (case a of
        ListDevices t i \<Rightarrow> token_ok cfg t
      | ListDeviceTypes t \<Rightarrow> token_ok cfg t
      | CreateDeviceType t dt keys \<Rightarrow> token_ok cfg t
      | _ \<Rightarrow> True)"

definition authorized :: "config \<Rightarrow> repo \<Rightarrow> bool" where
  "authorized cfg r \<longleftrightarrow> list_all (request_ok cfg) (rtrace r)"

lemma authorized_called [simp]: "authorized cfg (called a r) \<longleftrightarrow> authorized cfg r \<and> request_ok cfg a"
  by (auto simp: authorized_def)

lemma authorized_updates [simp]:
  "authorized cfg (r\<lparr>deviceTypes := ts\<rparr>) = authorized cfg r"
  "authorized cfg (r\<lparr>lastDtRefresh := t\<rparr>) = authorized cfg r"
  "authorized cfg (r\<lparr>deviceDeviceTypeIdCache := m\<rparr>) = authorized cfg r"
  "authorized cfg (r\<lparr>createdDt := m'\<rparr>) = authorized cfg r"
  by (simp_all add: authorized_def)

lemma request_ok_simps [simp]:
  "request_ok cfg Now" "request_ok cfg Token" "request_ok cfg (ListDevices t i) = token_ok cfg t"
  "request_ok cfg (ListDeviceTypes t) = token_ok cfg t" "request_ok cfg (CreateDeviceType t dt keys) = token_ok cfg t"
  by (simp_all add: request_ok_def)

locale token_provider =
  fixes cfg :: config and R :: remote
  assumes bearer_token: "AuthEnabled cfg \<Longrightarrow> ensure_access R tr = Inr t \<Longrightarrow> HasPrefix t ''Bearer ''"
begin

lemma getToken_ok:
  "getToken cfg R r = (x, r') \<Longrightarrow> (case x of Inr t \<Rightarrow> token_ok cfg t | Inl e \<Rightarrow> True) \<and> authorized cfg r' = authorized cfg r"
  using bearer_token [of "rtrace r"]
  by (auto simp: getToken_def token_ok_def split: if_splits sum.splits)

lemma known_authorized: "authorized cfg r \<Longrightarrow> authorized cfg (snd (GetKnownDeviceDeviceTypeId cfg R i r))"
  by (auto simp: GetKnownDeviceDeviceTypeId_def getDeviceFromRepo_def dest!: getToken_ok
      split: option.split prod.split sum.splits list.split)

lemma refresh_authorized: "refreshDeviceTypeList cfg R r = (x, r') \<Longrightarrow> authorized cfg r \<Longrightarrow> authorized cfg r'"
  by (auto simp: refreshDeviceTypeList_def getDeviceTypeListFromPlatform_def now_def Let_def dest!: getToken_ok
      split: prod.splits sum.splits)

lemma list_authorized: "ListZigbeeDeviceTypes cfg R r = (x, r') \<Longrightarrow> authorized cfg r \<Longrightarrow> authorized cfg r'"
  by (auto simp: ListZigbeeDeviceTypes_def now_def Let_def dest!: refresh_authorized
      split: prod.splits option.splits if_splits)

lemma find_authorized: "authorized cfg r \<Longrightarrow> authorized cfg (snd (find_reloading cfg R search det r))"
proof -
  assume r: "authorized cfg r"
  obtain y r1 where l: "ListZigbeeDeviceTypes cfg R r = (y, r1)" by fastforce
  note a1 = list_authorized [OF l r]
  obtain z r2 where f: "refreshDeviceTypeList cfg R (called Now r1) = (z, r2)" by fastforce
  have a2: "authorized cfg r2" by (rule refresh_authorized [OF f]) (simp add: a1)
  obtain w r3 where m: "ListZigbeeDeviceTypes cfg R r2 = (w, r3)" by fastforce
  note a3 = list_authorized [OF m a2]
  show ?thesis using l f m a1 a2 a3
    by (auto simp: find_reloading_def now_def Let_def split: sum.split option.split)
qed

lemma create_authorized:
  "authorized cfg r \<Longrightarrow> authorized cfg (snd (CreateDeviceTypeWithDistinctAttributes cfg R dt keys r))"
  by (auto simp: CreateDeviceTypeWithDistinctAttributes_def Let_def dest!: getToken_ok
      split: option.split prod.split sum.splits)

end

end
