(* ===== verification/AckMatching.thy ===== *)
theory AckMatching
  imports DeviceModel Config
begin

section \<open>What acknowledges a set command (\<^verbatim>\<open>pkg/connector/ack.go\<close>, the pure part)\<close>

text \<open>
  The functions of \<^verbatim>\<open>ack.go\<close> that keep no state: the configured timeout, the keys of
  a command that a published state must show, and the comparison of the two.
\<close>

unbundle bit_operations_syntax

subsection \<open>The timeout\<close>

datatype timeout_error = InvalidDuration | NegativeDuration string

definition parseCommandAckTimeout :: "config \<Rightarrow> timeout_error + int" where
  "parseCommandAckTimeout cfg =
     (let v = TrimSpace (CommandAckTimeout cfg) in
      if v = [] \<or> v = ''-'' then Inr 0
      else (case ParseDuration v of
              None \<Rightarrow> Inl InvalidDuration
            | Some dur \<Rightarrow> if dur < 0 then Inl (NegativeDuration v) else Inr dur))"

subsection \<open>The published properties\<close>

definition zigbeePublishedAccess :: int where "zigbeePublishedAccess = 1"
definition zigbeeSetTransitionKey :: string where "zigbeeSetTransitionKey = ''transition''"

definition published_access :: "feature_attrs \<Rightarrow> bool" where
  "published_access a \<longleftrightarrow> Access a = 0 \<or> Access a AND zigbeePublishedAccess \<noteq> 0"

definition collect_one :: "feature_attrs \<Rightarrow> (string, bool) gomap \<Rightarrow> (string, bool) gomap" where
  "collect_one a result =
     (if Property a \<noteq> [] then
        (if published_access a then mput (Property a) True result
         else if map_of result (Property a) = None then mput (Property a) False result
         else result)
      else result)"

fun collectPublishedProperties :: "feature list \<Rightarrow> (string, bool) gomap \<Rightarrow> (string, bool) gomap" where
  "collectPublishedProperties [] result = result"
| "collectPublishedProperties (Feature a subs it # features) result =
     collectPublishedProperties features (collectPublishedProperties subs (collect_one a result))"

subsection \<open>The expectation\<close>

text \<open>
  \<open>comparable\<close> is the three \<^verbatim>\<open>continue\<close> conditions of the loop. Empty \<open>exposes\<close> and an
  empty \<open>lastState\<close> stand for nil too: the code looks at their length only.
\<close>

definition comparable :: "(string, bool) gomap option \<Rightarrow> (string, go_value) gomap \<Rightarrow> string \<Rightarrow> bool" where
  "comparable published lastState key \<longleftrightarrow>
     key \<noteq> zigbeeSetTransitionKey
     \<and> (case published of None \<Rightarrow> True | Some p \<Rightarrow> map_of p key = Some True)
     \<and> (lastState \<noteq> [] \<longrightarrow> map_of lastState key \<noteq> None)"

definition ackExpectation ::
    "string \<Rightarrow> feature list \<Rightarrow> (string, go_value) gomap \<Rightarrow> (string, go_value) gomap \<times> bool" where
  "ackExpectation data exposes lastState =
     (case unmarshal_map data of
        None \<Rightarrow> ([], False)
      | Some payload \<Rightarrow>
          (let published = (if exposes \<noteq> [] then Some (collectPublishedProperties exposes []) else None);
               expected = filter (\<lambda>(key, v). comparable published lastState key) payload
           in (expected, expected \<noteq> [])))"

subsection \<open>The comparison\<close>

definition structured :: "go_value \<Rightarrow> bool" where
  "structured v = (case v of VMap _ \<Rightarrow> True | VList _ \<Rightarrow> True | _ \<Rightarrow> False)"

definition ackValueMatches :: "go_value \<Rightarrow> go_value \<Rightarrow> bool" where
  "ackValueMatches expected got =
     (case expected of
        VMap _ \<Rightarrow> True
      | VList _ \<Rightarrow> True
      | VStr e \<Rightarrow>
          if EqualFold e ''toggle'' then True
          else (case got of VStr g \<Rightarrow> EqualFold e g | _ \<Rightarrow> structured got)
      | VFloat e \<Rightarrow> (case got of VFloat g \<Rightarrow> e = g | _ \<Rightarrow> structured got)
      | VBool e \<Rightarrow> (case got of VBool g \<Rightarrow> e = g | _ \<Rightarrow> structured got)
      | VNil \<Rightarrow> got = VNil \<or> structured got
      | VInt _ \<Rightarrow> False)"

primrec ackMatches :: "(string, go_value) gomap \<Rightarrow> (string, go_value) gomap \<Rightarrow> bool" where
  "ackMatches [] state = True"
| "ackMatches (e # expected) state =
     (case map_of state (fst e) of
        None \<Rightarrow> False
      | Some got \<Rightarrow> if \<not> ackValueMatches (snd e) got then False else ackMatches expected state)"

subsection \<open>Which properties are published\<close>

text \<open>Every feature nested in a list of features, the item types of lists excepted.\<close>

fun nested :: "feature \<Rightarrow> feature_attrs set" where
  "nested (Feature a subs it) = insert a (\<Union>f \<in> set subs. nested f)"

definition publishes :: "feature list \<Rightarrow> string \<Rightarrow> bool" where
  "publishes fs k \<longleftrightarrow> k \<noteq> [] \<and> (\<exists>f \<in> set fs. \<exists>a \<in> nested f. Property a = k \<and> published_access a)"

definition mentions :: "feature list \<Rightarrow> string \<Rightarrow> bool" where
  "mentions fs k \<longleftrightarrow> k \<noteq> [] \<and> (\<exists>f \<in> set fs. \<exists>a \<in> nested f. Property a = k)"

lemma nested_lists:
  "publishes [] k = False" "mentions [] k = False"
  "publishes (Feature a subs it # fs) k \<longleftrightarrow>
     (k \<noteq> [] \<and> Property a = k \<and> published_access a) \<or> publishes subs k \<or> publishes fs k"
  "mentions (Feature a subs it # fs) k \<longleftrightarrow> (k \<noteq> [] \<and> Property a = k) \<or> mentions subs k \<or> mentions fs k"
  by (auto simp: publishes_def mentions_def)

lemma publishes_mentions: "publishes fs k \<Longrightarrow> mentions fs k"
  by (auto simp: publishes_def mentions_def)

lemma collect_one_lookup:
  "map_of (collect_one a m) k =
     (if Property a = k \<and> k \<noteq> [] then
        (if published_access a then Some True
         else case map_of m k of None \<Rightarrow> Some False | Some b \<Rightarrow> Some b)
      else map_of m k)"
  by (auto simp: collect_one_def split: option.split)

lemma collect_lookup:
  "map_of (collectPublishedProperties fs m) k =
     (if publishes fs k then Some True
      else if mentions fs k then (case map_of m k of None \<Rightarrow> Some False | Some b \<Rightarrow> Some b)
      else map_of m k)"
proof (induction fs m rule: collectPublishedProperties.induct)
  case (2 a subs it features result)
  then show ?case
    by (auto simp: nested_lists collect_one_lookup publishes_mentions split: option.splits)
qed (simp add: nested_lists)

subsection \<open>Agreement of values\<close>

text \<open>
  When a published value confirms a wanted one, as rules: structured values and toggles
  cannot be compared and confirm each other, strings agree up to case.
\<close>

inductive confirms :: "go_value \<Rightarrow> go_value \<Rightarrow> bool" where
  want_structured: "structured e \<Longrightarrow> confirms e g"
| want_toggle: "EqualFold s ''toggle'' \<Longrightarrow> confirms (VStr s) g"
| got_structured: "structured g \<Longrightarrow> e = VNil \<or> e = VBool b \<or> e = VFloat x \<or> e = VStr s \<Longrightarrow> confirms e g"
| same_text: "EqualFold s t \<Longrightarrow> confirms (VStr s) (VStr t)"
| same_nil: "confirms VNil VNil"
| same_bool: "confirms (VBool b) (VBool b)"
| same_float: "confirms (VFloat x) (VFloat x)"

inductive_cases confirms_cases:
  "confirms VNil g" "confirms (VBool b) g" "confirms (VFloat x) g" "confirms (VStr s) g"
  "confirms (VInt i) g" "confirms (VList l) g" "confirms (VMap m) g"

lemma structured_simps [simp]:
  "structured (VMap m)" "structured (VList l)" "\<not> structured VNil" "\<not> structured (VBool b)"
  "\<not> structured (VFloat x)" "\<not> structured (VInt i)" "\<not> structured (VStr s)"
  by (simp_all add: structured_def)

lemma ackValueMatches_confirms: "ackValueMatches e g \<longleftrightarrow> confirms e g"
proof (cases e)
  case (VStr s)
  then show ?thesis
    by (cases g) (auto simp: ackValueMatches_def elim!: confirms_cases intro: confirms.intros)
qed (cases g; auto simp: ackValueMatches_def elim!: confirms_cases intro: confirms.intros)+

lemma ackMatches_iff:
  "ackMatches expected state \<longleftrightarrow>
     (\<forall>(k, e) \<in> set expected. \<exists>g. map_of state k = Some g \<and> confirms e g)"
  by (induction expected) (auto simp: ackValueMatches_confirms split: option.splits)

subsection \<open>The expectation, key by key\<close>

lemma ackExpectation_lookup:
  assumes "unmarshal_map data = Some payload"
  shows "map_of (fst (ackExpectation data exposes lastState)) k =
     (if k \<noteq> ''transition'' \<and> (exposes = [] \<or> publishes exposes k)
         \<and> (lastState = [] \<or> k \<in> fst ` set lastState) then map_of payload k else None)"
proof -
  let ?pub = "if exposes \<noteq> [] then Some (collectPublishedProperties exposes []) else None"
  have "fst (ackExpectation data exposes lastState)
      = filter (\<lambda>p. comparable ?pub lastState (fst p)) payload"
    by (simp add: ackExpectation_def assms Let_def case_prod_unfold)
  then have "map_of (fst (ackExpectation data exposes lastState)) k =
      (if comparable ?pub lastState k then map_of payload k else None)"
    by (simp add: map_of_filter_key)
  moreover have "comparable ?pub lastState k \<longleftrightarrow>
      k \<noteq> ''transition'' \<and> (exposes = [] \<or> publishes exposes k)
      \<and> (lastState = [] \<or> k \<in> fst ` set lastState)"
    by (auto simp: comparable_def zigbeeSetTransitionKey_def collect_lookup map_of_eq_None_iff)
  ultimately show ?thesis by simp
qed

lemma ackExpectation_ok: "snd (ackExpectation data exposes lastState) \<longleftrightarrow>
    fst (ackExpectation data exposes lastState) \<noteq> []"
  by (simp add: ackExpectation_def Let_def split: option.split)

lemma mwf_ackExpectation: "mwf (fst (ackExpectation data exposes lastState))"
  by (auto simp: ackExpectation_def Let_def distinct_map_filter mwf_unmarshal_map split: option.split)

end
