(* ===== verification/AckRegistry.thy ===== *)
theory AckRegistry
  imports AckMatching MgwClient "HOL-Library.Multiset"
begin

section \<open>The acknowledgement registry (\<^verbatim>\<open>pkg/connector/ack.go\<close>)\<close>

text \<open>
  The registry holds the set commands that wait for a matching device state. The code
  compares entries by their address: \<open>pa_ptr\<close> is that address, and an operation that
  allocates an entry takes the new address as an argument. Each operation is the body of
  one critical section of the code (\<^verbatim>\<open>Register\<close>, the returned \<^verbatim>\<open>cancel\<close>, \<^verbatim>\<open>hasPending\<close>,
  the matching part of \<^verbatim>\<open>Observe\<close>, the removal of \<^verbatim>\<open>expire\<close>, \<^verbatim>\<open>close\<close>); \<open>armed\<close> are the
  entries whose timer runs. The goroutines around them are in the theory of the protocol.
\<close>

record pendingAck =
  pa_ptr :: nat
  pa_ieee :: string
  pa_deviceId :: string
  pa_serviceId :: string
  pa_commandId :: string
  pa_expected :: "(string, go_value) gomap"

record ack_registry =
  ack_timeout :: int
  pending :: "(string, pendingAck list) gomap"
  ack_closed :: bool
  armed :: "pendingAck list"

definition newAckRegistry :: "int \<Rightarrow> ack_registry" where
  "newAckRegistry timeout = \<lparr>ack_timeout = timeout, pending = [], ack_closed = False, armed = []\<rparr>"

definition pending_of :: "string \<Rightarrow> ack_registry \<Rightarrow> pendingAck list" where
  "pending_of ieee r = (case map_of (pending r) ieee of Some l \<Rightarrow> l | None \<Rightarrow> [])"

text \<open>\<^verbatim>\<open>entry.timer.Stop()\<close>: nothing happens if the timer has already fired.\<close>

definition stop_timer :: "pendingAck \<Rightarrow> ack_registry \<Rightarrow> ack_registry" where
  "stop_timer entry r = r\<lparr>armed := filter (\<lambda>e. pa_ptr e \<noteq> pa_ptr entry) (armed r)\<rparr>"

definition ack_close :: "ack_registry \<Rightarrow> ack_registry" where
  "ack_close r =
     (let r1 = r\<lparr>ack_closed := True\<rparr>;
          r2 = fold stop_timer (concat (map snd (pending r1))) r1
      in r2\<lparr>pending := []\<rparr>)"

text \<open>
  \<^verbatim>\<open>Register\<close> returns the closure \<^verbatim>\<open>cancel\<close>, given here by the entry it captures;
  \<open>None\<close> is the closure of a closed registry, which only returns true.
\<close>

definition Register ::
    "nat \<Rightarrow> string \<Rightarrow> string \<Rightarrow> string \<Rightarrow> string \<Rightarrow> (string, go_value) gomap \<Rightarrow> ack_registry \<Rightarrow>
       pendingAck option \<times> ack_registry" where
  "Register ptr ieee deviceId serviceId commandId expected r =
     (let entry = \<lparr>pa_ptr = ptr, pa_ieee = ieee, pa_deviceId = deviceId, pa_serviceId = serviceId,
                   pa_commandId = commandId, pa_expected = expected\<rparr>
      in if ack_closed r then (None, r)
         else (Some entry, r\<lparr>armed := armed r @ [entry],
                             pending := mput ieee (pending_of ieee r @ [entry]) (pending r)\<rparr>))"

text \<open>The first entry with the address, if there is one, is taken out of the list.\<close>

definition removeLocked :: "pendingAck \<Rightarrow> ack_registry \<Rightarrow> bool \<times> ack_registry" where
  "removeLocked entry r =
     (let list = pending_of (pa_ieee entry) r;
          before = takeWhile (\<lambda>e. pa_ptr e \<noteq> pa_ptr entry) list;
          found = dropWhile (\<lambda>e. pa_ptr e \<noteq> pa_ptr entry) list
      in case found of
           [] \<Rightarrow> (False, r)
         | _ # after \<Rightarrow>
             (let rest = before @ after in
              (True, r\<lparr>pending := (if rest = [] then mdel (pa_ieee entry) (pending r)
                                   else mput (pa_ieee entry) rest (pending r))\<rparr>)))"

definition ack_cancel :: "pendingAck option \<Rightarrow> ack_registry \<Rightarrow> bool \<times> ack_registry" where
  "ack_cancel ticket r =
     (case ticket of
        None \<Rightarrow> (True, r)
      | Some entry \<Rightarrow>
          (case removeLocked entry r of
             (True, r') \<Rightarrow> (True, stop_timer entry r')
           | (False, r') \<Rightarrow> (False, r')))"

definition hasPending :: "string \<Rightarrow> ack_registry \<Rightarrow> bool" where
  "hasPending ieee r \<longleftrightarrow> pending_of ieee r \<noteq> []"

text \<open>The part of \<^verbatim>\<open>Observe\<close> before the lock: the state to be matched, or an early return.\<close>

definition observe_begin :: "string \<Rightarrow> string \<Rightarrow> ack_registry \<Rightarrow> (string, go_value) gomap option" where
  "observe_begin ieee payload r = (if \<not> hasPending ieee r then None else unmarshal_map payload)"

text \<open>The loop over the copied list; the result is \<^verbatim>\<open>matched\<close>.\<close>

primrec match_loop ::
    "pendingAck list \<Rightarrow> (string, go_value) gomap \<Rightarrow> pendingAck list \<Rightarrow> ack_registry \<Rightarrow>
       pendingAck list \<times> ack_registry" where
  "match_loop [] state matched r = (matched, r)"
| "match_loop (entry # es) state matched r =
     (if ackMatches (pa_expected entry) state then
        (case removeLocked entry r of
           (True, r') \<Rightarrow> match_loop es state (matched @ [entry]) (stop_timer entry r')
         | (False, r') \<Rightarrow> match_loop es state matched r')
      else match_loop es state matched r)"

definition observe_match ::
    "string \<Rightarrow> (string, go_value) gomap \<Rightarrow> ack_registry \<Rightarrow> pendingAck list \<times> ack_registry" where
  "observe_match ieee state r =
     (if ack_closed r then ([], r) else match_loop (pending_of ieee r) state [] r)"

definition Observe :: "string \<Rightarrow> string \<Rightarrow> ack_registry \<Rightarrow> pendingAck list \<times> ack_registry" where
  "Observe ieee payload r =
     (case observe_begin ieee payload r of
        None \<Rightarrow> ([], r)
      | Some state \<Rightarrow> observe_match ieee state r)"

text \<open>
  The answers. \<open>deliver\<close> and the end of \<open>expire\<close> run in their own goroutines with the
  functions that \<^verbatim>\<open>StartWithDependencies\<close> passes: \<^verbatim>\<open>Respond\<close> and \<^verbatim>\<open>SendCommandError\<close>.
\<close>

definition deliver :: "broker \<Rightarrow> pendingAck \<Rightarrow> string \<Rightarrow> mgw_client \<Rightarrow> mgw_client" where
  "deliver b entry data m =
     (case Respond b (pa_deviceId entry) (pa_serviceId entry)
             \<lparr>CommandId = pa_commandId entry, Data = data\<rparr> m of
        (None, m1) \<Rightarrow> m1
      | (Some err, m1) \<Rightarrow>
          SendCommandError b (pa_commandId entry) (''unable to send set response: '' @ error_text err) m1)"

definition expire_message :: "pendingAck \<Rightarrow> int \<Rightarrow> string" where
  "expire_message entry timeout =
     ''no matching state of device '' @ pa_deviceId entry @ '' within '' @ duration_text timeout
     @ '' after set command, expected keys: ''
     @ Join (sort_Strings (mkeys (pa_expected entry))) '', ''"

definition expire_fail :: "broker \<Rightarrow> int \<Rightarrow> pendingAck \<Rightarrow> mgw_client \<Rightarrow> mgw_client" where
  "expire_fail b timeout entry m = SendCommandError b (pa_commandId entry) (expire_message entry timeout) m"

definition expire ::
    "broker \<Rightarrow> pendingAck \<Rightarrow> ack_registry \<Rightarrow> mgw_client \<Rightarrow> ack_registry \<times> mgw_client" where
  "expire b entry r m =
     (case removeLocked entry r of
        (False, r') \<Rightarrow> (r', m)
      | (True, r') \<Rightarrow> (r', expire_fail b (ack_timeout r') entry m))"

subsection \<open>The entries\<close>

text \<open>The registry seen as one list of entries, and what keeps that view exact.\<close>

definition entries :: "ack_registry \<Rightarrow> pendingAck list" where
  "entries r = concat (map snd (pending r))"

definition pend_wf :: "ack_registry \<Rightarrow> bool" where
  "pend_wf r \<longleftrightarrow> mwf (pending r)
     \<and> (\<forall>(k, l) \<in> set (pending r). l \<noteq> [] \<and> (\<forall>e \<in> set l. pa_ieee e = k))
     \<and> distinct (map pa_ptr (entries r))
     \<and> (ack_closed r \<longrightarrow> pending r = [])"

definition ack_wf :: "ack_registry \<Rightarrow> bool" where
  "ack_wf r \<longleftrightarrow> pend_wf r \<and> set (armed r) \<subseteq> set (entries r)"

lemma pend_wfD:
  assumes "pend_wf r"
  shows "mwf (pending r)" and "(k, l) \<in> set (pending r) \<Longrightarrow> l \<noteq> []"
    and "(k, l) \<in> set (pending r) \<Longrightarrow> e \<in> set l \<Longrightarrow> pa_ieee e = k"
    and "distinct (map pa_ptr (entries r))" and "ack_closed r \<Longrightarrow> pending r = []"
  using assms by (auto simp: pend_wf_def)

lemma ack_wf_new: "ack_wf (newAckRegistry t)"
  by (simp add: ack_wf_def pend_wf_def newAckRegistry_def entries_def)

lemma set_entries: "e \<in> set (entries r) \<longleftrightarrow> (\<exists>k l. (k, l) \<in> set (pending r) \<and> e \<in> set l)"
  by (force simp: entries_def)

lemma pending_of_iff:
  assumes "pend_wf r"
  shows "e \<in> set (pending_of k r) \<longleftrightarrow> e \<in> set (entries r) \<and> pa_ieee e = k"
proof
  assume "e \<in> set (pending_of k r)"
  then obtain l where "map_of (pending r) k = Some l" "e \<in> set l"
    by (cases "map_of (pending r) k") (simp_all add: pending_of_def)
  then show "e \<in> set (entries r) \<and> pa_ieee e = k"
    using pend_wfD(3) [OF assms] by (auto simp: set_entries dest!: map_of_SomeD)
next
  assume e: "e \<in> set (entries r) \<and> pa_ieee e = k"
  then obtain k' l where kl: "(k', l) \<in> set (pending r)" "e \<in> set l" by (auto simp: set_entries)
  then have "k' = k" using pend_wfD(3) [OF assms kl] e by simp
  with kl have "map_of (pending r) k = Some l" using pend_wfD(1) [OF assms] by simp
  with kl show "e \<in> set (pending_of k r)" by (simp add: pending_of_def)
qed

lemma ptr_inj:
  "pend_wf r \<Longrightarrow> e \<in> set (entries r) \<Longrightarrow> e' \<in> set (entries r) \<Longrightarrow> pa_ptr e = pa_ptr e' \<Longrightarrow> e = e'"
  using pend_wfD(4) by (metis distinct_map inj_onD)

text \<open>The multiset of entries when one list of the map is replaced.\<close>

abbreviation all_of :: "('k, 'v list) gomap \<Rightarrow> 'v multiset" where
  "all_of m \<equiv> mset (concat (map snd m))"

abbreviation list_at :: "'k \<Rightarrow> ('k, 'v list) gomap \<Rightarrow> 'v list" where
  "list_at k m \<equiv> (case map_of m k of Some l \<Rightarrow> l | None \<Rightarrow> [])"

lemma all_of_put: "mset (list_at k m) + all_of (mput k l m) = all_of m + mset l"
proof (induction m)
  case (Cons p m)
  obtain k' l' where p: "p = (k', l')" by (cases p)
  show ?case
  proof (cases "k' = k")
    case False
    then have "mset (list_at k (p # m)) + all_of (mput k l (p # m))
        = mset l' + (mset (list_at k m) + all_of (mput k l m))" by (simp add: p mput_simps)
    also have "\<dots> = all_of (p # m) + mset l" by (simp add: Cons.IH p)
    finally show ?thesis .
  qed (simp add: p mput_simps)
qed (simp add: mput_simps)

lemma all_of_del: "mwf m \<Longrightarrow> mset (list_at k m) + all_of (mdel k m) = all_of m"
proof (induction m)
  case (Cons p m)
  obtain k' l' where p: "p = (k', l')" by (cases p)
  show ?case
  proof (cases "k' = k")
    case True
    with Cons.prems p have k: "k \<notin> fst ` set m" by simp
    then have "AList.delete k m = m" by (simp add: AList.delete_idem)
    with True show ?thesis by (simp add: p mdel_def)
  next
    case False
    then have "mset (list_at k (p # m)) + all_of (mdel k (p # m))
        = mset l' + (mset (list_at k m) + all_of (mdel k m))" by (simp add: p mdel_def)
    also have "\<dots> = all_of (p # m)" using Cons by (simp add: p)
    finally show ?thesis .
  qed
qed (simp add: mdel_def)

lemma mset_entries: "mset (entries r) = all_of (pending r)"
  by (simp add: entries_def)

lemma pending_of_distinct:
  assumes "pend_wf r"
  shows "distinct (map pa_ptr (pending_of k r))"
proof -
  have "mset (pending_of k r) \<subseteq># mset (entries r)"
    using all_of_put [where k = k and m = "pending r" and l = "[]"]
    by (simp add: mset_entries pending_of_def) (metis mset_subset_eq_add_left)
  then have "image_mset pa_ptr (mset (pending_of k r)) \<subseteq># image_mset pa_ptr (mset (entries r))"
    by (rule image_mset_subseteq_mono)
  then show ?thesis
    using pend_wfD(4) [OF assms] by (simp flip: mset_map) (metis distinct_append mset_subset_eq_exists_conv mset_append ex_mset mset_eq_imp_distinct_iff)
qed

lemma mset_pending_of:
  assumes "pend_wf r"
  shows "mset (pending_of k r) = filter_mset (\<lambda>e. pa_ieee e = k) (mset (entries r))"
proof -
  have "distinct (pending_of k r)" "distinct (filter (\<lambda>e. pa_ieee e = k) (entries r))"
    using pending_of_distinct [OF assms] pend_wfD(4) [OF assms] by (simp_all add: distinct_map)
  moreover have "set (pending_of k r) = set (filter (\<lambda>e. pa_ieee e = k) (entries r))"
    using pending_of_iff [OF assms] by auto
  ultimately show ?thesis by (simp add: set_eq_iff_mset_eq_distinct [symmetric] flip: mset_filter)
qed

subsection \<open>What the operations do to the entries\<close>

lemma stop_timer_frame [simp]:
  "pending (stop_timer e r) = pending r" "ack_closed (stop_timer e r) = ack_closed r"
  "entries (stop_timer e r) = entries r" "ack_timeout (stop_timer e r) = ack_timeout r"
  "pending_of k (stop_timer e r) = pending_of k r"
  by (simp_all add: stop_timer_def entries_def pending_of_def)

lemma armed_stop_timer: "set (armed (stop_timer e r)) = {e' \<in> set (armed r). pa_ptr e' \<noteq> pa_ptr e}"
  by (auto simp: stop_timer_def)

lemma pend_wf_stop_timer [simp]: "pend_wf (stop_timer e r) = pend_wf r"
  by (simp add: pend_wf_def)

lemma Register_closed: "ack_closed r \<Longrightarrow> Register ptr i d s c ex r = (None, r)"
  by (simp add: Register_def Let_def)

lemma Register_open:
  assumes "\<not> ack_closed r" and "Register ptr i d s c ex r = (t, r')"
  shows "t = Some \<lparr>pa_ptr = ptr, pa_ieee = i, pa_deviceId = d, pa_serviceId = s, pa_commandId = c, pa_expected = ex\<rparr>"
    and "mset (entries r') = add_mset (the t) (mset (entries r))"
    and "set (armed r') = insert (the t) (set (armed r))"
    and "ack_closed r' = ack_closed r" and "ack_timeout r' = ack_timeout r"
  using assms all_of_put [where k = i and m = "pending r" and l = "pending_of i r @ [the t]"]
  by (auto simp: Register_def Let_def mset_entries pending_of_def)

lemma ack_wf_Register:
  assumes wf: "ack_wf r" and fresh: "ptr \<notin> pa_ptr ` set (entries r)"
    and reg: "Register ptr i d s c ex r = (t, r')"
  shows "ack_wf r'"
proof (cases "ack_closed r")
  case False
  note facts = Register_open [OF False reg]
  let ?e = "the t"
  have e: "pa_ptr ?e = ptr" "pa_ieee ?e = i" using facts(1) by simp_all
  have p: "pending r' = mput i (pending_of i r @ [?e]) (pending r)"
    using False reg by (auto simp: Register_def Let_def)
  have pw: "pend_wf r" using wf by (simp add: ack_wf_def)
  have "mset (map pa_ptr (entries r')) = mset (ptr # map pa_ptr (entries r))"
    using facts(2) e by simp
  then have "distinct (map pa_ptr (entries r')) = distinct (ptr # map pa_ptr (entries r))"
    by (rule mset_eq_imp_distinct_iff)
  then have dist: "distinct (map pa_ptr (entries r'))"
    using pend_wfD(4) [OF pw] fresh by simp
  have "l \<noteq> [] \<and> (\<forall>e \<in> set l. pa_ieee e = k)" if "(k, l) \<in> set (pending r')" for k l
    using that pend_wfD(2,3) [OF pw, of k l] pending_of_iff [OF pw, of _ i] e
    by (auto simp: p set_mput [OF pend_wfD(1) [OF pw]] split: if_splits)
  then have "pend_wf r'"
    using pend_wfD(1) [OF pw] dist False facts(4) by (auto simp: pend_wf_def p)
  moreover have "set (armed r') \<subseteq> set (entries r')"
    using wf facts(3) mset_eq_setD [of "entries r'" "the t # entries r"] facts(2)
    by (auto simp: ack_wf_def)
  ultimately show ?thesis by (simp add: ack_wf_def)
qed (use wf reg Register_closed in auto)

subsection \<open>Removing an entry\<close>

lemma removeLocked_False:
  "removeLocked e r = (False, r') \<Longrightarrow> r' = r \<and> pa_ptr e \<notin> pa_ptr ` set (pending_of (pa_ieee e) r)"
  by (force simp: removeLocked_def Let_def dropWhile_eq_Nil_conv split: list.splits)

lemma removeLocked_frame:
  "removeLocked e r = (ok, r') \<Longrightarrow>
     armed r' = armed r \<and> ack_closed r' = ack_closed r \<and> ack_timeout r' = ack_timeout r"
  by (auto simp: removeLocked_def Let_def split: list.splits)

lemma removeLocked_split:
  assumes "removeLocked e r = (True, r')"
  obtains before x after where
    "pending_of (pa_ieee e) r = before @ x # after" "pa_ptr x = pa_ptr e"
    "pending r' = (if before @ after = [] then mdel (pa_ieee e) (pending r)
                   else mput (pa_ieee e) (before @ after) (pending r))"
proof -
  let ?P = "\<lambda>x. pa_ptr x \<noteq> pa_ptr e" and ?l = "pending_of (pa_ieee e) r"
  from assms obtain x after where d: "dropWhile ?P ?l = x # after"
    by (auto simp: removeLocked_def Let_def split: list.splits)
  then have x: "pa_ptr x = pa_ptr e" by (metis (mono_tags, lifting) dropWhile_eq_Cons_conv)
  have l: "?l = takeWhile ?P ?l @ x # after" by (simp flip: d)
  have "pending r' = (if takeWhile ?P ?l @ after = [] then mdel (pa_ieee e) (pending r)
                   else mput (pa_ieee e) (takeWhile ?P ?l @ after) (pending r))"
    using assms d by (auto simp: removeLocked_def Let_def)
  with l x show thesis by (rule that)
qed

lemma removeLocked_True:
  assumes wf: "pend_wf r" and rem: "removeLocked e r = (True, r')"
  obtains x where "x \<in> set (pending_of (pa_ieee e) r)" "pa_ptr x = pa_ptr e"
    "mset (entries r) = add_mset x (mset (entries r'))" "pend_wf r'"
proof -
  from rem obtain b x a where
    l: "pending_of (pa_ieee e) r = b @ x # a" and x: "pa_ptr x = pa_ptr e" and
    p: "pending r' = (if b @ a = [] then mdel (pa_ieee e) (pending r)
                      else mput (pa_ieee e) (b @ a) (pending r))"
    by (rule removeLocked_split)
  let ?k = "pa_ieee e"
  have m: "mset (pending_of ?k r) + mset (entries r') = mset (entries r) + mset (b @ a)"
    using all_of_put [where k = ?k and m = "pending r" and l = "b @ a"]
      all_of_del [OF pend_wfD(1) [OF wf], of ?k]
    by (auto simp: p mset_entries pending_of_def)
  then have ms: "mset (entries r) = add_mset x (mset (entries r'))"
    by (simp add: l)
  have "mset (map pa_ptr (entries r)) = mset (pa_ptr x # map pa_ptr (entries r'))"
    by (simp add: ms)
  then have "distinct (map pa_ptr (entries r)) = distinct (pa_ptr x # map pa_ptr (entries r'))"
    by (rule mset_eq_imp_distinct_iff)
  then have dist: "distinct (map pa_ptr (entries r'))" using pend_wfD(4) [OF wf] by simp
  have "l' \<noteq> [] \<and> (\<forall>e \<in> set l'. pa_ieee e = k)" if "(k, l') \<in> set (pending r')" for k l'
  proof (cases "(k, l') \<in> set (pending r)")
    case True
    then show ?thesis using pend_wfD(2,3) [OF wf] by blast
  next
    case False
    with that have "k = ?k" "l' = b @ a" "b @ a \<noteq> []"
      by (auto simp: p set_mput [OF pend_wfD(1) [OF wf]] mdel_def AList.delete_eq split: if_splits)
    then show ?thesis using pending_of_iff [OF wf, of _ ?k] l by auto
  qed
  moreover have "mwf (pending r')" using pend_wfD(1) [OF wf] by (simp add: p)
  moreover have "ack_closed r' \<Longrightarrow> pending r' = []"
    using pend_wfD(5) [OF wf] l removeLocked_frame [OF rem] by (simp add: pending_of_def)
  ultimately have "pend_wf r'" using dist by (auto simp: pend_wf_def)
  with l x ms show thesis using that [of x] by simp
qed

text \<open>Of a registered entry exactly that entry is removed.\<close>

lemma removeLocked_registered:
  assumes wf: "pend_wf r" and e: "e \<in> set (entries r)"
  obtains r' where "removeLocked e r = (True, r')" "mset (entries r) = add_mset e (mset (entries r'))"
    "pend_wf r'"
proof (cases "removeLocked e r")
  case (Pair ok r')
  have pe: "e \<in> set (pending_of (pa_ieee e) r)" using pending_of_iff [OF wf] e by simp
  show thesis
  proof (cases ok)
    case True
    with Pair have rem: "removeLocked e r = (True, r')" by simp
    from wf rem obtain x where
      x: "x \<in> set (pending_of (pa_ieee e) r)" "pa_ptr x = pa_ptr e" and
      facts: "mset (entries r) = add_mset x (mset (entries r'))" "pend_wf r'"
      by (rule removeLocked_True)
    have "x = e"
      using pend_wfD(4) [OF wf] x pending_of_iff [OF wf] e by (metis distinct_map inj_onD)
    with rem facts show thesis using that by simp
  next
    case False
    with Pair removeLocked_False [of e r r'] pe show thesis by auto
  qed
qed

lemma entries_after_removal:
  assumes "pend_wf r" and "mset (entries r) = add_mset e (mset (entries r'))"
  shows "set (entries r') = {x \<in> set (entries r). pa_ptr x \<noteq> pa_ptr e}"
proof -
  have "mset (map pa_ptr (entries r)) = mset (pa_ptr e # map pa_ptr (entries r'))"
    using assms(2) by simp
  then have "distinct (map pa_ptr (entries r)) = distinct (pa_ptr e # map pa_ptr (entries r'))"
    by (rule mset_eq_imp_distinct_iff)
  then have "pa_ptr e \<notin> pa_ptr ` set (entries r')" using pend_wfD(4) [OF assms(1)] by simp
  moreover have "set (entries r) = insert e (set (entries r'))"
    using assms(2) mset_eq_setD [of "entries r" "e # entries r'"] by simp
  ultimately show ?thesis by (auto simp: image_iff)
qed

lemma ack_wf_remove_stop:
  assumes wf: "ack_wf r" and rem: "removeLocked e r = (True, r')"
  shows "ack_wf (stop_timer e r')"
proof -
  have pw: "pend_wf r" using wf by (simp add: ack_wf_def)
  from pw rem obtain x where x: "pa_ptr x = pa_ptr e"
    "mset (entries r) = add_mset x (mset (entries r'))" "pend_wf r'"
    by (rule removeLocked_True)
  from entries_after_removal [OF pw x(2)] x(1,3) wf removeLocked_frame [OF rem]
  show ?thesis by (auto simp: ack_wf_def armed_stop_timer)
qed

lemma ack_wf_cancel: "ack_wf r \<Longrightarrow> ack_wf (snd (ack_cancel t r))"
  by (auto simp: ack_cancel_def dest: ack_wf_remove_stop removeLocked_False split: option.split prod.split bool.split)

text \<open>A timer that has fired no longer runs; \<^verbatim>\<open>expire\<close> then removes its entry.\<close>

lemma ack_wf_expire:
  assumes "ack_wf r" and "pa_ptr e \<notin> pa_ptr ` set (armed r)"
  shows "ack_wf (fst (expire b e r m))"
proof (cases "removeLocked e r")
  case (Pair ok r')
  show ?thesis
  proof (cases ok)
    case True
    with Pair have rem: "removeLocked e r = (True, r')" by simp
    have "filter (\<lambda>x. pa_ptr x \<noteq> pa_ptr e) (armed r') = armed r'"
      by (intro filter_True) (use assms(2) removeLocked_frame [OF rem] in \<open>metis image_eqI\<close>)
    then have "stop_timer e r' = r'" by (simp add: stop_timer_def)
    with ack_wf_remove_stop [OF assms(1) rem] Pair True show ?thesis by (simp add: expire_def)
  next
    case False
    with Pair assms(1) removeLocked_False [of e r r'] show ?thesis by (simp add: expire_def)
  qed
qed

lemma fold_stop_timer_frame [simp]:
  "pending (fold stop_timer es r) = pending r" "ack_closed (fold stop_timer es r) = ack_closed r"
  "ack_timeout (fold stop_timer es r) = ack_timeout r"
  by (induction es arbitrary: r) auto

lemma armed_fold_stop_timer:
  "set (armed (fold stop_timer es r)) = {e \<in> set (armed r). pa_ptr e \<notin> pa_ptr ` set es}"
  by (induction es arbitrary: r) (auto simp: armed_stop_timer)

lemma ack_close_result:
  assumes "ack_wf r"
  shows "entries (ack_close r) = []" and "armed (ack_close r) = []" and "ack_closed (ack_close r)"
    and "ack_wf (ack_close r)" and "ack_timeout (ack_close r) = ack_timeout r"
proof -
  show e: "entries (ack_close r) = []" by (simp add: ack_close_def Let_def entries_def)
  have "set (armed (ack_close r)) = {e \<in> set (armed r). pa_ptr e \<notin> pa_ptr ` set (entries r)}"
    by (simp add: ack_close_def Let_def armed_fold_stop_timer entries_def)
  moreover have "set (armed r) \<subseteq> set (entries r)" using assms by (simp add: ack_wf_def)
  ultimately have "set (armed (ack_close r)) = {}" by auto
  then show a: "armed (ack_close r) = []" by simp
  show "ack_closed (ack_close r)" by (simp add: ack_close_def Let_def)
  show "ack_timeout (ack_close r) = ack_timeout r" by (simp add: ack_close_def Let_def)
  show "ack_wf (ack_close r)"
    using e a by (simp add: ack_wf_def pend_wf_def) (simp add: ack_close_def Let_def)
qed

subsection \<open>What an observed state takes out\<close>

lemma match_loop_result:
  assumes "ack_wf r" and "set es \<subseteq> set (entries r)" and "distinct (map pa_ptr es)"
    and "match_loop es state acc r = (matched, r')"
  shows "matched = acc @ filter (\<lambda>e. ackMatches (pa_expected e) state) es
    \<and> mset (entries r) = mset (filter (\<lambda>e. ackMatches (pa_expected e) state) es) + mset (entries r')
    \<and> ack_wf r' \<and> ack_closed r' = ack_closed r \<and> ack_timeout r' = ack_timeout r
    \<and> set (armed r') = {x \<in> set (armed r). x \<in> set (entries r')}"
  using assms
proof (induction es arbitrary: r acc)
  case (Cons e es)
  have pw: "pend_wf r" and arm: "set (armed r) \<subseteq> set (entries r)"
    using Cons.prems(1) by (simp_all add: ack_wf_def)
  show ?case
  proof (cases "ackMatches (pa_expected e) state")
    case True
    obtain r1 where rem: "removeLocked e r = (True, r1)"
        and ms: "mset (entries r) = add_mset e (mset (entries r1))"
      using removeLocked_registered [OF pw, of e] Cons.prems(2) by auto
    have rest: "set (entries r1) = {x \<in> set (entries r). pa_ptr x \<noteq> pa_ptr e}"
      by (rule entries_after_removal [OF pw ms])
    have sub: "set es \<subseteq> set (entries (stop_timer e r1))"
      using Cons.prems(2,3) rest by (auto simp: image_iff)
    have dist: "distinct (map pa_ptr es)"
      and loop: "match_loop es state (acc @ [e]) (stop_timer e r1) = (matched, r')"
      using Cons.prems(3,4) True rem by simp_all
    note IH = Cons.IH [OF ack_wf_remove_stop [OF Cons.prems(1) rem] sub dist loop]
    then have "mset (entries r1) = mset (filter (\<lambda>e. ackMatches (pa_expected e) state) es) + mset (entries r')"
      by simp
    then have "set (entries r') \<subseteq> set (entries r1)"
      by (metis set_mset_mset set_mset_union sup_ge2)
    with IH rest ms True removeLocked_frame [OF rem] show ?thesis
      by (auto simp: armed_stop_timer)
  qed (use Cons in simp)
qed (auto simp: ack_wf_def)

lemma observe_match_result:
  assumes wf: "ack_wf r" and obs: "observe_match ieee state r = (matched, r')"
  shows "matched = filter (\<lambda>e. ackMatches (pa_expected e) state) (pending_of ieee r)"
    and "mset (entries r) = mset matched + mset (entries r')"
    and "ack_wf r'" and "ack_closed r' = ack_closed r" and "ack_timeout r' = ack_timeout r"
    and "set (armed r') = {x \<in> set (armed r). x \<in> set (entries r')}"
proof -
  have pw: "pend_wf r" using wf by (simp add: ack_wf_def)
  have "matched = filter (\<lambda>e. ackMatches (pa_expected e) state) (pending_of ieee r)
    \<and> mset (entries r) = mset matched + mset (entries r')
    \<and> ack_wf r' \<and> ack_closed r' = ack_closed r \<and> ack_timeout r' = ack_timeout r
    \<and> set (armed r') = {x \<in> set (armed r). x \<in> set (entries r')}"
  proof (cases "ack_closed r")
    case True
    then have "pending r = []" using pend_wfD(5) [OF pw] by simp
    with True obs wf show ?thesis
      by (auto simp: observe_match_def pending_of_def ack_wf_def entries_def)
  next
    case False
    have sub: "set (pending_of ieee r) \<subseteq> set (entries r)" using pending_of_iff [OF pw] by auto
    have loop: "match_loop (pending_of ieee r) state [] r = (matched, r')"
      using obs False by (simp add: observe_match_def)
    from match_loop_result [OF wf sub pending_of_distinct [OF pw] loop] show ?thesis by simp
  qed
  then show "matched = filter (\<lambda>e. ackMatches (pa_expected e) state) (pending_of ieee r)"
    and "mset (entries r) = mset matched + mset (entries r')"
    and "ack_wf r'" and "ack_closed r' = ack_closed r" and "ack_timeout r' = ack_timeout r"
    and "set (armed r') = {x \<in> set (armed r). x \<in> set (entries r')}"
    by simp_all
qed

end
