(* ===== verification/ConnectorState.thy ===== *)
theory ConnectorState
  imports ZigbeeClient MgwClient DeviceRepo AckRegistry
begin

section \<open>The state of the connector (\<^verbatim>\<open>pkg/connector/connector.go\<close>)\<close>

text \<open>
  The struct \<^verbatim>\<open>Connector\<close> with the state of its three dependencies, and the small methods
  of \<^verbatim>\<open>device.go\<close> that every handler uses. What is not code of the repository is the record
  \<open>env\<close>, an argument of the handlers: the two MQTT brokers, the platform, the expression
  library of the service conditions, the indented JSON printer of an error text, and the
  texts of JSON errors.

  The \<^verbatim>\<open>ctx\<close> the connector passes to the zigbee client is nil, so a lookup waits at most one
  minute for the first device list: \<open>CtxDeadline\<close>.
\<close>

record env =
  conf :: config
  zbroker :: broker
  mbroker :: broker
  platform :: remote
  new_expression :: "string \<Rightarrow> string option"
  evaluate :: "string \<Rightarrow> (go_value list \<Rightarrow> string + go_value) \<Rightarrow> (string, go_value) gomap \<Rightarrow>
      string + go_value"
  marshal_indent :: "(string, go_value) gomap \<Rightarrow> string"
  json_error :: "string \<Rightarrow> string"

record connector =
  zigbee :: zclient
  mgw :: mgw_client
  devicerepo :: repo
  devicestate :: "(string, mgw_state) gomap"
  deviceAttributes :: "mgw_attribute list"
  acks :: "ack_registry option"

subsection \<open>Device ids and states\<close>

definition getDeviceId :: "config \<Rightarrow> device_info \<Rightarrow> string" where
  "getDeviceId cfg device = DeviceIdPrefix cfg @ IeeeAddress device"

definition getDeviceIeeeAddress :: "config \<Rightarrow> string \<Rightarrow> string option" where
  "getDeviceIeeeAddress cfg deviceId =
     (if HasPrefix deviceId (DeviceIdPrefix cfg)
      then Some (TrimPrefix deviceId (DeviceIdPrefix cfg)) else None)"

definition getDeviceName :: "device_info \<Rightarrow> string" where
  "getDeviceName device = FriendlyName device"

definition getDeviceState :: "device_info \<Rightarrow> mgw_state" where
  "getDeviceState device = (if Disabled device then Offline else Online)"

definition storeDeviceState :: "string \<Rightarrow> mgw_state \<Rightarrow> connector \<Rightarrow> connector" where
  "storeDeviceState ieeeAddr st c = c\<lparr>devicestate := mput ieeeAddr st (devicestate c)\<rparr>"

definition getStoredDeviceState :: "string \<Rightarrow> connector \<Rightarrow> mgw_state \<times> bool" where
  "getStoredDeviceState ieeeAddr c =
     (case map_of (devicestate c) ieeeAddr of Some st \<Rightarrow> (st, True) | None \<Rightarrow> (NoState, False))"

definition deviceIsOnline :: "string \<Rightarrow> connector \<Rightarrow> bool" where
  "deviceIsOnline ieeeAddress c \<longleftrightarrow> fst (getStoredDeviceState ieeeAddress c) = Online"

lemma getDeviceIeeeAddress_iff:
  "getDeviceIeeeAddress cfg deviceId = Some ieee \<longleftrightarrow> deviceId = DeviceIdPrefix cfg @ ieee"
  by (auto simp: getDeviceIeeeAddress_def elim: HasPrefixE)

lemma deviceIsOnline_iff:
  "deviceIsOnline ieee c \<longleftrightarrow> map_of (devicestate c) ieee = Some Online"
  by (simp add: deviceIsOnline_def getStoredDeviceState_def split: option.split)

subsection \<open>Calls into the dependencies\<close>

text \<open>The methods of the connector's interfaces on the whole state.\<close>

definition with_mgw :: "(mgw_client \<Rightarrow> 'a \<times> mgw_client) \<Rightarrow> connector \<Rightarrow> 'a \<times> connector" where
  "with_mgw f c = (case f (mgw c) of (x, m) \<Rightarrow> (x, c\<lparr>mgw := m\<rparr>))"

definition with_zigbee :: "(zclient \<Rightarrow> 'a \<times> zclient) \<Rightarrow> connector \<Rightarrow> 'a \<times> connector" where
  "with_zigbee f c = (case f (zigbee c) of (x, z) \<Rightarrow> (x, c\<lparr>zigbee := z\<rparr>))"

definition with_repo :: "(repo \<Rightarrow> 'a \<times> repo) \<Rightarrow> connector \<Rightarrow> 'a \<times> connector" where
  "with_repo f c = (case f (devicerepo c) of (x, r) \<Rightarrow> (x, c\<lparr>devicerepo := r\<rparr>))"

definition c_Respond ::
    "env \<Rightarrow> string \<Rightarrow> string \<Rightarrow> command \<Rightarrow> connector \<Rightarrow> goerr option \<times> connector" where
  "c_Respond E deviceId serviceId response = with_mgw (Respond (mbroker E) deviceId serviceId response)"

definition c_SendCommandError :: "env \<Rightarrow> string \<Rightarrow> string \<Rightarrow> connector \<Rightarrow> connector" where
  "c_SendCommandError E commandId msg c = c\<lparr>mgw := SendCommandError (mbroker E) commandId msg (mgw c)\<rparr>"

definition c_SendClientError :: "env \<Rightarrow> string \<Rightarrow> connector \<Rightarrow> connector" where
  "c_SendClientError E msg c =
     c\<lparr>mgw := SendClientError (mbroker E) (ConnectorId (conf E)) msg (mgw c)\<rparr>"

definition c_SendDeviceError :: "env \<Rightarrow> string \<Rightarrow> string \<Rightarrow> connector \<Rightarrow> connector" where
  "c_SendDeviceError E deviceId msg c =
     c\<lparr>mgw := SendDeviceError (mbroker E) (ConnectorId (conf E)) deviceId msg (mgw c)\<rparr>"

definition c_SetDevice ::
    "env \<Rightarrow> string \<Rightarrow> device_update \<Rightarrow> connector \<Rightarrow> goerr option \<times> connector" where
  "c_SetDevice E deviceId info = with_mgw (SetDevice (mbroker E) (ConnectorId (conf E)) deviceId info)"

definition c_SendEvent ::
    "env \<Rightarrow> string \<Rightarrow> string \<Rightarrow> string \<Rightarrow> connector \<Rightarrow> goerr option \<times> connector" where
  "c_SendEvent E deviceId serviceId msg = with_mgw (SendEvent (mbroker E) deviceId serviceId msg)"

definition c_SetByIeee :: "env \<Rightarrow> string \<Rightarrow> string \<Rightarrow> connector \<Rightarrow> goerr option \<times> connector" where
  "c_SetByIeee E ieee pl = with_zigbee (z_SetByIeee (conf E) (zbroker E) CtxDeadline ieee pl)"

definition c_GetByIeee :: "string \<Rightarrow> connector \<Rightarrow> goerr + string" where
  "c_GetByIeee ieee c = z_GetByIeee CtxDeadline ieee (zigbee c)"

lemma with_simps [simp]:
  "with_mgw f c = (fst (f (mgw c)), c\<lparr>mgw := snd (f (mgw c))\<rparr>)"
  "with_zigbee f' c = (fst (f' (zigbee c)), c\<lparr>zigbee := snd (f' (zigbee c))\<rparr>)"
  "with_repo f'' c = (fst (f'' (devicerepo c)), c\<lparr>devicerepo := snd (f'' (devicerepo c))\<rparr>)"
  by (simp_all add: with_mgw_def with_zigbee_def with_repo_def split: prod.split)

lemma c_ops_frame [simp]:
  "zigbee (snd (c_Respond E d s r c)) = zigbee c" "devicestate (snd (c_Respond E d s r c)) = devicestate c"
  "acks (snd (c_Respond E d s r c)) = acks c" "devicerepo (snd (c_Respond E d s r c)) = devicerepo c"
  "zigbee (c_SendCommandError E i t c) = zigbee c"
  "devicestate (c_SendCommandError E i t c) = devicestate c"
  "acks (c_SendCommandError E i t c) = acks c" "devicerepo (c_SendCommandError E i t c) = devicerepo c"
  by (simp_all add: c_Respond_def c_SendCommandError_def)

text \<open>The messages the gateway has accepted.\<close>

definition sent :: "connector \<Rightarrow> mqtt_msg list" where
  "sent c = accepted (mtrace (mgw c))"

definition message_on :: "string \<Rightarrow> string \<Rightarrow> mqtt_msg" where
  "message_on topic pl = \<lparr>msg_topic = topic, msg_qos = 2, msg_retained = False, msg_payload = pl\<rparr>"

text \<open>
  The contract of a call that reports whether its one message went out: a log grows by
  that message exactly when the call reports no error.
\<close>

locale reports =
  fixes call :: "'s \<Rightarrow> goerr option \<times> 's" and log :: "'s \<Rightarrow> mqtt_msg list" and message :: mqtt_msg
  assumes reported: "log (snd (call s)) =
     log s @ (if fst (call s) = None then [message] else [])"
begin

text \<open>With a fallback that also reports, at most one of the two messages goes out.\<close>

lemma at_most_one: "\<exists>l. log (snd (call s)) = log s @ l \<and> length l \<le> 1 \<and> set l \<subseteq> {message}"
  by (cases "fst (call s)") (simp_all add: reported)

lemma ok_logged: "fst (call s) = None \<Longrightarrow> log (snd (call s)) = log s @ [message]"
  by (simp add: reported)

lemma failed_unlogged: "fst (call s) = Some e \<Longrightarrow> log (snd (call s)) = log s"
  by (simp add: reported)

end

interpretation publishing: reports "mgw_publish b topic pl" "\<lambda>m. accepted (mtrace m)" "message_on topic pl"
  for b topic pl
  by unfold_locales (simp add: mgw_publish_accepted message_on_def)

interpretation responding: reports "c_Respond E d s r" sent
    "message_on (''response/'' @ d @ ''/'' @ s) (enc_command r)" for E d s r
  by unfold_locales (simp add: c_Respond_def sent_def Respond_def mgw_publish_accepted message_on_def)

interpretation setting_device: reports "c_SetDevice E d info" sent
    "message_on (''device-manager/device/'' @ ConnectorId (conf E)) (enc_update ''set'' d info)" for E d info
  by unfold_locales (simp add: c_SetDevice_def sent_def SetDevice_def SendDeviceUpdate_def
      DeviceManagerTopic_def mgw_publish_accepted message_on_def)

interpretation sending_event: reports "c_SendEvent E d s pl" sent
    "message_on (''event/'' @ d @ ''/'' @ s) pl" for E d s pl
  by unfold_locales (simp add: c_SendEvent_def sent_def SendEvent_def mgw_publish_accepted message_on_def)

interpretation zigbee_send: reports "z_send b t q ret pl" "\<lambda>z. accepted (ztrace z)"
    "\<lparr>msg_topic = t, msg_qos = q, msg_retained = ret, msg_payload = pl\<rparr>" for b t q ret pl
  by unfold_locales (simp add: z_send_accepted)

text \<open>An error message goes out or is lost; with a broker that accepts everything it goes out.\<close>

lemma sent_SendCommandError:
  "\<exists>l. sent (c_SendCommandError E i t c) = sent c @ l \<and> length l \<le> 1
     \<and> set l \<subseteq> {message_on (''error/command/'' @ i) t}"
  using publishing.at_most_one [of "mbroker E" "''error/command/'' @ i" t "mgw c"]
  by (simp add: c_SendCommandError_def sent_def SendCommandError_def)

lemma reliable_publish: "fst (mgw_publish reliable t pl m) = None"
  by (simp add: mgw_publish_def ask_def reliable_def)

lemma sent_SendCommandError_reliable:
  "mbroker E = reliable \<Longrightarrow> sent (c_SendCommandError E i t c) = sent c @ [message_on (''error/command/'' @ i) t]"
  using publishing.ok_logged [OF reliable_publish, of "''error/command/'' @ i" t "mgw c"]
  by (simp add: c_SendCommandError_def sent_def SendCommandError_def)

lemma Respond_reliable: "mbroker E = reliable \<Longrightarrow> fst (c_Respond E d s r c) = None"
  by (simp add: c_Respond_def Respond_def reliable_publish)

end
