(* ===== verification/CommandHandling.thy ===== *)
theory CommandHandling
  imports ConnectorState
begin

section \<open>Command handling (\<^verbatim>\<open>pkg/connector/command.go\<close>)\<close>

text \<open>
  \<^verbatim>\<open>handleCommand\<close> and \<^verbatim>\<open>handleSet\<close>. A set command runs in three parts, between which the
  goroutines of the registry may run: it registers with the registry, publishes, and then
  decides how the command is answered. The parts are separate definitions, so that the
  protocol can interleave them; \<open>handleSet\<close> is their composition.
\<close>

record command_desc =
  cd_DeviceId :: string
  cd_ServiceId :: string
  cd_Command :: command

subsection \<open>What is known of the device\<close>

definition state_of_value :: "goerr + string \<Rightarrow> (string, go_value) gomap" where
  "state_of_value v =
     (case v of
        Inl _ \<Rightarrow> []
      | Inr raw \<Rightarrow> (case unmarshal_map raw of None \<Rightarrow> [] | Some state \<Rightarrow> state))"

definition getLastState :: "string \<Rightarrow> connector \<Rightarrow> (string, go_value) gomap" where
  "getLastState ieee c = state_of_value (c_GetByIeee ieee c)"

definition getExposes :: "string \<Rightarrow> connector \<Rightarrow> feature list" where
  "getExposes ieee c =
     (case z_GetDeviceList CtxDeadline (zigbee c) of
        Inl _ \<Rightarrow> []
      | Inr devices \<Rightarrow>
          (case find (\<lambda>device. IeeeAddress device = ieee) devices of
             Some device \<Rightarrow> Exposes (Definition device)
           | None \<Rightarrow> []))"

subsection \<open>Answers\<close>

text \<open>
  The ways a set command is answered: with a matching state or a timeout by the goroutines
  of the registry, with an error or an empty response by the handler.
\<close>

datatype answer =
    StateAnswer pendingAck string
  | TimeoutAnswer int pendingAck
  | ErrorAnswer string string
  | EmptyAnswer string string string

definition send_answer :: "env \<Rightarrow> answer \<Rightarrow> connector \<Rightarrow> connector" where
  "send_answer E a c =
     (case a of
        StateAnswer entry data \<Rightarrow> c\<lparr>mgw := deliver (mbroker E) entry data (mgw c)\<rparr>
      | TimeoutAnswer timeout entry \<Rightarrow> c\<lparr>mgw := expire_fail (mbroker E) timeout entry (mgw c)\<rparr>
      | ErrorAnswer commandId msg \<Rightarrow> c_SendCommandError E commandId msg c
      | EmptyAnswer deviceId serviceId commandId \<Rightarrow>
          (case c_Respond E deviceId serviceId \<lparr>CommandId = commandId, Data = []\<rparr> c of
             (None, c1) \<Rightarrow> c1
           | (Some err, c1) \<Rightarrow>
               c_SendCommandError E commandId (''unable to send empty response: '' @ error_text err) c1))"

subsection \<open>The set command\<close>

text \<open>
  The first part; the result is the variable \<^verbatim>\<open>cancelAck\<close>, \<open>None\<close> when it is nil. \<open>ptr\<close> is
  the address of the entry that \<^verbatim>\<open>Register\<close> allocates. The device's features and last state
  are read first, so that the registration proper takes what was expected then.
\<close>

definition set_register_with ::
    "nat \<Rightarrow> string \<Rightarrow> command_desc \<Rightarrow> (string, go_value) gomap \<times> bool \<Rightarrow> connector \<Rightarrow>
       pendingAck option option \<times> connector" where
  "set_register_with ptr ieee d expectation c =
     (case acks c of
        None \<Rightarrow> (None, c)
      | Some r \<Rightarrow>
          (case expectation of
             (expected, ok) \<Rightarrow>
               if ok then
                 (case Register ptr ieee (cd_DeviceId d) (cd_ServiceId d) (CommandId (cd_Command d)) expected r of
                    (ticket, r') \<Rightarrow> (Some ticket, c\<lparr>acks := Some r'\<rparr>))
               else (None, c)))"

definition set_register ::
    "nat \<Rightarrow> string \<Rightarrow> command_desc \<Rightarrow> connector \<Rightarrow> pendingAck option option \<times> connector" where
  "set_register ptr ieee d c =
     (case acks c of
        None \<Rightarrow> (None, c)
      | Some r \<Rightarrow> set_register_with ptr ieee d
          (ackExpectation (Data (cd_Command d)) (getExposes ieee c) (getLastState ieee c)) c)"

lemma set_register_reads:
  "set_register ptr ieee d c = set_register_with ptr ieee d
     (ackExpectation (Data (cd_Command d)) (getExposes ieee c) (getLastState ieee c)) c"
  by (simp add: set_register_def set_register_with_def split: option.split)

definition set_publish :: "env \<Rightarrow> string \<Rightarrow> command_desc \<Rightarrow> connector \<Rightarrow> goerr option \<times> connector" where
  "set_publish E ieee d c = c_SetByIeee E ieee (Data (cd_Command d)) c"

definition run_cancel :: "pendingAck option \<Rightarrow> connector \<Rightarrow> bool \<times> connector" where
  "run_cancel ticket c =
     (case acks c of
        None \<Rightarrow> (True, c)
      | Some r \<Rightarrow> (case ack_cancel ticket r of (ok, r') \<Rightarrow> (ok, c\<lparr>acks := Some r'\<rparr>)))"

text \<open>The last part up to the answer: \<open>None\<close> if the handler returns without answering.\<close>

definition set_decide ::
    "command_desc \<Rightarrow> pendingAck option option \<Rightarrow> goerr option \<Rightarrow> connector \<Rightarrow> answer option \<times> connector" where
  "set_decide d cancelAck err c =
     (let commandId = CommandId (cd_Command d) in
      case err of
        Some e \<Rightarrow>
          (let failed = ErrorAnswer commandId (''unable to send command to zigbee-mqtt: '' @ error_text e) in
           case cancelAck of
             None \<Rightarrow> (Some failed, c)
           | Some ticket \<Rightarrow>
               (case run_cancel ticket c of
                  (False, c') \<Rightarrow> (None, c')
                | (True, c') \<Rightarrow> (Some failed, c')))
      | None \<Rightarrow>
          (case cancelAck of
             Some _ \<Rightarrow> (None, c)
           | None \<Rightarrow> (Some (EmptyAnswer (cd_DeviceId d) (cd_ServiceId d) commandId), c)))"

definition handleSet :: "env \<Rightarrow> nat \<Rightarrow> string \<Rightarrow> command_desc \<Rightarrow> connector \<Rightarrow> connector" where
  "handleSet E ptr ieee d c =
     (case set_register ptr ieee d c of
        (cancelAck, c1) \<Rightarrow>
          (case set_publish E ieee d c1 of
             (err, c2) \<Rightarrow>
               (case set_decide d cancelAck err c2 of
                  (None, c3) \<Rightarrow> c3
                | (Some a, c3) \<Rightarrow> send_answer E a c3)))"

subsection \<open>The handler\<close>

text \<open>The value is read first; \<open>answer_get\<close> is the rest.\<close>

definition answer_get :: "env \<Rightarrow> command_desc \<Rightarrow> goerr + string \<Rightarrow> connector \<Rightarrow> connector" where
  "answer_get E d v c =
     (let commandId = CommandId (cd_Command d) in
      case v of
        Inl err \<Rightarrow> c_SendCommandError E commandId (''unable to get zigbee-value: '' @ error_text err) c
      | Inr msg \<Rightarrow>
          (case c_Respond E (cd_DeviceId d) (cd_ServiceId d) \<lparr>CommandId = commandId, Data = msg\<rparr> c of
             (None, c1) \<Rightarrow> c1
           | (Some err, c1) \<Rightarrow>
               c_SendCommandError E commandId (''unable to send get result: '' @ error_text err) c1))"

definition handleGet :: "env \<Rightarrow> string \<Rightarrow> command_desc \<Rightarrow> connector \<Rightarrow> connector" where
  "handleGet E ieee d c = answer_get E d (c_GetByIeee ieee c) c"

definition handleCommand :: "env \<Rightarrow> nat \<Rightarrow> command_desc \<Rightarrow> connector \<Rightarrow> connector" where
  "handleCommand E ptr d c =
     (case getDeviceIeeeAddress (conf E) (cd_DeviceId d) of
        None \<Rightarrow> c
      | Some ieee \<Rightarrow>
          if cd_ServiceId d = ''set'' then handleSet E ptr ieee d c
          else if cd_ServiceId d = ''get'' then handleGet E ieee d c
          else c_SendCommandError E (CommandId (cd_Command d))
                 (''use of unknown service: '' @ cd_ServiceId d) c)"

subsection \<open>An answer is one message\<close>

text \<open>The messages that answer a command.\<close>

definition answers_to :: "string \<Rightarrow> string \<Rightarrow> string \<Rightarrow> mqtt_msg \<Rightarrow> bool" where
  "answers_to deviceId serviceId commandId msg \<longleftrightarrow>
     (\<exists>t. msg = message_on (''error/command/'' @ commandId) t)
     \<or> (\<exists>data. msg = message_on (''response/'' @ deviceId @ ''/'' @ serviceId)
                        (enc_command \<lparr>CommandId = commandId, Data = data\<rparr>))"

definition respond_or_fail ::
    "env \<Rightarrow> string \<Rightarrow> string \<Rightarrow> command \<Rightarrow> string \<Rightarrow> connector \<Rightarrow> connector" where
  "respond_or_fail E d s r failure c =
     (case c_Respond E d s r c of
        (None, c1) \<Rightarrow> c1
      | (Some err, c1) \<Rightarrow> c_SendCommandError E (CommandId r) (failure @ error_text err) c1)"

lemma respond_or_fail_sent:
  "\<exists>l. sent (respond_or_fail E d s r failure c) = sent c @ l \<and> length l \<le> 1
     \<and> (\<forall>msg \<in> set l. answers_to d s (CommandId r) msg)"
proof (cases "c_Respond E d s r c")
  case (Pair x c1)
  show ?thesis
  proof (cases x)
    case None
    with Pair responding.ok_logged [of E d s r c]
    have "sent c1 = sent c @ [message_on (''response/'' @ d @ ''/'' @ s) (enc_command r)]" by simp
    moreover have "answers_to d s (CommandId r) (message_on (''response/'' @ d @ ''/'' @ s) (enc_command r))"
      unfolding answers_to_def by (cases r) auto
    ultimately show ?thesis by (simp add: respond_or_fail_def Pair None)
  next
    case (Some e)
    with Pair responding.failed_unlogged [of E d s r c e] have "sent c1 = sent c" by simp
    with Pair Some sent_SendCommandError [of E "CommandId r" "failure @ error_text e" c1]
    show ?thesis by (auto simp: respond_or_fail_def answers_to_def)
  qed
qed

lemma respond_or_fail_reliable:
  assumes "mbroker E = reliable"
  shows "sent (respond_or_fail E d s r failure c) =
    sent c @ [message_on (''response/'' @ d @ ''/'' @ s) (enc_command r)]"
  using Respond_reliable [OF assms, of d s r c] responding.ok_logged [of E d s r c]
  by (cases "c_Respond E d s r c") (simp add: respond_or_fail_def)

text \<open>The places that respond are instances.\<close>

lemma send_answer_simps:
  "send_answer E (StateAnswer e data) c =
     respond_or_fail E (pa_deviceId e) (pa_serviceId e) \<lparr>CommandId = pa_commandId e, Data = data\<rparr>
       ''unable to send set response: '' c"
  "send_answer E (TimeoutAnswer t e) c = c_SendCommandError E (pa_commandId e) (expire_message e t) c"
  "send_answer E (ErrorAnswer i msg) c = c_SendCommandError E i msg c"
  "send_answer E (EmptyAnswer d s i) c =
     respond_or_fail E d s \<lparr>CommandId = i, Data = []\<rparr> ''unable to send empty response: '' c"
  by (simp_all add: send_answer_def respond_or_fail_def deliver_def expire_fail_def
      c_Respond_def c_SendCommandError_def split: prod.split option.split)

lemma handleGet_respond:
  "handleGet E ieee d c =
     (case c_GetByIeee ieee c of
        Inl err \<Rightarrow> c_SendCommandError E (CommandId (cd_Command d))
          (''unable to get zigbee-value: '' @ error_text err) c
      | Inr msg \<Rightarrow> respond_or_fail E (cd_DeviceId d) (cd_ServiceId d)
          \<lparr>CommandId = CommandId (cd_Command d), Data = msg\<rparr> ''unable to send get result: '' c)"
  by (simp add: handleGet_def answer_get_def respond_or_fail_def Let_def split: sum.split prod.split option.split)

text \<open>An answer to a command of a device's service.\<close>

fun addressed :: "answer \<Rightarrow> string \<Rightarrow> string \<Rightarrow> string \<Rightarrow> bool" where
  "addressed (StateAnswer e data) d s i \<longleftrightarrow> pa_deviceId e = d \<and> pa_serviceId e = s \<and> pa_commandId e = i"
| "addressed (TimeoutAnswer t e) d s i \<longleftrightarrow> pa_deviceId e = d \<and> pa_serviceId e = s \<and> pa_commandId e = i"
| "addressed (ErrorAnswer j msg) d s i \<longleftrightarrow> j = i"
| "addressed (EmptyAnswer d' s' j) d s i \<longleftrightarrow> d' = d \<and> s' = s \<and> j = i"

lemma SendCommandError_answers:
  "\<exists>l. sent (c_SendCommandError E i t c) = sent c @ l \<and> length l \<le> 1 \<and> (\<forall>msg \<in> set l. answers_to d s i msg)"
  using sent_SendCommandError [of E i t c] by (auto simp: answers_to_def)

lemma send_answer_sent:
  assumes "addressed a d s i"
  shows "\<exists>l. sent (send_answer E a c) = sent c @ l \<and> length l \<le> 1 \<and> (\<forall>msg \<in> set l. answers_to d s i msg)"
proof (cases a)
  case (StateAnswer e data)
  with assms respond_or_fail_sent [of E d s "\<lparr>CommandId = i, Data = data\<rparr>" "''unable to send set response: ''" c]
  show ?thesis by (simp add: send_answer_simps)
next
  case (EmptyAnswer d' s' j)
  with assms respond_or_fail_sent [of E d s "\<lparr>CommandId = i, Data = []\<rparr>" "''unable to send empty response: ''" c]
  show ?thesis by (simp add: send_answer_simps)
qed (use assms SendCommandError_answers in \<open>simp_all add: send_answer_simps\<close>)

lemma send_answer_reliable:
  assumes "mbroker E = reliable"
  shows "\<exists>msg. sent (send_answer E a c) = sent c @ [msg]"
  by (cases a) (simp_all add: send_answer_simps respond_or_fail_reliable [OF assms]
      sent_SendCommandError_reliable [OF assms])

lemma send_answer_frame [simp]:
  "acks (send_answer E a c) = acks c" "zigbee (send_answer E a c) = zigbee c"
  "devicestate (send_answer E a c) = devicestate c" "devicerepo (send_answer E a c) = devicerepo c"
proof -
  have "acks (send_answer E a c) = acks c \<and> zigbee (send_answer E a c) = zigbee c
      \<and> devicestate (send_answer E a c) = devicestate c \<and> devicerepo (send_answer E a c) = devicerepo c"
    by (cases a) (auto simp: send_answer_def c_Respond_def c_SendCommandError_def split: prod.split option.split)
  then show "acks (send_answer E a c) = acks c" "zigbee (send_answer E a c) = zigbee c"
    "devicestate (send_answer E a c) = devicestate c" "devicerepo (send_answer E a c) = devicerepo c" by simp_all
qed

end
