(* ===== verification/SetProtocol.thy ===== *)
theory SetProtocol
  imports CommandHandling "HOL-Library.Multiset"
begin

section \<open>The goroutines around a set command\<close>

text \<open>
  The command goroutine, the MQTT callbacks, the timers, the answering goroutines and the
  shutdown watcher run concurrently. The state \<open>sys\<close> has one component per kind of
  goroutine, a step is what one of them does between two points where another can run, and
  any order of steps is allowed. A set command is named by its position in \<open>commands\<close>,
  which is also the address of the entry it may register: both are new for every command.

  \<open>internal\<close> steps are goroutines that already run and timers that already tick,
  \<open>external\<close> steps are new commands, messages of zigbee2mqtt, everything else the connector
  does (it never touches the registry), and the shutdown. \<open>answered\<close> is a record of the
  answers given, with the messages the gateway accepted for each.
\<close>

datatype stage =
    Registered "pendingAck option option"
  | Published "pendingAck option option" "goerr option"
  | Answering answer

record sys =
  con :: connector
  commands :: "command_desc list"
  handling :: "(nat \<times> string \<times> stage) option"
  calls :: "(string \<times> string) list"
  observing :: "(string \<times> string \<times> (string, go_value) gomap) list"
  firing :: "pendingAck list"
  failing :: "pendingAck list"
  delivering :: "(pendingAck \<times> string) list"
  answered :: "(nat \<times> answer \<times> mqtt_msg list) list"
  watcher :: bool
  wg :: int

definition answer_now :: "env \<Rightarrow> nat \<Rightarrow> answer \<Rightarrow> sys \<Rightarrow> sys" where
  "answer_now E n a s =
     (let c = send_answer E a (con s) in
      s\<lparr>con := c, answered := answered s @ [(n, a, drop (length (sent (con s))) (sent c))]\<rparr>)"

definition set_reg :: "ack_registry \<Rightarrow> sys \<Rightarrow> sys" where
  "set_reg r s = s\<lparr>con := (con s)\<lparr>acks := Some r\<rparr>\<rparr>"

inductive internal :: "env \<Rightarrow> sys \<Rightarrow> sys \<Rightarrow> bool" for E where
  publish: "handling s = Some (n, ieee, Registered t) \<Longrightarrow>
    set_publish E ieee (commands s ! n) (con s) = (err, c') \<Longrightarrow>
    internal E s (s\<lparr>con := c', handling := Some (n, ieee, Published t err)\<rparr>)"
| decide_answer: "handling s = Some (n, ieee, Published t err) \<Longrightarrow>
    set_decide (commands s ! n) t err (con s) = (Some a, c') \<Longrightarrow>
    internal E s (s\<lparr>con := c', handling := Some (n, ieee, Answering a)\<rparr>)"
| decide_return: "handling s = Some (n, ieee, Published t err) \<Longrightarrow>
    set_decide (commands s ! n) t err (con s) = (None, c') \<Longrightarrow>
    internal E s (s\<lparr>con := c', handling := None\<rparr>)"
| reply: "handling s = Some (n, ieee, Answering a) \<Longrightarrow>
    internal E s ((answer_now E n a s)\<lparr>handling := None\<rparr>)"
| observe_start: "(ieee, pl) \<in> set (calls s) \<Longrightarrow> acks (con s) = Some r \<Longrightarrow>
    observe_begin ieee pl r = Some st \<Longrightarrow>
    internal E s (s\<lparr>calls := remove1 (ieee, pl) (calls s), observing := observing s @ [(ieee, pl, st)]\<rparr>)"
| observe_skip: "(ieee, pl) \<in> set (calls s) \<Longrightarrow> acks (con s) = Some r \<Longrightarrow>
    observe_begin ieee pl r = None \<Longrightarrow>
    internal E s (s\<lparr>calls := remove1 (ieee, pl) (calls s)\<rparr>)"
| observe_end: "(ieee, pl, st) \<in> set (observing s) \<Longrightarrow> acks (con s) = Some r \<Longrightarrow>
    observe_match ieee st r = (matched, r') \<Longrightarrow>
    internal E s ((set_reg r' s)\<lparr>observing := remove1 (ieee, pl, st) (observing s),
      delivering := delivering s @ map (\<lambda>e. (e, pl)) matched, wg := wg s + int (length matched)\<rparr>)"
| deliver: "(e, pl) \<in> set (delivering s) \<Longrightarrow>
    internal E s ((answer_now E (pa_ptr e) (StateAnswer e pl) s)
      \<lparr>delivering := remove1 (e, pl) (delivering s), wg := wg s - 1\<rparr>)"
| fire: "acks (con s) = Some r \<Longrightarrow> e \<in> set (armed r) \<Longrightarrow>
    internal E s ((set_reg (stop_timer e r) s)\<lparr>firing := firing s @ [e]\<rparr>)"
| expire_gone: "e \<in> set (firing s) \<Longrightarrow> acks (con s) = Some r \<Longrightarrow> removeLocked e r = (False, r') \<Longrightarrow>
    internal E s ((set_reg r' s)\<lparr>firing := remove1 e (firing s)\<rparr>)"
| expire_take: "e \<in> set (firing s) \<Longrightarrow> acks (con s) = Some r \<Longrightarrow> removeLocked e r = (True, r') \<Longrightarrow>
    internal E s ((set_reg r' s)\<lparr>firing := remove1 e (firing s), failing := failing s @ [e]\<rparr>)"
| fail: "e \<in> set (failing s) \<Longrightarrow> acks (con s) = Some r \<Longrightarrow>
    internal E s ((answer_now E (pa_ptr e) (TimeoutAnswer (ack_timeout r) e) s)
      \<lparr>failing := remove1 e (failing s)\<rparr>)"

inductive external :: "env \<Rightarrow> sys \<Rightarrow> sys \<Rightarrow> bool" for E where
  take_set: "handling s = None \<Longrightarrow> cd_ServiceId d = ''set'' \<Longrightarrow>
    getDeviceIeeeAddress (conf E) (cd_DeviceId d) = Some ieee \<Longrightarrow>
    expectation = ackExpectation (Data (cd_Command d)) exposes lastState \<Longrightarrow>
    set_register_with (length (commands s)) ieee d expectation (con s) = (t, c') \<Longrightarrow>
    external E s (s\<lparr>con := c', commands := commands s @ [d],
      handling := Some (length (commands s), ieee, Registered t)\<rparr>)"
| state_observed: "external E s (s\<lparr>calls := calls s @ (if acks (con s) = None then [] else [(ieee, pl)])\<rparr>)"
| other: "acks c' = acks (con s) \<Longrightarrow> external E s (s\<lparr>con := c'\<rparr>)"
| close: "acks (con s) = Some r \<Longrightarrow> watcher s \<Longrightarrow> \<not> ack_closed r \<Longrightarrow> external E s (set_reg (ack_close r) s)"
| watcher_done: "acks (con s) = Some r \<Longrightarrow> watcher s \<Longrightarrow> ack_closed r \<Longrightarrow>
    external E s (s\<lparr>watcher := False, wg := wg s - 1\<rparr>)"

definition step :: "env \<Rightarrow> sys \<Rightarrow> sys \<Rightarrow> bool" where
  "step E s s' \<longleftrightarrow> internal E s s' \<or> external E s s'"

text \<open>The start: nothing runs; with acknowledgements the watcher of the registry does.\<close>

definition sys_start :: "connector \<Rightarrow> sys" where
  "sys_start c = \<lparr>con = c, commands = [], handling = None, calls = [], observing = [], firing = [],
     failing = [], delivering = [], answered = [], watcher = (acks c \<noteq> None),
     wg = (if acks c = None then 0 else 1)\<rparr>"

definition starting :: "connector \<Rightarrow> bool" where
  "starting c \<longleftrightarrow> (case acks c of None \<Rightarrow> True | Some r \<Rightarrow> pending r = [] \<and> \<not> ack_closed r \<and> armed r = [])"

inductive reachable :: "env \<Rightarrow> sys \<Rightarrow> bool" for E where
  start: "starting c \<Longrightarrow> reachable E (sys_start c)"
| step: "reachable E s \<Longrightarrow> step E s s' \<Longrightarrow> reachable E s'"

inductive_cases internalE: "internal E s s'"
inductive_cases externalE: "external E s s'"

definition is_open :: "sys \<Rightarrow> bool" where
  "is_open s \<longleftrightarrow> (case acks (con s) of None \<Rightarrow> True | Some r \<Rightarrow> \<not> ack_closed r)"

subsection \<open>The parts of a set command\<close>

lemma register_with_cases:
  assumes "set_register_with ptr ieee d expectation c = (t, c')"
  obtains (no_ack) "t = None" "c' = c"
  | (closed) r where "acks c = Some r" "ack_closed r" "t = Some None" "c' = c\<lparr>acks := Some r\<rparr>"
  | (registered) r r' e where "acks c = Some r" "\<not> ack_closed r" "t = Some (Some e)"
      "Register ptr ieee (cd_DeviceId d) (cd_ServiceId d) (CommandId (cd_Command d)) (pa_expected e) r = (Some e, r')"
      "c' = c\<lparr>acks := Some r'\<rparr>" "pa_ptr e = ptr" "pa_ieee e = ieee" "pa_deviceId e = cd_DeviceId d"
      "pa_serviceId e = cd_ServiceId d" "pa_commandId e = CommandId (cd_Command d)"
      "expectation = (pa_expected e, True)"
proof (cases "acks c")
  case None
  with assms show thesis by (auto simp: set_register_with_def intro: no_ack)
next
  case (Some r)
  obtain ex ok where ex: "expectation = (ex, ok)" by fastforce
  show thesis
  proof (cases "ok \<and> \<not> ack_closed r")
    case True
    let ?R = "Register ptr ieee (cd_DeviceId d) (cd_ServiceId d) (CommandId (cd_Command d)) ex r"
    obtain x r' where R: "?R = (x, r')" by fastforce
    then have x: "x = Some \<lparr>pa_ptr = ptr, pa_ieee = ieee, pa_deviceId = cd_DeviceId d,
        pa_serviceId = cd_ServiceId d, pa_commandId = CommandId (cd_Command d), pa_expected = ex\<rparr>"
      using Register_open(1) True by blast
    with assms Some ex R True show thesis
      by (intro registered [of r "the x" r']) (auto simp: set_register_with_def)
  next
    case False
    with assms Some ex show thesis
      by (cases ok) (auto simp: set_register_with_def Register_closed intro: no_ack closed)
  qed
qed

lemma set_publish_acks: "set_publish E ieee d c = (err, c') \<Longrightarrow> acks c' = acks c"
  by (auto simp: set_publish_def c_SetByIeee_def)

lemma set_decide_cases:
  assumes "set_decide d t err c = (a, c')"
  obtains (empty) "err = None" "t = None" "c' = c"
      "a = Some (EmptyAnswer (cd_DeviceId d) (cd_ServiceId d) (CommandId (cd_Command d)))"
  | (leave) tk where "err = None" "t = Some tk" "a = None" "c' = c"
  | (error) msg where "t = None" "a = Some (ErrorAnswer (CommandId (cd_Command d)) msg)" "c' = c"
  | (cancelled) tk msg where "t = Some tk" "run_cancel tk c = (True, c')"
      "a = Some (ErrorAnswer (CommandId (cd_Command d)) msg)"
  | (late) tk where "t = Some tk" "run_cancel tk c = (False, c')" "a = None"
  using assms by (cases err; cases t) (auto simp: set_decide_def Let_def split: prod.splits bool.splits)

lemma run_cancel_Some:
  assumes "acks c = Some r" and "run_cancel tk c = (ok, c')"
  obtains r' where "ack_cancel tk r = (ok, r')" "c' = c\<lparr>acks := Some r'\<rparr>"
  using assms by (auto simp: run_cancel_def split: prod.splits)

lemma answer_now_frame [simp]:
  "acks (con (answer_now E n a s)) = acks (con s)" "commands (answer_now E n a s) = commands s"
  "handling (answer_now E n a s) = handling s" "calls (answer_now E n a s) = calls s"
  "observing (answer_now E n a s) = observing s" "firing (answer_now E n a s) = firing s"
  "failing (answer_now E n a s) = failing s" "delivering (answer_now E n a s) = delivering s"
  "watcher (answer_now E n a s) = watcher s" "wg (answer_now E n a s) = wg s"
  "map fst (answered (answer_now E n a s)) = map fst (answered s) @ [n]"
  by (simp_all add: answer_now_def Let_def)

lemma set_reg_frame [simp]:
  "acks (con (set_reg r s)) = Some r" "commands (set_reg r s) = commands s"
  "handling (set_reg r s) = handling s" "calls (set_reg r s) = calls s"
  "observing (set_reg r s) = observing s" "firing (set_reg r s) = firing s"
  "failing (set_reg r s) = failing s" "delivering (set_reg r s) = delivering s"
  "watcher (set_reg r s) = watcher s" "wg (set_reg r s) = wg s" "answered (set_reg r s) = answered s"
  by (simp_all add: set_reg_def)

text \<open>None of the parts sends anything to the gateway.\<close>

lemma set_parts_sent:
  assumes "set_register ptr ieee d c = (t, c1)" and "set_publish E ieee d c1 = (err, c2)"
    and "set_decide d t err c2 = (a, c3)"
  shows "sent c3 = sent c"
proof -
  have "sent c1 = sent c" using assms(1) [unfolded set_register_reads] by (cases rule: register_with_cases) (simp_all add: sent_def)
  moreover have "sent c2 = sent c1" using assms(2) by (auto simp: set_publish_def c_SetByIeee_def sent_def)
  moreover have "sent c3 = sent c2" using assms(3)
    by (cases rule: set_decide_cases) (auto simp: run_cancel_def sent_def split: option.splits prod.splits)
  ultimately show ?thesis by simp
qed

subsection \<open>The registry between the goroutines\<close>

text \<open>
  The registry is well-formed, a fired timer is not armed, and every waiting entry has a
  timer that is armed or has fired. Fired entries come from commands.
\<close>

definition reg_inv :: "ack_registry option \<Rightarrow> pendingAck list \<Rightarrow> nat \<Rightarrow> bool" where
  "reg_inv rs fired bound \<longleftrightarrow>
     (case rs of
        None \<Rightarrow> fired = []
      | Some r \<Rightarrow> ack_wf r
          \<and> (\<forall>e \<in> set fired. pa_ptr e < bound \<and> (\<forall>e' \<in> set (armed r). pa_ptr e' \<noteq> pa_ptr e))
          \<and> (\<forall>e \<in> set (entries r). pa_ptr e < bound \<and> (e \<in> set (armed r) \<or> e \<in> set fired)))"

lemma reg_inv_Some:
  "reg_inv (Some r) fired bound \<longleftrightarrow> ack_wf r
     \<and> (\<forall>e \<in> set fired. pa_ptr e < bound \<and> (\<forall>e' \<in> set (armed r). pa_ptr e' \<noteq> pa_ptr e))
     \<and> (\<forall>e \<in> set (entries r). pa_ptr e < bound \<and> (e \<in> set (armed r) \<or> e \<in> set fired))"
  by (simp add: reg_inv_def)

lemma armed_entries: "ack_wf r \<Longrightarrow> e \<in> set (armed r) \<Longrightarrow> e \<in> set (entries r)"
  by (auto simp: ack_wf_def)

lemma reg_inv_register:
  assumes inv: "reg_inv (Some r) fired n" and "\<not> ack_closed r"
    and reg: "Register n i d s c ex r = (Some e, r')"
  shows "reg_inv (Some r') fired (Suc n)"
proof -
  have wf: "ack_wf r" using inv by (simp add: reg_inv_Some)
  have fresh: "n \<notin> pa_ptr ` set (entries r)" using inv by (auto simp: reg_inv_Some)
  note facts = Register_open [OF assms(2) reg]
  have "set (entries r') = insert e (set (entries r))"
    using mset_eq_setD [of "entries r'" "e # entries r"] facts(2) by simp
  with inv facts ack_wf_Register [OF wf fresh reg] show ?thesis
    by (auto simp: reg_inv_Some less_Suc_eq)
qed

lemma reg_inv_mono: "reg_inv rs fired n \<Longrightarrow> reg_inv rs fired (Suc n)"
  by (auto simp: reg_inv_def less_Suc_eq split: option.splits)

lemma reg_inv_cancel:
  assumes inv: "reg_inv (Some r) fired n" and can: "ack_cancel tk r = (ok, r')"
  shows "reg_inv (Some r') fired n"
proof (cases tk)
  case None
  with assms show ?thesis by (simp add: ack_cancel_def)
next
  case (Some e)
  have wf: "ack_wf r" and pw: "pend_wf r" using inv by (simp_all add: reg_inv_Some ack_wf_def)
  show ?thesis
  proof (cases "removeLocked e r")
    case (Pair ok1 r1)
    show ?thesis
    proof (cases ok1)
      case True
      with Pair have rem: "removeLocked e r = (True, r1)" by simp
      with can Some have r': "r' = stop_timer e r1" by (simp add: ack_cancel_def)
      from pw rem obtain x where x: "pa_ptr x = pa_ptr e" "mset (entries r) = add_mset x (mset (entries r1))"
        by (rule removeLocked_True)
      from entries_after_removal [OF pw x(2)] x(1)
      have "set (entries r') = {y \<in> set (entries r). pa_ptr y \<noteq> pa_ptr e}" by (simp add: r')
      moreover have "set (armed r') = {y \<in> set (armed r). pa_ptr y \<noteq> pa_ptr e}"
        using removeLocked_frame [OF rem] by (simp add: r' armed_stop_timer)
      ultimately show ?thesis
        using inv ack_wf_remove_stop [OF wf rem] by (auto simp: reg_inv_Some r')
    next
      case False
      with Pair can Some removeLocked_False [of e r r1] inv show ?thesis by (simp add: ack_cancel_def)
    qed
  qed
qed

lemma reg_inv_observe:
  assumes inv: "reg_inv (Some r) fired n" and obs: "observe_match i st r = (matched, r')"
  shows "reg_inv (Some r') fired n"
proof -
  have wf: "ack_wf r" using inv by (simp add: reg_inv_Some)
  note facts = observe_match_result [OF wf obs]
  from facts(2) have "set (entries r') \<subseteq> set (entries r)"
    by (metis set_mset_mset set_mset_union sup_ge2)
  with facts inv show ?thesis by (auto simp: reg_inv_Some)
qed

lemma reg_inv_fire:
  assumes inv: "reg_inv (Some r) fired n" and e: "e \<in> set (armed r)"
  shows "reg_inv (Some (stop_timer e r)) (fired @ [e]) n"
proof -
  have wf: "ack_wf r" and pw: "pend_wf r" using inv by (simp_all add: reg_inv_Some ack_wf_def)
  then have "ack_wf (stop_timer e r)" by (auto simp: ack_wf_def armed_stop_timer)
  moreover have "x \<in> set (armed (stop_timer e r)) \<or> x \<in> set (fired @ [e])" if "x \<in> set (entries r)" for x
    using that inv e ptr_inj [OF pw that armed_entries [OF wf e]]
    by (auto simp: reg_inv_Some armed_stop_timer)
  ultimately show ?thesis
    using inv armed_entries [OF wf e] by (auto simp: reg_inv_Some armed_stop_timer)
qed

lemma in_remove1: "x \<in> set xs \<Longrightarrow> x \<noteq> y \<Longrightarrow> x \<in> set (remove1 y xs)"
  by simp

lemma reg_inv_expire:
  assumes inv: "reg_inv (Some r) fired n" and e: "e \<in> set fired" and rem: "removeLocked e r = (ok, r')"
  shows "reg_inv (Some r') (remove1 e fired) n"
proof -
  have wf: "ack_wf r" and pw: "pend_wf r" using inv by (simp_all add: reg_inv_Some ack_wf_def)
  have fr: "armed r' = armed r" using removeLocked_frame [OF rem] by simp
  have sub: "set (remove1 e fired) \<subseteq> set fired" by (rule set_remove1_subset)
  have "set (entries r') \<subseteq> set (entries r) \<and> e \<notin> set (entries r') \<and> ack_wf r'"
  proof (cases ok)
    case True
    with rem have rem': "removeLocked e r = (True, r')" by simp
    from pw rem' obtain x where x: "pa_ptr x = pa_ptr e" "mset (entries r) = add_mset x (mset (entries r'))"
      by (rule removeLocked_True)
    have "pa_ptr e \<notin> pa_ptr ` set (armed r)"
      using inv e unfolding reg_inv_Some image_iff by metis
    from ack_wf_expire [OF wf this, of reliable new_mgw_client] rem' have "ack_wf r'"
      by (simp add: expire_def)
    with entries_after_removal [OF pw x(2)] x(1) show ?thesis by auto
  next
    case False
    with rem removeLocked_False [of e r r'] pending_of_iff [OF pw, of e "pa_ieee e"] wf
    show ?thesis by auto
  qed
  with inv fr sub show ?thesis
    unfolding reg_inv_Some by (auto intro: in_remove1)
qed

lemma reg_inv_close: "reg_inv (Some r) fired n \<Longrightarrow> reg_inv (Some (ack_close r)) fired n"
  by (simp add: reg_inv_Some ack_close_result)

subsection \<open>Who owes the answer of a command\<close>

text \<open>
  A command without a registered entry is answered by the handler, a registered one by the
  registry, then by the goroutine that took the entry. Each of them holds the number of the
  command; \<open>tokens\<close> collects the numbers, those of the answered commands included.
\<close>

fun stage_tokens :: "nat \<Rightarrow> stage \<Rightarrow> nat multiset" where
  "stage_tokens n (Registered (Some (Some e))) = {#}"
| "stage_tokens n (Registered t) = {#n#}"
| "stage_tokens n (Published (Some (Some e)) err) = {#}"
| "stage_tokens n (Published t err) = {#n#}"
| "stage_tokens n (Answering a) = {#n#}"

definition handler_tokens :: "(nat \<times> string \<times> stage) option \<Rightarrow> nat multiset" where
  "handler_tokens h = (case h of None \<Rightarrow> {#} | Some (n, ieee, st) \<Rightarrow> stage_tokens n st)"

definition reg_tokens :: "ack_registry option \<Rightarrow> nat multiset" where
  "reg_tokens rs = (case rs of None \<Rightarrow> {#} | Some r \<Rightarrow> image_mset pa_ptr (mset (entries r)))"

definition tokens :: "sys \<Rightarrow> nat multiset" where
  "tokens s = handler_tokens (handling s) + reg_tokens (acks (con s))
     + mset (map pa_ptr (failing s)) + mset (map (\<lambda>(e, pl). pa_ptr e) (delivering s))
     + mset (map fst (answered s))"

definition ticket_ok :: "ack_registry option \<Rightarrow> nat \<Rightarrow> pendingAck option option \<Rightarrow> bool" where
  "ticket_ok rs n t \<longleftrightarrow>
     (case t of
        None \<Rightarrow> True
      | Some None \<Rightarrow> (\<exists>r. rs = Some r \<and> ack_closed r)
      | Some (Some e) \<Rightarrow> rs \<noteq> None \<and> pa_ptr e = n)"

definition closed_le :: "ack_registry option \<Rightarrow> ack_registry option \<Rightarrow> bool" where
  "closed_le rs rs' \<longleftrightarrow> (rs = None \<longleftrightarrow> rs' = None)
     \<and> (\<forall>r r'. rs = Some r \<longrightarrow> rs' = Some r' \<longrightarrow> ack_closed r \<longrightarrow> ack_closed r')"

lemma ticket_ok_mono: "closed_le rs rs' \<Longrightarrow> ticket_ok rs n t \<Longrightarrow> ticket_ok rs' n t"
  by (auto simp: closed_le_def ticket_ok_def split: option.splits)

lemma closed_le_refl [simp]: "closed_le rs rs"
  by (simp add: closed_le_def)

lemma closed_le_Some [simp]: "closed_le (Some r) (Some r') \<longleftrightarrow> (ack_closed r \<longrightarrow> ack_closed r')"
  by (simp add: closed_le_def)

fun stage_ok :: "ack_registry option \<Rightarrow> nat \<Rightarrow> stage \<Rightarrow> bool" where
  "stage_ok rs n (Registered t) = ticket_ok rs n t"
| "stage_ok rs n (Published t err) = ticket_ok rs n t"
| "stage_ok rs n (Answering a) = True"

lemma stage_ok_mono: "closed_le rs rs' \<Longrightarrow> stage_ok rs n st \<Longrightarrow> stage_ok rs' n st"
  by (cases st) (auto intro: ticket_ok_mono)

definition sys_inv :: "sys \<Rightarrow> bool" where
  "sys_inv s \<longleftrightarrow> reg_inv (acks (con s)) (firing s) (length (commands s))
     \<and> (acks (con s) = None \<longrightarrow> calls s = [] \<and> observing s = [] \<and> failing s = [] \<and> delivering s = [])
     \<and> (\<forall>n ieee st. handling s = Some (n, ieee, st) \<longrightarrow>
          n < length (commands s) \<and> stage_ok (acks (con s)) n st)"

lemma cancel_closed: "ack_cancel tk r = (ok, r') \<Longrightarrow> ack_closed r' = ack_closed r"
  by (auto simp: ack_cancel_def dest: removeLocked_frame split: option.splits prod.splits bool.splits)

lemma run_cancel_acks:
  assumes "run_cancel tk c = (ok, c')" and "reg_inv (acks c) fired n"
  shows "reg_inv (acks c') fired n" and "closed_le (acks c) (acks c')"
proof -
  have "reg_inv (acks c') fired n \<and> closed_le (acks c) (acks c')"
  proof (cases "acks c")
    case None
    with assms show ?thesis by (auto simp: run_cancel_def)
  next
    case (Some r)
    from run_cancel_Some [OF this assms(1)] obtain r' where
      "ack_cancel tk r = (ok, r')" "c' = c\<lparr>acks := Some r'\<rparr>" .
    with reg_inv_cancel assms(2) Some cancel_closed show ?thesis by auto
  qed
  then show "reg_inv (acks c') fired n" and "closed_le (acks c) (acks c')" by simp_all
qed

lemma decide_acks:
  assumes "set_decide d t err c = (a, c')" and "reg_inv (acks c) fired n"
  shows "reg_inv (acks c') fired n" and "closed_le (acks c) (acks c')"
  using assms by (cases rule: set_decide_cases; simp add: run_cancel_acks)+

text \<open>The invariant holds in every reachable state, and the registry is never reopened.\<close>

lemma sys_inv_start: "starting c \<Longrightarrow> sys_inv (sys_start c)"
  by (auto simp: sys_inv_def sys_start_def starting_def reg_inv_def ack_wf_def
      pend_wf_def entries_def split: option.splits)

lemma sys_inv_frame:
  assumes inv: "sys_inv s" and reg: "reg_inv (acks (con s')) (firing s') (length (commands s))"
    and le: "closed_le (acks (con s)) (acks (con s'))" and "commands s' = commands s"
    and none: "acks (con s') = None \<Longrightarrow> calls s' = [] \<and> observing s' = [] \<and> failing s' = [] \<and> delivering s' = []"
    and han: "\<And>n ieee st. handling s' = Some (n, ieee, st) \<Longrightarrow>
      \<exists>st'. handling s = Some (n, ieee, st') \<and> (stage_ok (acks (con s)) n st' \<longrightarrow> stage_ok (acks (con s)) n st)"
  shows "sys_inv s'"
  unfolding sys_inv_def
proof (intro conjI impI allI)
  fix n ieee st assume "handling s' = Some (n, ieee, st)"
  from han [OF this] obtain st' where st': "handling s = Some (n, ieee, st')"
    "stage_ok (acks (con s)) n st' \<longrightarrow> stage_ok (acks (con s)) n st" by blast
  with inv show "n < length (commands s')" "stage_ok (acks (con s')) n st"
    using assms(4) stage_ok_mono [OF le] by (auto simp: sys_inv_def)
qed (use assms in auto)

lemma sys_inv_internal:
  assumes "internal E s s'" and inv: "sys_inv s"
  shows "sys_inv s' \<and> closed_le (acks (con s)) (acks (con s'))"
proof -
  have reg: "reg_inv (acks (con s)) (firing s) (length (commands s))" using inv by (simp add: sys_inv_def)
  have none: "calls s = [] \<and> observing s = [] \<and> failing s = [] \<and> delivering s = []" if "acks (con s) = None"
    using inv that by (simp add: sys_inv_def)
  have wfr: "ack_wf r" if "acks (con s) = Some r" for r using reg that by (simp add: reg_inv_Some)
  note frame = sys_inv_frame [OF inv]
  from assms(1) show ?thesis
  proof (cases rule: internal.cases)
    case (publish n ieee t err c')
    then show ?thesis using reg none
      by (auto dest!: set_publish_acks intro!: frame)
  next
    case (decide_answer n ieee t err a c')
    note d = decide_acks [OF decide_answer(3) reg]
    have "sys_inv s'"
    proof (rule frame)
      show "reg_inv (acks (con s')) (firing s') (length (commands s))" using d(1) decide_answer(1) by simp
      show "closed_le (acks (con s)) (acks (con s'))" using d(2) decide_answer(1) by simp
    next
      assume "acks (con s') = None"
      then have "acks (con s) = None" using d(2) decide_answer(1) by (simp add: closed_le_def)
      from none [OF this] show "calls s' = [] \<and> observing s' = [] \<and> failing s' = [] \<and> delivering s' = []"
        by (simp add: decide_answer(1))
    qed (simp_all add: decide_answer(1,2))
    with d(2) decide_answer(1) show ?thesis by simp
  next
    case (decide_return n ieee t err c')
    note d = decide_acks [OF decide_return(3) reg]
    have "sys_inv s'"
    proof (rule frame)
      show "reg_inv (acks (con s')) (firing s') (length (commands s))" using d(1) decide_return(1) by simp
      show "closed_le (acks (con s)) (acks (con s'))" using d(2) decide_return(1) by simp
    next
      assume "acks (con s') = None"
      then have "acks (con s) = None" using d(2) decide_return(1) by (simp add: closed_le_def)
      from none [OF this] show "calls s' = [] \<and> observing s' = [] \<and> failing s' = [] \<and> delivering s' = []"
        by (simp add: decide_return(1))
    qed (simp_all add: decide_return(1,2))
    with d(2) decide_return(1) show ?thesis by simp
  next
    case (reply n ieee a)
    then show ?thesis using reg none by (auto intro!: frame)
  next
    case (observe_start ieee pl r st)
    then show ?thesis using reg none by (auto intro!: frame)
  next
    case (observe_skip ieee pl r)
    then show ?thesis using reg none by (auto intro!: frame)
  next
    case (observe_end ieee pl st r matched r')
    then show ?thesis using reg none observe_match_result(4) [OF wfr observe_end(4)] reg_inv_observe
      by (auto intro!: frame)
  next
    case (deliver e pl)
    then show ?thesis using reg none by (auto intro!: frame)
  next
    case (fire r e)
    then show ?thesis using reg reg_inv_fire by (auto intro!: frame)
  next
    case (expire_gone e r r')
    then show ?thesis using reg reg_inv_expire removeLocked_frame [OF expire_gone(4)] by (auto intro!: frame)
  next
    case (expire_take e r r')
    then show ?thesis using reg reg_inv_expire removeLocked_frame [OF expire_take(4)] by (auto intro!: frame)
  next
    case (fail e r)
    then show ?thesis using reg by (auto intro!: frame)
  qed
qed

lemma sys_inv_external:
  assumes "external E s s'" and inv: "sys_inv s"
  shows "sys_inv s' \<and> closed_le (acks (con s)) (acks (con s'))"
proof -
  have reg: "reg_inv (acks (con s)) (firing s) (length (commands s))" using inv by (simp add: sys_inv_def)
  have none: "calls s = [] \<and> observing s = [] \<and> failing s = [] \<and> delivering s = []" if "acks (con s) = None"
    using inv that by (simp add: sys_inv_def)
  have wfr: "ack_wf r" if "acks (con s) = Some r" for r using reg that by (simp add: reg_inv_Some)
  note frame = sys_inv_frame [OF inv]
  from assms(1) show ?thesis
  proof (cases rule: external.cases)
    case (take_set d ieee expectation exposes lastState t c')
    from take_set(6) show ?thesis
    proof (cases rule: register_with_cases)
      case no_ack
      with take_set(1) reg_inv_mono [OF reg] none show ?thesis
        by (auto simp: sys_inv_def ticket_ok_def)
    next
      case (closed r)
      with take_set(1) reg_inv_mono [OF reg] show ?thesis
        by (auto simp: sys_inv_def ticket_ok_def)
    next
      case (registered r r' e)
      have "reg_inv (Some r') (firing s) (Suc (length (commands s)))"
        by (rule reg_inv_register [OF _ registered(2,4)]) (use reg registered(1) in simp)
      with take_set(1) registered Register_open(4) [OF registered(2,4)] show ?thesis
        by (simp add: sys_inv_def ticket_ok_def)
    qed
  next
    case (state_observed ieee pl)
    then show ?thesis using reg none by (auto intro!: frame)
  next
    case (other c')
    then show ?thesis using reg none by (auto intro!: frame)
  next
    case (close r)
    then show ?thesis using reg reg_inv_close ack_close_result(3) [OF wfr [OF close(2)]]
      by (auto intro!: frame)
  next
    case (watcher_done r)
    then show ?thesis using reg none by (auto intro!: frame)
  qed
qed

lemma sys_inv_step: "step E s s' \<Longrightarrow> sys_inv s \<Longrightarrow> sys_inv s' \<and> closed_le (acks (con s)) (acks (con s'))"
  unfolding step_def using sys_inv_internal sys_inv_external by blast

lemma reachable_inv: "reachable E s \<Longrightarrow> sys_inv s"
  by (induction rule: reachable.induct) (auto dest: sys_inv_step sys_inv_start)

lemma closed_le_open:
  "closed_le rs rs' \<Longrightarrow> (case rs' of None \<Rightarrow> True | Some r \<Rightarrow> \<not> ack_closed r) \<Longrightarrow>
     (case rs of None \<Rightarrow> True | Some r \<Rightarrow> \<not> ack_closed r)"
  by (cases rs; cases rs') (auto simp: closed_le_def)

lemma step_open: "step E s s' \<Longrightarrow> sys_inv s \<Longrightarrow> is_open s' \<Longrightarrow> is_open s"
  unfolding is_open_def by (rule closed_le_open) (use sys_inv_step in blast)+

subsection \<open>No token is copied, and none is lost while the registry is open\<close>

lemma mset_remove1_add:
  "x \<in> set xs \<Longrightarrow> mset (map f xs) = add_mset (f x) (mset (map f (remove1 x xs)))"
  by (induction xs) auto

lemma cancel_tokens:
  assumes wf: "ack_wf r" and can: "ack_cancel (Some e) r = (ok, r')"
  shows "image_mset pa_ptr (mset (entries r)) =
    image_mset pa_ptr (mset (entries r')) + (if ok then {#pa_ptr e#} else {#})"
proof (cases "removeLocked e r")
  case (Pair ok1 r1)
  have pw: "pend_wf r" using wf by (simp add: ack_wf_def)
  show ?thesis
  proof (cases ok1)
    case True
    with Pair have rem: "removeLocked e r = (True, r1)" by simp
    from pw rem obtain x where "pa_ptr x = pa_ptr e" "mset (entries r) = add_mset x (mset (entries r1))"
      by (rule removeLocked_True)
    with can rem show ?thesis by (auto simp: ack_cancel_def)
  next
    case False
    with Pair can removeLocked_False [of e r r1] show ?thesis by (auto simp: ack_cancel_def)
  qed
qed

lemma remove_tokens:
  assumes "ack_wf r" and rem: "removeLocked e r = (True, r')"
  shows "image_mset pa_ptr (mset (entries r)) = add_mset (pa_ptr e) (image_mset pa_ptr (mset (entries r')))"
  using cancel_tokens [OF assms(1), of e True "stop_timer e r'"] rem by (simp add: ack_cancel_def)

lemma handler_tokens_simps:
  "handler_tokens None = {#}"
  "handler_tokens (Some (n, ieee, st)) = stage_tokens n st"
  by (simp_all add: handler_tokens_def)

lemma stage_tokens_ticket:
  "stage_tokens n (Registered t) = (case t of Some (Some e) \<Rightarrow> {#} | _ \<Rightarrow> {#n#})"
  "stage_tokens n (Published t err) = (case t of Some (Some e) \<Rightarrow> {#} | _ \<Rightarrow> {#n#})"
  by (cases "(n, Registered t)" rule: stage_tokens.cases; simp)
     (cases "(n, Published t err)" rule: stage_tokens.cases; simp)

text \<open>Deciding on the answer hands the token over, or drops it if the registry is closed.\<close>

lemma decide_tokens:
  assumes d: "set_decide d t err c = (a, c')" and ok: "ticket_ok (acks c) n t"
    and wf: "\<And>r. acks c = Some r \<Longrightarrow> ack_wf r"
  shows "stage_tokens n (Published t err) + reg_tokens (acks c) =
      (case a of None \<Rightarrow> {#} | Some x \<Rightarrow> {#n#}) + reg_tokens (acks c')
    \<or> (\<exists>r. acks c = Some r \<and> ack_closed r) \<and> a = None \<and> reg_tokens (acks c') = reg_tokens (acks c)"
  using d
proof (cases rule: set_decide_cases)
  case (leave tk)
  then show ?thesis using ok by (cases tk) (auto simp: ticket_ok_def)
next
  case (cancelled tk msg)
  then show ?thesis
  proof (cases tk)
    case None
    with cancelled ok show ?thesis
      by (auto simp: ticket_ok_def run_cancel_def ack_cancel_def)
  next
    case (Some e)
    with cancelled ok obtain r where r: "acks c = Some r" "pa_ptr e = n" by (auto simp: ticket_ok_def)
    from run_cancel_Some [OF r(1) cancelled(2)] obtain r' where
      "ack_cancel tk r = (True, r')" "c' = c\<lparr>acks := Some r'\<rparr>" .
    with cancel_tokens [OF wf [OF r(1)], of e True r'] r Some cancelled show ?thesis
      by (simp add: reg_tokens_def)
  qed
next
  case (late tk)
  then show ?thesis
  proof (cases tk)
    case None
    with late ok show ?thesis
      by (auto simp: ticket_ok_def run_cancel_def ack_cancel_def)
  next
    case (Some e)
    with late ok obtain r where r: "acks c = Some r" by (auto simp: ticket_ok_def)
    from run_cancel_Some [OF r(1) late(2)] obtain r' where
      "ack_cancel tk r = (False, r')" "c' = c\<lparr>acks := Some r'\<rparr>" .
    with cancel_tokens [OF wf [OF r(1)], of e False r'] r Some late show ?thesis
      by (simp add: reg_tokens_def)
  qed
qed (auto simp: ok)

lemma tokens_unfold:
  "tokens s = handler_tokens (handling s) + reg_tokens (acks (con s))
     + mset (map pa_ptr (failing s)) + mset (map (\<lambda>x. pa_ptr (fst x)) (delivering s))
     + mset (map fst (answered s))"
  by (simp add: tokens_def case_prod_unfold)

lemma reg_tokens_Some: "reg_tokens (Some r) = image_mset pa_ptr (mset (entries r))"
  by (simp add: reg_tokens_def)

lemma tokens_internal:
  assumes "internal E s s'" and inv: "sys_inv s"
  shows "tokens s' = tokens s \<or> \<not> is_open s \<and> tokens s' \<subseteq># tokens s"
proof -
  have wfr: "ack_wf r" if "acks (con s) = Some r" for r
    using inv that by (simp add: sys_inv_def reg_inv_Some)
  from assms(1) show ?thesis
  proof (cases rule: internal.cases)
    case (publish n ieee t err c')
    then show ?thesis using set_publish_acks [OF publish(3)]
      by (simp add: tokens_unfold handler_tokens_simps stage_tokens_ticket)
  next
    case (decide_answer n ieee t err a c')
    have tk: "ticket_ok (acks (con s)) n t" using inv decide_answer(2) by (simp add: sys_inv_def)
    from decide_tokens [OF decide_answer(3) tk wfr] show ?thesis
      by (simp add: decide_answer(1,2) tokens_unfold handler_tokens_simps)
  next
    case (decide_return n ieee t err c')
    have tk: "ticket_ok (acks (con s)) n t" using inv decide_return(2) by (simp add: sys_inv_def)
    from decide_tokens [OF decide_return(3) tk wfr] show ?thesis
    proof
      assume "(\<exists>r. acks (con s) = Some r \<and> ack_closed r) \<and> None = (None :: answer option)
        \<and> reg_tokens (acks c') = reg_tokens (acks (con s))"
      then have "\<not> is_open s" and "reg_tokens (acks c') = reg_tokens (acks (con s))"
        by (auto simp: is_open_def)
      then show ?thesis by (simp add: decide_return(1) tokens_unfold handler_tokens_simps)
    next
      assume "stage_tokens n (Published t err) + reg_tokens (acks (con s))
        = (case None :: answer option of None \<Rightarrow> {#} | Some x \<Rightarrow> {#n#}) + reg_tokens (acks c')"
      then have "reg_tokens (acks c') = stage_tokens n (Published t err) + reg_tokens (acks (con s))"
        by simp
      then show ?thesis by (simp only: decide_return(1,2) tokens_unfold handler_tokens_simps) (simp add: handler_tokens_simps)
    qed
  next
    case (reply n ieee a)
    then show ?thesis by (simp add: tokens_unfold handler_tokens_simps)
  next
    case (observe_start ieee pl r st)
    then show ?thesis by (simp add: tokens_unfold)
  next
    case (observe_skip ieee pl r)
    then show ?thesis by (simp add: tokens_unfold)
  next
    case (observe_end ieee pl st r matched r')
    have "image_mset pa_ptr (mset (entries r))
        = image_mset pa_ptr (mset matched) + image_mset pa_ptr (mset (entries r'))"
      using observe_match_result(2) [OF wfr observe_end(4)] observe_end(3) by simp
    then show ?thesis using observe_end by (simp add: tokens_unfold reg_tokens_Some comp_def)
  next
    case (deliver e pl)
    then show ?thesis using mset_remove1_add [OF deliver(2), of "\<lambda>x. pa_ptr (fst x)"]
      by (simp add: tokens_unfold)
  next
    case (fire r e)
    then show ?thesis by (simp add: tokens_unfold reg_tokens_Some)
  next
    case (expire_gone e r r')
    then show ?thesis using removeLocked_False [OF expire_gone(4)] by (simp add: tokens_unfold)
  next
    case (expire_take e r r')
    then show ?thesis using remove_tokens [OF wfr expire_take(4)]
      by (simp add: tokens_unfold reg_tokens_Some)
  next
    case (fail e r)
    then show ?thesis using mset_remove1_add [OF fail(2), of pa_ptr] by (simp add: tokens_unfold)
  qed
qed

lemma tokens_external:
  assumes "external E s s'" and inv: "sys_inv s"
  shows "commands s' = commands s \<and> (tokens s' = tokens s \<or> \<not> is_open s' \<and> tokens s' \<subseteq># tokens s)
    \<or> (\<exists>d. commands s' = commands s @ [d]) \<and> tokens s' = add_mset (length (commands s)) (tokens s)"
proof -
  from assms(1) show ?thesis
  proof (cases rule: external.cases)
    case (take_set d ieee expectation exposes lastState t c')
    from take_set(6) show ?thesis
    proof (cases rule: register_with_cases)
      case (registered r r' e)
      then show ?thesis using take_set Register_open(2) [OF registered(2,4)]
        by (simp add: tokens_unfold reg_tokens_Some handler_tokens_simps)
    qed (use take_set in \<open>simp_all add: tokens_unfold handler_tokens_simps\<close>)
  next
    case (close r)
    have "ack_wf r" using inv close(2) by (simp add: sys_inv_def reg_inv_Some)
    from ack_close_result [OF this] show ?thesis
      by (simp add: close(1,2) tokens_unfold reg_tokens_Some is_open_def)
  qed (simp_all add: tokens_unfold)
qed

definition tokens_ok :: "sys \<Rightarrow> bool" where
  "tokens_ok s \<longleftrightarrow> tokens s \<subseteq># mset [0..<length (commands s)]
     \<and> (is_open s \<longrightarrow> tokens s = mset [0..<length (commands s)])"

lemma tokens_start: "starting c \<Longrightarrow> tokens_ok (sys_start c)"
  by (auto simp: tokens_ok_def tokens_unfold sys_start_def handler_tokens_def reg_tokens_def starting_def
      entries_def split: option.splits)

lemma tokens_step:
  assumes st: "step E s s'" and inv: "sys_inv s" and ok: "tokens_ok s"
  shows "tokens_ok s'"
proof -
  have open_back: "is_open s' \<Longrightarrow> is_open s" by (rule step_open [OF st inv])
  consider (same) "commands s' = commands s" "tokens s' = tokens s"
    | (fewer) "commands s' = commands s" "\<not> is_open s'" "tokens s' \<subseteq># tokens s"
    | (more) d where "commands s' = commands s @ [d]" "tokens s' = add_mset (length (commands s)) (tokens s)"
  proof (cases "internal E s s'")
    case True
    then have "commands s' = commands s" by (auto elim: internal.cases)
    with tokens_internal [OF True inv] open_back same fewer show thesis by blast
  next
    case False
    with st have "external E s s'" by (simp add: step_def)
    from tokens_external [OF this inv] same fewer more show thesis by blast
  qed
  then show ?thesis
  proof cases
    case fewer
    with ok show ?thesis by (auto simp: tokens_ok_def intro: subset_mset.order_trans)
  qed (use ok open_back in \<open>auto simp: tokens_ok_def\<close>)
qed

lemma reachable_tokens: "reachable E s \<Longrightarrow> tokens_ok s"
  by (induction rule: reachable.induct) (auto intro: tokens_start tokens_step reachable_inv)

subsection \<open>What is answered\<close>

text \<open>An entry belongs to its command and expects part of the command's data.\<close>

definition entry_ok :: "env \<Rightarrow> command_desc list \<Rightarrow> pendingAck \<Rightarrow> bool" where
  "entry_ok E cs e \<longleftrightarrow> pa_ptr e < length cs
     \<and> (let d = cs ! pa_ptr e in
        pa_deviceId e = cd_DeviceId d \<and> pa_serviceId e = cd_ServiceId d
        \<and> pa_commandId e = CommandId (cd_Command d)
        \<and> cd_DeviceId d = DeviceIdPrefix (conf E) @ pa_ieee e
        \<and> (\<exists>ex last. ackExpectation (Data (cd_Command d)) ex last = (pa_expected e, True)))"

text \<open>A state answer carries a state that shows everything its entry expects.\<close>

definition confirmed :: "env \<Rightarrow> command_desc list \<Rightarrow> pendingAck \<Rightarrow> string \<Rightarrow> bool" where
  "confirmed E cs e data \<longleftrightarrow> entry_ok E cs e
     \<and> (\<exists>st. unmarshal_map data = Some st \<and> ackMatches (pa_expected e) st)"

definition addressed_to :: "answer \<Rightarrow> command_desc \<Rightarrow> bool" where
  "addressed_to a d \<longleftrightarrow> addressed a (cd_DeviceId d) (cd_ServiceId d) (CommandId (cd_Command d))"

definition reply_ok :: "env \<Rightarrow> command_desc list \<Rightarrow> nat \<Rightarrow> answer \<Rightarrow> bool" where
  "reply_ok E cs n a \<longleftrightarrow> n < length cs \<and> addressed_to a (cs ! n)
     \<and> (\<forall>e data. a = StateAnswer e data \<longrightarrow> pa_ptr e = n \<and> confirmed E cs e data)"

definition answer_ok :: "env \<Rightarrow> command_desc list \<Rightarrow> nat \<times> answer \<times> mqtt_msg list \<Rightarrow> bool" where
  "answer_ok E cs x \<longleftrightarrow>
     (case x of (n, a, ms) \<Rightarrow> reply_ok E cs n a \<and> length ms \<le> 1
        \<and> (mbroker E = reliable \<longrightarrow> length ms = 1)
        \<and> (let d = cs ! n in
           \<forall>m \<in> set ms. answers_to (cd_DeviceId d) (cd_ServiceId d) (CommandId (cd_Command d)) m))"

definition addr_inv :: "env \<Rightarrow> sys \<Rightarrow> bool" where
  "addr_inv E s \<longleftrightarrow>
     (\<forall>r. acks (con s) = Some r \<longrightarrow> (\<forall>e \<in> set (entries r). entry_ok E (commands s) e))
     \<and> (\<forall>e \<in> set (firing s) \<union> set (failing s). entry_ok E (commands s) e)
     \<and> (\<forall>(e, pl) \<in> set (delivering s). confirmed E (commands s) e pl)
     \<and> (\<forall>(i, pl, st) \<in> set (observing s). unmarshal_map pl = Some st)
     \<and> (\<forall>n i a. handling s = Some (n, i, Answering a) \<longrightarrow> reply_ok E (commands s) n a)
     \<and> (\<forall>x \<in> set (answered s). answer_ok E (commands s) x)"

lemma entry_ok_mono: "entry_ok E cs e \<Longrightarrow> entry_ok E (cs @ [d]) e"
  by (simp add: entry_ok_def nth_append Let_def)

lemma confirmed_mono: "confirmed E cs e pl \<Longrightarrow> confirmed E (cs @ [d]) e pl"
  by (simp add: confirmed_def entry_ok_mono)

lemma reply_ok_mono: "reply_ok E cs n a \<Longrightarrow> reply_ok E (cs @ [d]) n a"
  by (auto simp: reply_ok_def nth_append confirmed_mono)

lemma answer_ok_mono:
  assumes "answer_ok E cs x"
  shows "answer_ok E (cs @ [d]) x"
proof -
  obtain n a ms where x: "x = (n, a, ms)" by (cases x)
  with assms have "reply_ok E cs n a" and "(cs @ [d]) ! n = cs ! n"
    by (auto simp: answer_ok_def reply_ok_def nth_append)
  with assms x reply_ok_mono show ?thesis by (simp add: answer_ok_def)
qed

lemma entry_reply_ok: "entry_ok E cs e \<Longrightarrow> reply_ok E cs (pa_ptr e) (TimeoutAnswer t e)"
  "confirmed E cs e pl \<Longrightarrow> reply_ok E cs (pa_ptr e) (StateAnswer e pl)"
  by (simp_all add: reply_ok_def entry_ok_def confirmed_def addressed_to_def Let_def)

lemma answer_now_ok:
  assumes ok: "reply_ok E (commands s) n a"
  shows "\<exists>x. answered (answer_now E n a s) = answered s @ [x] \<and> answer_ok E (commands s) x"
proof -
  let ?d = "commands s ! n"
  have "addressed a (cd_DeviceId ?d) (cd_ServiceId ?d) (CommandId (cd_Command ?d))"
    using ok by (simp add: reply_ok_def addressed_to_def)
  from send_answer_sent [OF this, of E "con s"] obtain l where
    l: "sent (send_answer E a (con s)) = sent (con s) @ l" "length l \<le> 1"
       "\<forall>m \<in> set l. answers_to (cd_DeviceId ?d) (cd_ServiceId ?d) (CommandId (cd_Command ?d)) m"
    by blast
  have "mbroker E = reliable \<longrightarrow> length l = 1"
    using send_answer_reliable [of E a "con s"] l(1) by auto
  with ok l show ?thesis by (simp add: answer_now_def answer_ok_def Let_def)
qed

lemma decide_reply:
  assumes "set_decide d t err c = (Some a, c')"
  shows "addressed_to a d" and "a \<noteq> StateAnswer e data"
  using assms by (cases rule: set_decide_cases; simp add: addressed_to_def)+

lemma removal_subset: "pend_wf r \<Longrightarrow> removeLocked e r = (ok, r') \<Longrightarrow> set (entries r') \<subseteq> set (entries r)"
proof (cases ok)
  case True
  assume wf: "pend_wf r" and "removeLocked e r = (ok, r')"
  with True have "removeLocked e r = (True, r')" by simp
  from wf this obtain x where "mset (entries r) = add_mset x (mset (entries r'))"
    by (rule removeLocked_True)
  then show ?thesis using entries_after_removal [OF wf] by auto
next
  case False
  assume "removeLocked e r = (ok, r')"
  with False removeLocked_False [of e r r'] show ?thesis by simp
qed

lemma cancel_subset: "pend_wf r \<Longrightarrow> ack_cancel tk r = (ok, r') \<Longrightarrow> set (entries r') \<subseteq> set (entries r)"
  by (cases tk) (auto simp: ack_cancel_def dest!: removal_subset split: prod.splits bool.splits)

lemma decide_entries:
  assumes "set_decide d t err c = (a, c')" and "acks c' = Some r'"
    and "\<And>r. acks c = Some r \<Longrightarrow> pend_wf r"
  obtains (res) r where "acks c = Some r" "set (entries r') \<subseteq> set (entries r)"
proof -
  have run: thesis if "run_cancel tk c = (ok, c')" for tk ok
  proof (cases "acks c")
    case None
    with that assms(2) show thesis by (auto simp: run_cancel_def)
  next
    case (Some r)
    from run_cancel_Some [OF this \<open>run_cancel tk c = (ok, c')\<close>] obtain r1 where
      "ack_cancel tk r = (ok, r1)" "c' = c\<lparr>acks := Some r1\<rparr>" .
    with cancel_subset [OF assms(3) [OF Some]] assms(2) Some res show thesis by simp
  qed
  from assms(1) show thesis
    by (cases rule: set_decide_cases) (use res assms(2) run in auto)
qed

lemma addr_invD:
  assumes "addr_inv E s"
  shows "acks (con s) = Some r \<Longrightarrow> e \<in> set (entries r) \<Longrightarrow> entry_ok E (commands s) e"
    and "e \<in> set (firing s) \<Longrightarrow> entry_ok E (commands s) e"
    and "e \<in> set (failing s) \<Longrightarrow> entry_ok E (commands s) e"
    and "(e, pl) \<in> set (delivering s) \<Longrightarrow> confirmed E (commands s) e pl"
    and "(i, pl, st) \<in> set (observing s) \<Longrightarrow> unmarshal_map pl = Some st"
    and "handling s = Some (n, i, Answering a) \<Longrightarrow> reply_ok E (commands s) n a"
    and "x \<in> set (answered s) \<Longrightarrow> answer_ok E (commands s) x"
  using assms unfolding addr_inv_def by blast+

lemma addr_invI:
  assumes "\<And>r e. acks (con s) = Some r \<Longrightarrow> e \<in> set (entries r) \<Longrightarrow> entry_ok E (commands s) e"
    and "\<And>e. e \<in> set (firing s) \<Longrightarrow> entry_ok E (commands s) e"
    and "\<And>e. e \<in> set (failing s) \<Longrightarrow> entry_ok E (commands s) e"
    and "\<And>e pl. (e, pl) \<in> set (delivering s) \<Longrightarrow> confirmed E (commands s) e pl"
    and "\<And>i pl st. (i, pl, st) \<in> set (observing s) \<Longrightarrow> unmarshal_map pl = Some st"
    and "\<And>n i a. handling s = Some (n, i, Answering a) \<Longrightarrow> reply_ok E (commands s) n a"
    and "\<And>x. x \<in> set (answered s) \<Longrightarrow> answer_ok E (commands s) x"
  shows "addr_inv E s"
  using assms unfolding addr_inv_def by blast

lemma in_remove1D: "x \<in> set (remove1 y xs) \<Longrightarrow> x \<in> set xs"
  by (rule set_remove1_subset [THEN subsetD])

lemma answer_now_all:
  assumes "addr_inv E s" and "reply_ok E (commands s) n a" and "y \<in> set (answered (answer_now E n a s))"
  shows "answer_ok E (commands s) y"
proof -
  obtain x where "answered (answer_now E n a s) = answered s @ [x]" and x: "answer_ok E (commands s) x"
    using answer_now_ok [OF assms(2)] by blast
  with assms(3) have "y = x \<or> y \<in> set (answered s)" by simp
  with x addr_invD(7) [OF assms(1), of y] show ?thesis by blast
qed

lemma addr_inv_internal:
  assumes "internal E s s'" and inv: "sys_inv s" and addr: "addr_inv E s"
  shows "addr_inv E s'"
proof -
  have wfr: "ack_wf r" "pend_wf r" if "acks (con s) = Some r" for r
    using inv that by (simp_all add: sys_inv_def reg_inv_Some ack_wf_def)
  note D = addr_invD [OF addr]
  from assms(1) show ?thesis
  proof (cases rule: internal.cases)
    case (publish n ieee t err c')
    show ?thesis unfolding publish(1) using set_publish_acks [OF publish(3)]
      by (intro addr_invI) (auto intro: D)
  next
    case (decide_answer n ieee t err a c')
    have "reply_ok E (commands s) n a"
      using inv decide_answer(2) decide_reply [OF decide_answer(3)] by (auto simp: sys_inv_def reply_ok_def)
    moreover have "entry_ok E (commands s) e" if "acks c' = Some r'" "e \<in> set (entries r')" for r' e
      using decide_entries [OF decide_answer(3) that(1) wfr(2)] that(2) D(1) by blast
    ultimately show ?thesis unfolding decide_answer(1) by (intro addr_invI) (auto intro: D)
  next
    case (decide_return n ieee t err c')
    have "entry_ok E (commands s) e" if "acks c' = Some r'" "e \<in> set (entries r')" for r' e
      using decide_entries [OF decide_return(3) that(1) wfr(2)] that(2) D(1) by blast
    then show ?thesis unfolding decide_return(1) by (intro addr_invI) (auto intro: D)
  next
    case (reply n ieee a)
    show ?thesis unfolding reply(1) using answer_now_all [OF addr D(6) [OF reply(2)]]
      by (intro addr_invI) (auto intro: D)
  next
    case (observe_start ieee pl r st)
    have "unmarshal_map pl = Some st"
      using observe_start(4) by (auto simp: observe_begin_def split: if_splits)
    then show ?thesis unfolding observe_start(1) by (intro addr_invI) (auto intro: D)
  next
    case (observe_skip ieee pl r)
    show ?thesis unfolding observe_skip(1) by (intro addr_invI) (auto intro: D)
  next
    case (observe_end ieee pl st r matched r')
    note facts = observe_match_result [OF wfr(1) [OF observe_end(3)] observe_end(4)]
    have sub: "set (entries r') \<subseteq> set (entries r)"
      using facts(2) by (metis set_mset_mset set_mset_union sup_ge2)
    have "confirmed E (commands s) e pl" if "e \<in> set matched" for e
      using that D(1) [OF observe_end(3)] D(5) [OF observe_end(2)] facts(1)
        pending_of_iff [OF wfr(2) [OF observe_end(3)]] by (auto simp: confirmed_def)
    with sub D(1) [OF observe_end(3)] show ?thesis
      unfolding observe_end(1) by (intro addr_invI) (auto intro: D dest: in_remove1D)
  next
    case (deliver e pl)
    show ?thesis
      unfolding deliver(1) using answer_now_all [OF addr entry_reply_ok(2) [OF D(4) [OF deliver(2)]]]
      by (intro addr_invI) (auto intro: D dest: in_remove1D)
  next
    case (fire r e)
    have "entry_ok E (commands s) e"
      using D(1) [OF fire(2)] armed_entries [OF wfr(1) [OF fire(2)] fire(3)] by blast
    then show ?thesis unfolding fire(1) using D(1) [OF fire(2)] by (intro addr_invI) (auto intro: D)
  next
    case (expire_gone e r r')
    then show ?thesis using removal_subset [OF wfr(2) [OF expire_gone(3)] expire_gone(4)] D(1) [OF expire_gone(3)]
      unfolding expire_gone(1) by (intro addr_invI) (auto intro: D dest: in_remove1D)
  next
    case (expire_take e r r')
    then show ?thesis using removal_subset [OF wfr(2) [OF expire_take(3)] expire_take(4)] D(1) [OF expire_take(3)]
      unfolding expire_take(1) by (intro addr_invI) (auto intro: D dest: in_remove1D)
  next
    case (fail e r)
    show ?thesis
      unfolding fail(1) using answer_now_all [OF addr entry_reply_ok(1) [OF D(3) [OF fail(2)]]]
      by (intro addr_invI) (auto intro: D dest: in_remove1D)
  qed
qed

lemma addr_inv_external:
  assumes "external E s s'" and inv: "sys_inv s" and addr: "addr_inv E s"
  shows "addr_inv E s'"
proof -
  note D = addr_invD [OF addr]
  from assms(1) show ?thesis
  proof (cases rule: external.cases)
    case (take_set d ieee expectation exposes lastState t c')
    have new: "entry_ok E (commands s @ [d]) e" if "acks c' = Some r'" "e \<in> set (entries r')" for r' e
      using take_set(6)
    proof (cases rule: register_with_cases)
      case (registered r r1 e1)
      then have "e = e1 \<or> e \<in> set (entries r)"
        using that Register_open(2) [OF registered(2,4)] mset_eq_setD [of "entries r'" "e1 # entries r"] by auto
      moreover have "entry_ok E (commands s @ [d]) e1"
        using registered(6-11) take_set(4,5) by (auto simp: entry_ok_def Let_def getDeviceIeeeAddress_iff)
      ultimately show ?thesis using D(1) [OF registered(1)] entry_ok_mono by blast
    qed (use that D(1) entry_ok_mono in auto)
    show ?thesis unfolding take_set(1)
      by (intro addr_invI) (auto intro: D new entry_ok_mono confirmed_mono answer_ok_mono)
  next
    case (close r)
    then show ?thesis using inv
      by (intro addr_invI) (auto simp: sys_inv_def reg_inv_Some ack_close_result intro: D)
  qed (intro addr_invI; auto intro: D)+
qed

lemma reachable_addr: "reachable E s \<Longrightarrow> addr_inv E s"
proof (induction rule: reachable.induct)
  case (start c)
  then show ?case by (intro addr_invI) (auto simp: sys_start_def starting_def entries_def)
next
  case (step s s')
  then show ?case
    unfolding step_def using addr_inv_internal addr_inv_external reachable_inv by blast
qed

subsection \<open>Running goroutines come to an end\<close>

fun stage_weight :: "stage \<Rightarrow> nat" where
  "stage_weight (Registered t) = 3"
| "stage_weight (Published t err) = 2"
| "stage_weight (Answering a) = 1"

definition reg_weight :: "ack_registry option \<Rightarrow> nat" where
  "reg_weight rs = (case rs of None \<Rightarrow> 0 | Some r \<Rightarrow> 3 * card (set (armed r)) + 2 * length (entries r))"

text \<open>An upper bound on the number of internal steps still possible.\<close>

definition work :: "sys \<Rightarrow> nat" where
  "work s = (case handling s of None \<Rightarrow> 0 | Some (n, ieee, st) \<Rightarrow> stage_weight st)
     + 2 * length (calls s) + length (observing s) + length (delivering s) + length (failing s)
     + 2 * length (firing s) + reg_weight (acks (con s))"

definition idle :: "sys \<Rightarrow> bool" where
  "idle s \<longleftrightarrow> handling s = None \<and> calls s = [] \<and> observing s = [] \<and> firing s = []
     \<and> failing s = [] \<and> delivering s = []
     \<and> (case acks (con s) of None \<Rightarrow> True | Some r \<Rightarrow> armed r = [])"

lemma weight_mono:
  assumes "set (armed r') \<subseteq> set (armed r)" and "mset (entries r') \<subseteq># mset (entries r)"
  shows "reg_weight (Some r') \<le> reg_weight (Some r)"
proof -
  have "card (set (armed r')) \<le> card (set (armed r))" using assms(1) by (simp add: card_mono)
  moreover have "length (entries r') \<le> length (entries r)"
    using size_mset_mono [OF assms(2)] by simp
  ultimately show ?thesis by (simp add: reg_weight_def)
qed

lemma cancel_weight:
  assumes wf: "ack_wf r" and can: "ack_cancel tk r = (ok, r')"
  shows "reg_weight (Some r') \<le> reg_weight (Some r)"
proof (cases "\<exists>e. tk = Some e \<and> fst (removeLocked e r)")
  case True
  then obtain e r1 where e: "tk = Some e" and rem: "removeLocked e r = (True, r1)"
    by (metis prod.collapse)
  have "pend_wf r" using wf by (simp add: ack_wf_def)
  from this rem obtain x where "mset (entries r) = add_mset x (mset (entries r1))" by (rule removeLocked_True)
  with can e rem removeLocked_frame [OF rem] show ?thesis
    by (intro weight_mono) (auto simp: ack_cancel_def armed_stop_timer)
next
  case False
  with can have "r' = r"
    by (auto simp: ack_cancel_def dest: removeLocked_False split: option.splits prod.splits bool.splits)
  then show ?thesis by simp
qed

lemma decide_weight:
  assumes "set_decide d t err c = (a, c')" and wf: "\<And>r. acks c = Some r \<Longrightarrow> ack_wf r"
  shows "reg_weight (acks c') \<le> reg_weight (acks c)"
proof -
  have run: "reg_weight (acks c') \<le> reg_weight (acks c)" if "run_cancel tk c = (ok, c')" for tk ok
  proof (cases "acks c")
    case None
    with that show ?thesis by (auto simp: run_cancel_def)
  next
    case (Some r)
    from run_cancel_Some [OF this that] obtain r1 where
      "ack_cancel tk r = (ok, r1)" "c' = c\<lparr>acks := Some r1\<rparr>" .
    with cancel_weight [OF wf [OF Some]] Some show ?thesis by simp
  qed
  from assms(1) show ?thesis by (cases rule: set_decide_cases) (auto intro: run)
qed

lemma length_remove1_less: "x \<in> set xs \<Longrightarrow> Suc (length (remove1 x xs)) = length xs"
  by (induction xs) auto

lemma fire_weight:
  assumes "e \<in> set (armed r)"
  shows "reg_weight (Some (stop_timer e r)) + 3 \<le> reg_weight (Some r)"
proof -
  have "set (armed (stop_timer e r)) \<subset> set (armed r)" using assms by (auto simp: armed_stop_timer)
  then have "card (set (armed (stop_timer e r))) < card (set (armed r))" by (simp add: psubset_card_mono)
  then show ?thesis by (simp add: reg_weight_def)
qed

lemma work_decreases:
  assumes "internal E s s'" and inv: "sys_inv s"
  shows "work s' < work s"
proof -
  have wfr: "ack_wf r" "pend_wf r" if "acks (con s) = Some r" for r
    using inv that by (simp_all add: sys_inv_def reg_inv_Some ack_wf_def)
  from assms(1) show ?thesis
  proof (cases rule: internal.cases)
    case (publish n ieee t err c')
    then show ?thesis using set_publish_acks [OF publish(3)] by (simp add: work_def)
  next
    case (decide_answer n ieee t err a c')
    from decide_weight [OF decide_answer(3) wfr(1)] show ?thesis
      by (simp add: decide_answer(1,2) work_def)
  next
    case (decide_return n ieee t err c')
    from decide_weight [OF decide_return(3) wfr(1)] show ?thesis
      by (simp add: decide_return(1,2) work_def)
  next
    case (reply n ieee a)
    then show ?thesis by (simp add: work_def)
  next
    case (observe_start ieee pl r st)
    then show ?thesis using length_remove1_less [OF observe_start(2)] by (simp add: work_def)
  next
    case (observe_skip ieee pl r)
    then show ?thesis using length_remove1_less [OF observe_skip(2)] by (simp add: work_def)
  next
    case (observe_end ieee pl st r matched r')
    note facts = observe_match_result [OF wfr(1) [OF observe_end(3)] observe_end(4)]
    have "card (set (armed r')) \<le> card (set (armed r))" using facts(6) by (simp add: card_mono)
    moreover have "length (entries r) = length matched + length (entries r')"
      using facts(2) by (metis size_mset size_union)
    ultimately have "reg_weight (Some r') + 2 * length matched \<le> reg_weight (Some r)"
      by (simp add: reg_weight_def)
    then show ?thesis using length_remove1_less [OF observe_end(2)]
      by (simp add: observe_end(1,3) work_def)
  next
    case (deliver e pl)
    then show ?thesis using length_remove1_less [OF deliver(2)] by (simp add: work_def)
  next
    case (fire r e)
    then show ?thesis using fire_weight [OF fire(3)] by (simp add: work_def)
  next
    case (expire_gone e r r')
    then show ?thesis using length_remove1_less [OF expire_gone(2)] removeLocked_False [OF expire_gone(4)]
      by (simp add: work_def)
  next
    case (expire_take e r r')
    from wfr(2) [OF expire_take(3)] expire_take(4) obtain x where
      "mset (entries r) = add_mset x (mset (entries r'))" by (rule removeLocked_True)
    then have "length (entries r) = Suc (length (entries r'))" by (metis size_mset size_add_mset)
    then show ?thesis
      using expire_take length_remove1_less [OF expire_take(2)] removeLocked_frame [OF expire_take(4)]
      by (simp add: work_def reg_weight_def)
  next
    case (fail e r)
    then show ?thesis using length_remove1_less [OF fail(2)] by (simp add: work_def)
  qed
qed

text \<open>The handler can go on, and so can anybody else who is not done.\<close>

lemma handler_progress:
  assumes "handling s = Some h"
  shows "\<exists>s'. internal E s s' \<and> handling s' \<noteq> handling s"
proof -
  obtain n ieee st where h: "h = (n, ieee, st)" by (cases h)
  show ?thesis
  proof (cases st)
    case (Registered t)
    obtain err c' where "set_publish E ieee (commands s ! n) (con s) = (err, c')" by fastforce
    from internal.publish [OF assms [unfolded h Registered] this] show ?thesis using assms h Registered by fastforce
  next
    case (Published t err)
    note han = assms [unfolded h Published]
    obtain a c' where d: "set_decide (commands s ! n) t err (con s) = (a, c')" by fastforce
    show ?thesis
    proof (cases a)
      case None
      from internal.decide_return [OF han d [unfolded None]] han show ?thesis by fastforce
    next
      case (Some x)
      from internal.decide_answer [OF han d [unfolded Some]] han show ?thesis by fastforce
    qed
  next
    case (Answering a)
    from internal.reply [OF assms [unfolded h Answering], of E] assms show ?thesis by fastforce
  qed
qed

lemma busy_progress:
  assumes "sys_inv s" and "\<not> idle s"
  shows "\<exists>s'. internal E s s'"
proof (cases "handling s")
  case (Some h)
  from handler_progress [OF this] show ?thesis by blast
next
  case None
  show ?thesis
  proof (cases "acks (con s)")
    case None': None
    with assms \<open>handling s = None\<close> show ?thesis
      by (auto simp: idle_def sys_inv_def reg_inv_def)
  next
    case (Some r)
    have some: "(\<And>x. x \<in> set xs \<Longrightarrow> thesis) \<Longrightarrow> xs \<noteq> [] \<Longrightarrow> thesis" for xs :: "'x list" and thesis
      using hd_in_set by blast
    have "calls s \<noteq> [] \<or> observing s \<noteq> [] \<or> firing s \<noteq> [] \<or> failing s \<noteq> [] \<or> delivering s \<noteq> [] \<or> armed r \<noteq> []"
      using assms(2) None Some by (simp add: idle_def)
    then consider x where "x \<in> set (calls s)" | x where "x \<in> set (observing s)" | x where "x \<in> set (firing s)"
      | x where "x \<in> set (failing s)" | x where "x \<in> set (delivering s)" | x where "x \<in> set (armed r)"
      by (elim disjE) (rule some, assumption+)+
    then show ?thesis
    proof cases
      case (1 x)
      then show ?thesis
        using Some internal.observe_start [of "fst x" "snd x" s r] internal.observe_skip [of "fst x" "snd x" s r]
        by (cases "observe_begin (fst x) (snd x) r") auto
    next
      case (2 x)
      obtain i pl st where x: "x = (i, pl, st)" by (cases x)
      with 2 show ?thesis
        using Some internal.observe_end [of i pl st s r] by (metis prod.collapse)
    next
      case (3 x)
      then show ?thesis
        using Some internal.expire_gone [of x s r] internal.expire_take [of x s r]
        by (cases "removeLocked x r"; cases "fst (removeLocked x r)") auto
    next
      case (4 x)
      then show ?thesis using Some internal.fail by blast
    next
      case (5 x)
      then show ?thesis using internal.deliver [of "fst x" "snd x" s] by auto
    next
      case (6 x)
      then show ?thesis using Some internal.fire by blast
    qed
  qed
qed

lemma internal_open:
  assumes "internal E s s'" and inv: "sys_inv s"
  shows "is_open s' = is_open s"
proof -
  have wfr: "ack_wf r" if "acks (con s) = Some r" for r
    using inv that by (simp add: sys_inv_def reg_inv_Some)
  have run: "(case acks c' of None \<Rightarrow> True | Some r \<Rightarrow> \<not> ack_closed r) = is_open s"
    if "set_decide d t err (con s) = (a, c')" for d t err a c'
    using that
  proof (cases rule: set_decide_cases)
    case (cancelled tk msg)
    then show ?thesis
      by (auto simp: run_cancel_def is_open_def dest: cancel_closed split: option.splits prod.splits)
  next
    case (late tk)
    then show ?thesis
      by (auto simp: run_cancel_def is_open_def dest: cancel_closed split: option.splits prod.splits)
  qed (simp_all add: is_open_def)
  from assms(1) show ?thesis
  proof (cases rule: internal.cases)
    case (publish n ieee t err c')
    then show ?thesis using set_publish_acks [OF publish(3)] by (simp add: is_open_def)
  next
    case (decide_answer n ieee t err a c')
    from run [OF decide_answer(3)] show ?thesis by (simp add: decide_answer(1) is_open_def)
  next
    case (decide_return n ieee t err c')
    from run [OF decide_return(3)] show ?thesis by (simp add: decide_return(1) is_open_def)
  next
    case (observe_end ieee pl st r matched r')
    then show ?thesis using observe_match_result(4) [OF wfr [OF observe_end(3)] observe_end(4)]
      by (simp add: is_open_def)
  next
    case (expire_gone e r r')
    then show ?thesis using removeLocked_frame [OF expire_gone(4)] by (simp add: is_open_def)
  next
    case (expire_take e r r')
    then show ?thesis using removeLocked_frame [OF expire_take(4)] by (simp add: is_open_def)
  qed (simp_all add: is_open_def)
qed

lemma internal_commands: "internal E s s' \<Longrightarrow> commands s' = commands s"
  by (auto elim: internal.cases)

lemma reachable_internal: "reachable E s \<Longrightarrow> (internal E)\<^sup>*\<^sup>* s s' \<Longrightarrow> reachable E s'"
  by (erule rtranclp_induct) (auto simp: step_def intro: reachable.step)

lemma reach_idle:
  assumes "sys_inv s"
  shows "\<exists>s'. (internal E)\<^sup>*\<^sup>* s s' \<and> idle s' \<and> sys_inv s' \<and> is_open s' = is_open s \<and> commands s' = commands s"
  using assms
proof (induction "work s" arbitrary: s rule: less_induct)
  case less
  show ?case
  proof (cases "idle s")
    case False
    from busy_progress [OF less.prems this] obtain s1 where s1: "internal E s s1" by blast
    from less.hyps [OF work_decreases [OF s1 less.prems]] sys_inv_internal [OF s1 less.prems] obtain s' where
      "(internal E)\<^sup>*\<^sup>* s1 s'" "idle s'" "sys_inv s'" "is_open s' = is_open s1" "commands s' = commands s1"
      by blast
    with s1 internal_open [OF s1 less.prems] internal_commands [OF s1] show ?thesis
      by (intro exI [of _ s']) (auto intro: converse_rtranclp_into_rtranclp)
  qed (use less.prems in blast)
qed

lemma internal_run_bound:
  assumes "(internal E ^^ k) s s'" and "sys_inv s"
  shows "work s' + k \<le> work s"
  using assms
proof (induction k arbitrary: s')
  case (Suc k)
  then obtain s1 where s1: "(internal E ^^ k) s s1" "internal E s1 s'" by auto
  have "sys_inv s1" using s1(1) Suc.prems(2)
    by (induction k arbitrary: s1) (auto dest: sys_inv_internal)
  from work_decreases [OF s1(2) this] Suc.IH [OF s1(1) Suc.prems(2)] show ?case by simp
qed simp

text \<open>When nothing runs any more, every command is answered, if the registry was not closed.\<close>

lemma idle_answered:
  assumes "idle s" and "sys_inv s" and "tokens_ok s" and "is_open s"
  shows "mset (map fst (answered s)) = mset [0..<length (commands s)]"
proof -
  have "reg_tokens (acks (con s)) = {#}"
  proof (cases "acks (con s)")
    case (Some r)
    with assms(1,2) have "entries r = []"
      by (cases "entries r") (auto simp: idle_def sys_inv_def reg_inv_Some)
    with Some show ?thesis by (simp add: reg_tokens_def)
  qed (simp add: reg_tokens_def)
  with assms show ?thesis by (simp add: tokens_ok_def tokens_unfold idle_def handler_tokens_def)
qed

lemma answered_distinct:
  assumes "tokens_ok s"
  shows "distinct (map fst (answered s))" and "set (map fst (answered s)) \<subseteq> {..<length (commands s)}"
proof -
  have "mset (map fst (answered s)) \<subseteq># tokens s" by (simp add: tokens_unfold)
  with assms have sub: "mset (map fst (answered s)) \<subseteq># mset [0..<length (commands s)]"
    by (auto simp: tokens_ok_def intro: subset_mset.order_trans)
  show "set (map fst (answered s)) \<subseteq> {..<length (commands s)}"
    using set_mset_mono [OF sub] by auto
  from sub obtain M where "mset [0..<length (commands s)] = mset (map fst (answered s)) + M"
    by (rule mset_subset_eq_exists_conv [THEN iffD1, THEN exE])
  moreover obtain zs where "mset zs = M" using ex_mset by blast
  ultimately have "mset [0..<length (commands s)] = mset (map fst (answered s) @ zs)" by simp
  then have "distinct [0..<length (commands s)] = distinct (map fst (answered s) @ zs)"
    by (rule mset_eq_imp_distinct_iff)
  then show "distinct (map fst (answered s))" by simp
qed

subsection \<open>The wait group\<close>

definition wg_ok :: "sys \<Rightarrow> bool" where
  "wg_ok s \<longleftrightarrow> wg s = (if watcher s then 1 else 0) + int (length (delivering s))
     \<and> (\<forall>r. acks (con s) = Some r \<longrightarrow> \<not> ack_closed r \<longrightarrow> watcher s)"

lemma int_length_remove1: "x \<in> set xs \<Longrightarrow> int (length (remove1 x xs)) = int (length xs) - 1"
  using length_remove1_less [of x xs] by simp

lemma wg_step:
  assumes "step E s s'" and inv: "sys_inv s" and ok: "wg_ok s"
  shows "wg_ok s'"
proof -
  have le: "closed_le (acks (con s)) (acks (con s'))" using sys_inv_step [OF assms(1) inv] by simp
  have w: "watcher s" if "acks (con s') = Some r" "\<not> ack_closed r" for r
    using le that ok by (cases "acks (con s)") (auto simp: closed_le_def wg_ok_def)
  have "wg s' = (if watcher s' then 1 else 0) + int (length (delivering s'))
      \<and> (watcher s' = watcher s \<or> (\<exists>r. acks (con s') = Some r \<and> ack_closed r))"
    using assms(1) ok unfolding step_def wg_ok_def
    by (auto elim!: internal.cases external.cases simp: int_length_remove1 simp del: length_remove1)
  with w show ?thesis by (auto simp: wg_ok_def)
qed

lemma reachable_wg: "reachable E s \<Longrightarrow> wg_ok s"
proof (induction rule: reachable.induct)
  case (step s s')
  then show ?case using wg_step reachable_inv by blast
qed (auto simp: wg_ok_def sys_start_def)

end
