(* ===== verification/DeviceHandling.thy ===== *)
theory DeviceHandling
  imports ConnectorState
begin

section \<open>Device handling (\<^verbatim>\<open>pkg/connector/device.go\<close>)\<close>

text \<open>
  What happens with a device list: the device type of each device is looked up or created,
  the device is announced to the gateway, and devices whose type could not be read are kept
  for a retry. A panic of the code is \<open>None\<close>: the only one is the type name of a nil value
  in \<^verbatim>\<open>valueToContentVariable\<close>.
\<close>

subsection \<open>Device attributes\<close>

definition AttributeLastMessageMaxAge :: string where
  "AttributeLastMessageMaxAge = ''last_message_max_age''"

text \<open>The loop over the attributes; \<open>None\<close> is the error of an invalid duration.\<close>

primrec device_attributes_loop :: "mgw_attribute list \<Rightarrow> mgw_attribute list \<Rightarrow> mgw_attribute list option" where
  "device_attributes_loop [] result = Some result"
| "device_attributes_loop (attr # rest) result =
     (if AttrValue attr = [] then device_attributes_loop rest result
      else case ParseDuration (AttrValue attr) of
             None \<Rightarrow> None
           | Some _ \<Rightarrow> device_attributes_loop rest (result @ [attr]))"

definition getDeviceAttributes :: "config \<Rightarrow> mgw_attribute list option" where
  "getDeviceAttributes cfg = device_attributes_loop
     [\<lparr>AttrKey = AttributeLastMessageMaxAge, AttrValue = TrimSpace (LastMessageMaxAge cfg)\<rparr>] []"

definition isValidDevice :: "device_info \<Rightarrow> bool" where
  "isValidDevice device =
     (if \<not> Supported device then False
      else if \<not> InterviewCompleted device then False
      else if Vendor (Definition device) = [] then False
      else if Model (Definition device) = [] then False
      else if Exposes (Definition device) = [] then False
      else True)"

subsection \<open>Device types\<close>

fun valueToContentVariable :: "string \<Rightarrow> go_value \<Rightarrow> content_variable option"
  and list_variables :: "int \<Rightarrow> go_value list \<Rightarrow> content_variable list option"
  and map_variables :: "(string \<times> go_value) list \<Rightarrow> content_variable list option"
where
  "valueToContentVariable name (VStr s) = Some (ContentVariable name CvString False True [])"
| "valueToContentVariable name (VFloat x) = Some (ContentVariable name CvFloat False True [])"
| "valueToContentVariable name (VInt i) = Some (ContentVariable name CvFloat False True [])"
| "valueToContentVariable name (VBool b) = Some (ContentVariable name CvBoolean False True [])"
| "valueToContentVariable name (VList vs) =
     map_option (ContentVariable name CvList False True) (list_variables 0 vs)"
| "valueToContentVariable name (VMap m) =
     map_option (ContentVariable name CvStructure False True) (map_variables m)"
| "valueToContentVariable name VNil = None"
| "list_variables i [] = Some []"
| "list_variables i (v # vs) =
     (case valueToContentVariable (Itoa i) v of None \<Rightarrow> None
      | Some x \<Rightarrow> map_option ((#) x) (list_variables (i + 1) vs))"
| "map_variables [] = Some []"
| "map_variables ((k, v) # ms) =
     (case valueToContentVariable k v of None \<Rightarrow> None
      | Some x \<Rightarrow> map_option ((#) x) (map_variables ms))"

definition JSON :: string where "JSON = ''json''"

definition service_content :: "config \<Rightarrow> content_variable \<Rightarrow> content list" where
  "service_content cfg cv = [\<lparr>content_variable = cv, serialization = JSON,
     protocol_segment_id = CreateMissingDeviceTypesWithProtocolSegment cfg\<rparr>]"

definition set_service :: "config \<Rightarrow> content_variable \<Rightarrow> models_service" where
  "set_service cfg cv = \<lparr>ms_Id = [], ms_LocalId = ''set'', ms_Name = ''set'', ms_Interaction = REQUEST,
     ms_ProtocolId = CreateMissingDeviceTypesWithProtocol cfg, ms_Attributes = [],
     ms_Inputs = service_content cfg cv, ms_Outputs = []\<rparr>"

definition get_service :: "config \<Rightarrow> content_variable \<Rightarrow> models_service" where
  "get_service cfg cv = \<lparr>ms_Id = [], ms_LocalId = ''get'', ms_Name = ''get'',
     ms_Interaction = EVENT_AND_REQUEST, ms_ProtocolId = CreateMissingDeviceTypesWithProtocol cfg,
     ms_Attributes = [], ms_Inputs = [], ms_Outputs = service_content cfg cv\<rparr>"

text \<open>One of the two services: none for an empty message, a panic if a value is nil.\<close>

definition service_for ::
    "(config \<Rightarrow> content_variable \<Rightarrow> models_service) \<Rightarrow> config \<Rightarrow> (string, go_value) gomap \<Rightarrow>
       models_service list option" where
  "service_for mk cfg m =
     (if m \<noteq> [] then map_option (\<lambda>cv. [mk cfg cv]) (valueToContentVariable ''value'' (VMap m))
      else Some [])"

definition zigbeeDeviceToDeviceType :: "config \<Rightarrow> device_info \<Rightarrow> models_device_type option" where
  "zigbeeDeviceToDeviceType cfg device =
     (let output = GetZigbeeMessageOutputStruct device;
          input = GetZigbeeMessageInputStruct device;
          vendor = Vendor (Definition device);
          m = Model (Definition device)
      in case service_for set_service cfg input of
           None \<Rightarrow> None
         | Some setter \<Rightarrow>
             (case service_for get_service cfg output of
                None \<Rightarrow> None
              | Some getter \<Rightarrow>
                  Some \<lparr>md_Id = [], md_Name = ''UNFINISHED zigbee2mqtt '' @ vendor @ '' '' @ m,
                    md_Description = [], md_DeviceClassId = CreateMissingDeviceTypesWithDeviceClass cfg,
                    md_Attributes = [\<lparr>Key = AttributeUsedForZigbee, Value = ''true''\<rparr>,
                      \<lparr>Key = AttributeZigbeeVendor, Value = vendor\<rparr>,
                      \<lparr>Key = AttributeZigbeeModel, Value = m\<rparr>],
                    md_Services = setter @ getter\<rparr>))"

definition createDeviceType ::
    "env \<Rightarrow> device_info \<Rightarrow> connector \<Rightarrow> (string \<times> goerr option \<times> connector) option" where
  "createDeviceType E device c =
     (case zigbeeDeviceToDeviceType (conf E) device of
        None \<Rightarrow> None
      | Some dt \<Rightarrow>
          Some (case with_repo (CreateDeviceTypeWithDistinctAttributes (conf E) (platform E) dt
                    [AttributeUsedForZigbee, AttributeZigbeeVendor, AttributeZigbeeModel]) c of
                  (Inl (e, code), c') \<Rightarrow> ([], Some e, c')
                | (Inr (result, code), c') \<Rightarrow> (md_Id result, None, c')))"

definition getDeviceTypeId :: "env \<Rightarrow> device_info \<Rightarrow> connector \<Rightarrow> (goerr + string) \<times> connector" where
  "getDeviceTypeId E device c =
     (case with_repo (GetKnownDeviceDeviceTypeId (conf E) (platform E) (getDeviceId (conf E) device)) c of
        (Inl e, c1) \<Rightarrow> (Inl e, c1)
      | (Inr (Some dtId), c1) \<Rightarrow> (Inr dtId, c1)
      | (Inr None, c1) \<Rightarrow> with_repo (FindDeviceTypeId (conf E) (platform E) device) c1)"

definition newline :: string where "newline = [CHR 0x0A]"

definition GetMissingDeviceTypeMessage :: "env \<Rightarrow> device_info \<Rightarrow> string" where
  "GetMissingDeviceTypeMessage E device =
     (let vendor = Vendor (Definition device); m = Model (Definition device);
          output = marshal_indent E (GetZigbeeMessageOutputStruct device);
          input = marshal_indent E (GetZigbeeMessageInputStruct device)
      in Join
        [''missing zigbee device-type, please provide a device-type with:'',
         ''ref: https://www.zigbee2mqtt.io/devices/'' @ m @ ''.html'',
         ''attributes:'',
         ''    - '' @ AttributeUsedForZigbee @ '' = true'',
         ''    - '' @ AttributeZigbeeVendor @ '' = '' @ vendor,
         ''    - '' @ AttributeZigbeeModel @ '' = '' @ m,
         ''services:'', ''---------------'', ''local-id: get'', ''protocol: standard-connector'',
         ''example output data:'', output, ''---------------'', ''local-id: set'',
         ''protocol: standard-connector'', ''example input data:'', input, ''---------------'', []]
        newline)"

subsection \<open>One device\<close>

record update_result =
  NewDeviceType :: string
  Err :: "goerr option"
  Retry :: bool

definition no_result :: update_result where
  "no_result = \<lparr>NewDeviceType = [], Err = None, Retry = False\<rparr>"

definition WithErr :: "goerr option \<Rightarrow> update_result \<Rightarrow> update_result" where
  [simp]: "WithErr err this = this\<lparr>Err := err\<rparr>"

definition WithNewDeviceType :: "string \<Rightarrow> update_result \<Rightarrow> update_result" where
  [simp]: "WithNewDeviceType newDeviceType this = this\<lparr>NewDeviceType := newDeviceType\<rparr>"

text \<open>The end of \<^verbatim>\<open>handleDeviceInfoUpdate\<close>: the state is stored and the device announced.\<close>

definition announce :: "env \<Rightarrow> device_info \<Rightarrow> string \<Rightarrow> update_result \<Rightarrow> connector \<Rightarrow> update_result \<times> connector" where
  "announce E device deviceTypeId result c =
     (let st = getDeviceState device;
          c1 = storeDeviceState (IeeeAddress device) st c
      in case c_SetDevice E (getDeviceId (conf E) device)
               \<lparr>InfoName = getDeviceName device, State = st, DeviceType = deviceTypeId,
                InfoAttributes = deviceAttributes c1\<rparr> c1 of
           (Some e, c2) \<Rightarrow> (WithErr (Some e) result, c2)
         | (None, c2) \<Rightarrow> (result, c2))"

definition handle_no_type ::
    "env \<Rightarrow> device_info \<Rightarrow> goerr \<Rightarrow> connector \<Rightarrow> (update_result \<times> connector) option" where
  "handle_no_type E device err c =
     (if CreateMissingDeviceTypes (conf E) then
        (case createDeviceType E device c of
           None \<Rightarrow> None
         | Some (dtId, Some e, c1) \<Rightarrow> Some (WithErr (Some e) (WithNewDeviceType dtId no_result), c1)
         | Some (dtId, None, c1) \<Rightarrow> Some (announce E device dtId (WithNewDeviceType dtId no_result) c1))
      else
        Some (WithErr (Some err) no_result,
              c_SendClientError E (GetMissingDeviceTypeMessage E device) c))"

definition handleDeviceInfoUpdate ::
    "env \<Rightarrow> device_info \<Rightarrow> connector \<Rightarrow> (update_result \<times> connector) option" where
  "handleDeviceInfoUpdate E device c =
     (if isValidDevice device then
        (case getDeviceTypeId E device c of
           (Inr deviceTypeId, c1) \<Rightarrow> Some (announce E device deviceTypeId no_result c1)
         | (Inl err, c1) \<Rightarrow>
             if is_no_match err then handle_no_type E device err c1
             else Some (WithErr (Some err) (no_result\<lparr>Retry := True\<rparr>), c1))
      else Some (no_result, c))"

subsection \<open>A device list\<close>

text \<open>
  \<open>wasFailing\<close> are the addresses of the devices that failed before. The variables
  \<^verbatim>\<open>failed\<close>, \<^verbatim>\<open>recovered\<close> and \<^verbatim>\<open>err\<close> are threaded through the loop.
\<close>

primrec updates_loop ::
    "env \<Rightarrow> string set \<Rightarrow> device_info list \<Rightarrow> device_info list \<Rightarrow> device_info list \<Rightarrow> goerr option \<Rightarrow>
       connector \<Rightarrow> (device_info list \<times> device_info list \<times> goerr option \<times> connector) option" where
  "updates_loop E wasFailing [] failed recovered err c = Some (failed, recovered, err, c)"
| "updates_loop E wasFailing (device # ds) failed recovered err c =
     (case handleDeviceInfoUpdate E device c of
        None \<Rightarrow> None
      | Some (result, c1) \<Rightarrow>
          if Retry result then updates_loop E wasFailing ds (failed @ [device]) recovered (Err result) c1
          else if Err result = None \<and> IeeeAddress device \<in> wasFailing \<and> \<not> Disabled device then
            updates_loop E wasFailing ds failed (recovered @ [device]) err c1
          else updates_loop E wasFailing ds failed recovered err c1)"

definition handleDeviceInfoUpdates ::
    "env \<Rightarrow> device_info list \<Rightarrow> device_info list \<Rightarrow> connector \<Rightarrow>
       (device_info list \<times> device_info list \<times> goerr option \<times> connector) option" where
  "handleDeviceInfoUpdates E devices previouslyFailed c =
     updates_loop E (set (map IeeeAddress previouslyFailed)) devices [] [] None c"

text \<open>\<^verbatim>\<open>refreshEventValues\<close>: the goroutine goes on after an error.\<close>

primrec refreshEventValues :: "env \<Rightarrow> device_info list \<Rightarrow> connector \<Rightarrow> connector" where
  "refreshEventValues E [] c = c"
| "refreshEventValues E (device # ds) c =
     refreshEventValues E ds
       (snd (with_zigbee (z_RefreshDeviceEventValues (conf E) (zbroker E) device) c))"

subsection \<open>The device loop\<close>

definition deviceRetryMinDelay :: int where "deviceRetryMinDelay = second"
definition deviceRetryMaxDelay :: int where "deviceRetryMaxDelay = minute"

text \<open>
  The variables of the goroutine of \<^verbatim>\<open>startDeviceHandling\<close>; \<open>retry\<close> is the timer, with
  its duration, or nil. \<open>refreshing\<close> are the lists handed to \<^verbatim>\<open>refreshEventValues\<close>.
\<close>

record device_loop =
  failed :: "device_info list"
  retry :: "int option"
  delay :: int
  refreshing :: "device_info list list"

definition device_loop_start :: device_loop where
  "device_loop_start = \<lparr>failed = [], retry = None, delay = deviceRetryMinDelay, refreshing = []\<rparr>"

text \<open>What the \<^verbatim>\<open>select\<close> receives: a device list, or the timer when there is one.\<close>

datatype loop_event = NewList "device_info list" | RetryTimer

definition loop_handle ::
    "env \<Rightarrow> loop_event \<Rightarrow> device_loop \<Rightarrow> connector \<Rightarrow>
       ((device_info list \<times> device_info list \<times> goerr option \<times> connector) option) \<times> int" where
  "loop_handle E ev L c =
     (case ev of
        NewList devices \<Rightarrow> (handleDeviceInfoUpdates E devices (failed L) c, deviceRetryMinDelay)
      | RetryTimer \<Rightarrow> (handleDeviceInfoUpdates E (failed L) (failed L) c,
                       min (2 * delay L) deviceRetryMaxDelay))"

text \<open>One round; \<open>None\<close> is a panic. The timer can only be received when it is armed.\<close>

definition loop_enabled :: "loop_event \<Rightarrow> device_loop \<Rightarrow> bool" where
  "loop_enabled ev L \<longleftrightarrow> (ev = RetryTimer \<longrightarrow> retry L \<noteq> None)"

definition loop_step ::
    "env \<Rightarrow> loop_event \<Rightarrow> device_loop \<times> connector \<Rightarrow> (device_loop \<times> connector) option" where
  "loop_step E ev s =
     (case s of (L, c) \<Rightarrow>
        (case loop_handle E ev L c of
           (None, d) \<Rightarrow> None
         | (Some (fs, recovered, err, c'), d) \<Rightarrow>
             Some (\<lparr>failed = fs, retry = (if fs \<noteq> [] then Some d else None), delay = d,
                    refreshing = refreshing L @ (if recovered \<noteq> [] then [recovered] else [])\<rparr>, c')))"

text \<open>
  The states of the loop, with the number of timer rounds since the last list. Between two
  rounds the rest of the program may change everything else.
\<close>

inductive loop_reachable :: "env \<Rightarrow> nat \<Rightarrow> device_loop \<Rightarrow> bool" for E where
  start: "loop_reachable E 0 device_loop_start"
| new_list: "loop_reachable E k L \<Longrightarrow> loop_step E (NewList ds) (L, c) = Some (L', c') \<Longrightarrow>
    loop_reachable E 0 L'"
| timer: "loop_reachable E k L \<Longrightarrow> loop_enabled RetryTimer L \<Longrightarrow>
    loop_step E RetryTimer (L, c) = Some (L', c') \<Longrightarrow> loop_reachable E (Suc k) L'"

subsection \<open>What one device does\<close>

lemma isValidDevice_iff:
  "isValidDevice d \<longleftrightarrow> Supported d \<and> InterviewCompleted d \<and> Vendor (Definition d) \<noteq> []
     \<and> Model (Definition d) \<noteq> [] \<and> Exposes (Definition d) \<noteq> []"
  by (simp add: isValidDevice_def)

lemma getDeviceTypeId_frame:
  assumes "getDeviceTypeId E d c = (x, c')"
  shows "c' = c\<lparr>devicerepo := devicerepo c'\<rparr>"
  using assms by (auto simp: getDeviceTypeId_def split: prod.splits sum.splits option.splits)

lemma createDeviceType_frame:
  assumes "createDeviceType E d c = Some (i, e, c')"
  shows "c' = c\<lparr>devicerepo := devicerepo c'\<rparr>"
  using assms by (auto simp: createDeviceType_def split: option.splits prod.splits sum.splits)

lemma getDeviceTypeId_keeps:
  assumes "getDeviceTypeId E d c = (Inl e, c')"
  shows "keeps (devicerepo c) (devicerepo c')"
proof -
  have find: "keeps r r'" if "FindDeviceTypeId cfg R d r = (x, r')" for cfg R r x r'
    using that by (auto simp: FindDeviceTypeId_def dest: keeps_find split: prod.splits sum.splits)
  obtain x1 r1 where known: "GetKnownDeviceDeviceTypeId (conf E) (platform E) (getDeviceId (conf E) d)
      (devicerepo c) = (x1, r1)" by fastforce
  show ?thesis
  proof (cases "\<exists>e. x1 = Inl e \<or> x1 = Inr None")
    case True
    with known have "keeps (devicerepo c) r1"
      by (auto simp: GetKnownDeviceDeviceTypeId_def dest: keeps_device split: option.splits prod.splits sum.splits)
    with assms known True show ?thesis
      by (cases "FindDeviceTypeId (conf E) (platform E) d r1")
         (auto simp: getDeviceTypeId_def dest!: find intro: keeps_trans split: sum.splits)
  next
    case False
    with assms known show ?thesis
      by (auto simp: getDeviceTypeId_def split: sum.splits option.splits)
  qed
qed

lemma announce_result:
  assumes "announce E d dtId res c = (res', c')"
  shows "devicestate c' = mput (IeeeAddress d) (getDeviceState d) (devicestate c)"
    and "Err res = None \<Longrightarrow> sent c' = sent c @ (if Err res' = None then
      [message_on (''device-manager/device/'' @ ConnectorId (conf E))
        (enc_update ''set'' (getDeviceId (conf E) d)
          \<lparr>InfoName = FriendlyName d, State = getDeviceState d, DeviceType = dtId,
           InfoAttributes = deviceAttributes c\<rparr>)] else [])"
    and "Retry res' = Retry res" and "NewDeviceType res' = NewDeviceType res"
    and "zigbee c' = zigbee c" and "acks c' = acks c" and "devicerepo c' = devicerepo c"
proof -
  let ?info = "\<lparr>InfoName = getDeviceName d, State = getDeviceState d, DeviceType = dtId,
    InfoAttributes = deviceAttributes c\<rparr>"
  let ?c1 = "storeDeviceState (IeeeAddress d) (getDeviceState d) c"
  obtain x c2 where call: "c_SetDevice E (getDeviceId (conf E) d) ?info ?c1 = (x, c2)" by fastforce
  have attrs: "deviceAttributes ?c1 = deviceAttributes c" by (simp add: storeDeviceState_def)
  have res': "res' = (case x of None \<Rightarrow> res | Some e \<Rightarrow> res\<lparr>Err := Some e\<rparr>)" "c' = c2"
    using assms call attrs by (auto simp: announce_def Let_def split: option.splits)
  have c2: "devicestate c2 = mput (IeeeAddress d) (getDeviceState d) (devicestate c)"
      "zigbee c2 = zigbee c" "acks c2 = acks c" "devicerepo c2 = devicerepo c"
    using call by (auto simp: c_SetDevice_def storeDeviceState_def)
  have "sent c2 = sent ?c1 @ (if x = None then
      [message_on (''device-manager/device/'' @ ConnectorId (conf E))
        (enc_update ''set'' (getDeviceId (conf E) d) ?info)] else [])"
    using setting_device.reported [of E "getDeviceId (conf E) d" ?info ?c1] call by simp
  moreover have "sent ?c1 = sent c" by (simp add: sent_def storeDeviceState_def)
  ultimately show "sent c' = sent c @ (if Err res' = None then
      [message_on (''device-manager/device/'' @ ConnectorId (conf E))
        (enc_update ''set'' (getDeviceId (conf E) d)
          \<lparr>InfoName = FriendlyName d, State = getDeviceState d, DeviceType = dtId,
           InfoAttributes = deviceAttributes c\<rparr>)] else [])" if "Err res = None"
    using res' that by (cases x) (auto simp: getDeviceName_def)
  show "devicestate c' = mput (IeeeAddress d) (getDeviceState d) (devicestate c)"
    "Retry res' = Retry res" "NewDeviceType res' = NewDeviceType res"
    "zigbee c' = zigbee c" "acks c' = acks c" "devicerepo c' = devicerepo c"
    using res' c2 by (cases x; simp)+
qed

lemma retry_result:
  assumes "handleDeviceInfoUpdate E d c = Some (res, c')" and "Retry res"
  obtains e where "isValidDevice d" "Err res = Some e" "\<not> is_no_match e"
    "getDeviceTypeId E d c = (Inl e, c')"
proof -
  have no: "Retry r \<Longrightarrow> announce E d i r0 c1 = (r, c2) \<Longrightarrow> Retry r0" for r r0 i c1 c2
    by (simp add: announce_result(3))
  from assms show thesis
    by (auto simp: handleDeviceInfoUpdate_def handle_no_type_def no_result_def dest!: no [rotated]
        intro: that split: if_splits prod.splits sum.splits option.splits)
qed

subsection \<open>What a device list does\<close>

text \<open>The results of the devices, one after the other.\<close>

primrec update_results ::
    "env \<Rightarrow> device_info list \<Rightarrow> connector \<Rightarrow> (update_result list \<times> connector) option" where
  "update_results E [] c = Some ([], c)"
| "update_results E (d # ds) c =
     (case handleDeviceInfoUpdate E d c of
        None \<Rightarrow> None
      | Some (res, c1) \<Rightarrow>
          (case update_results E ds c1 of
             None \<Rightarrow> None
           | Some (rs, c2) \<Rightarrow> Some (res # rs, c2)))"

text \<open>What the loop is meant to compute from them.\<close>

definition to_retry :: "(device_info \<times> update_result) list \<Rightarrow> (device_info \<times> update_result) list" where
  "to_retry rs = filter (\<lambda>x. Retry (snd x)) rs"

definition last_error :: "goerr option \<Rightarrow> (device_info \<times> update_result) list \<Rightarrow> goerr option" where
  "last_error err rs = (if to_retry rs = [] then err else Err (snd (last (to_retry rs))))"

definition now_registered :: "string set \<Rightarrow> (device_info \<times> update_result) list \<Rightarrow> device_info list" where
  "now_registered was rs = map fst (filter (\<lambda>(d, res). \<not> Retry res \<and> Err res = None
     \<and> IeeeAddress d \<in> was \<and> \<not> Disabled d) rs)"

lemma update_results_length: "update_results E ds c = Some (rs, c') \<Longrightarrow> length rs = length ds"
  by (induction ds arbitrary: c rs) (auto split: option.splits prod.splits)

lemma updates_loop_results:
  "updates_loop E was ds fs rec err c =
     (case update_results E ds c of
        None \<Rightarrow> None
      | Some (rs, c') \<Rightarrow>
          (let z = zip ds rs in
           Some (fs @ map fst (to_retry z), rec @ now_registered was z, last_error err z, c')))"
proof (induction ds arbitrary: fs rec err c)
  case Nil
  then show ?case by (simp add: to_retry_def now_registered_def last_error_def)
next
  case (Cons d ds)
  show ?case
  proof (cases "handleDeviceInfoUpdate E d c")
    case None
    then show ?thesis by simp
  next
    case (Some x)
    obtain res c1 where x: "x = (res, c1)" by (cases x)
    show ?thesis
    proof (cases "update_results E ds c1")
      case None
      with Some x Cons.IH show ?thesis by simp
    next
      case (Some y)
      obtain rs c2 where y: "y = (rs, c2)" by (cases y)
      with Some \<open>handleDeviceInfoUpdate E d c = Some x\<close> x Cons.IH show ?thesis
        by (simp add: to_retry_def now_registered_def last_error_def Let_def)
    qed
  qed
qed

lemma last_error_iff:
  assumes "update_results E ds c = Some (rs, c')"
  shows "last_error None (zip ds rs) \<noteq> None \<longleftrightarrow> to_retry (zip ds rs) \<noteq> []"
proof -
  have err: "\<forall>res \<in> set rs. Retry res \<longrightarrow> Err res \<noteq> None"
    using assms
  proof (induction ds arbitrary: c rs)
    case (Cons d ds)
    obtain res c1 rs' c2 where "handleDeviceInfoUpdate E d c = Some (res, c1)"
      "update_results E ds c1 = Some (rs', c2)" "rs = res # rs'"
      using Cons.prems by (auto split: option.splits prod.splits)
    with Cons.IH [of c1 rs'] Cons.prems show ?case by (auto elim: retry_result)
  qed simp
  have "snd (last (to_retry (zip ds rs))) \<in> set rs \<and> Retry (snd (last (to_retry (zip ds rs))))"
    if "to_retry (zip ds rs) \<noteq> []"
    using last_in_set [OF that] set_zip_rightD [of "fst (last (to_retry (zip ds rs)))"
        "snd (last (to_retry (zip ds rs)))" ds rs] by (simp add: to_retry_def)
  with err show ?thesis by (auto simp: last_error_def)
qed

subsection \<open>The device loop\<close>

lemma loop_step_result:
  assumes "loop_step E ev (L, c) = Some (L', c')"
  shows "retry L' = (if failed L' \<noteq> [] then Some (delay L') else None)"
    and "delay L' = (case ev of NewList ds \<Rightarrow> deviceRetryMinDelay | RetryTimer \<Rightarrow> min (2 * delay L) deviceRetryMaxDelay)"
  using assms by (auto simp: loop_step_def loop_handle_def split: option.splits prod.splits loop_event.splits)

text \<open>After \<open>k\<close> timer rounds the delay is the doubled minimum, up to the maximum.\<close>

lemma loop_delay: "loop_reachable E k L \<Longrightarrow> delay L = min (2 ^ k * deviceRetryMinDelay) deviceRetryMaxDelay"
proof (induction rule: loop_reachable.induct)
  case (timer k L c L' c')
  then show ?case using loop_step_result(2) [OF timer(3)]
    by (simp add: deviceRetryMinDelay_def deviceRetryMaxDelay_def second_def minute_def min_def)
qed (use loop_step_result(2) in \<open>auto simp: device_loop_start_def deviceRetryMinDelay_def
    deviceRetryMaxDelay_def second_def minute_def\<close>)

lemma loop_retry: "loop_reachable E k L \<Longrightarrow> retry L = (if failed L \<noteq> [] then Some (delay L) else None)"
  by (induction rule: loop_reachable.induct)
     (auto simp: device_loop_start_def dest: loop_step_result(1))

subsection \<open>When a device type cannot be described\<close>

fun contains_nil :: "go_value \<Rightarrow> bool"
  and some_nil :: "go_value list \<Rightarrow> bool"
  and member_nil :: "(string \<times> go_value) list \<Rightarrow> bool"
where
  "contains_nil VNil = True"
| "contains_nil (VList vs) = some_nil vs"
| "contains_nil (VMap m) = member_nil m"
| "contains_nil _ = False"
| "some_nil [] = False"
| "some_nil (v # vs) = (contains_nil v \<or> some_nil vs)"
| "member_nil [] = False"
| "member_nil ((k, v) # m) = (contains_nil v \<or> member_nil m)"

lemma variables_None:
  "valueToContentVariable name v = None \<longleftrightarrow> contains_nil v"
  "list_variables i vs = None \<longleftrightarrow> some_nil vs"
  "map_variables m = None \<longleftrightarrow> member_nil m"
  by (induction name v and i vs and m rule: valueToContentVariable_list_variables_map_variables.induct)
     (auto split: option.splits)

lemma service_for_None: "service_for mk cfg m = None \<longleftrightarrow> member_nil m"
  by (cases m) (auto simp: service_for_def variables_None simp del: valueToContentVariable.simps)

lemma device_type_None:
  "zigbeeDeviceToDeviceType cfg d = None \<longleftrightarrow>
     member_nil (GetZigbeeMessageStruct d ZigbeeSetAccess) \<or> member_nil (GetZigbeeMessageStruct d ZigbeeEventAccess)"
  by (auto simp: zigbeeDeviceToDeviceType_def Let_def service_for_None split: option.splits)
     (metis service_for_None option.distinct(1))+

text \<open>A created type carries the vendor and the model by which a device finds its type.\<close>

lemma created_type_fits:
  assumes "zigbeeDeviceToDeviceType cfg d = Some dt"
  shows "fits d (view_device_type dt)"
proof -
  have "md_Attributes dt = [\<lparr>Key = AttributeUsedForZigbee, Value = ''true''\<rparr>,
      \<lparr>Key = AttributeZigbeeVendor, Value = Vendor (Definition d)\<rparr>,
      \<lparr>Key = AttributeZigbeeModel, Value = Model (Definition d)\<rparr>]"
    using assms by (auto simp: zigbeeDeviceToDeviceType_def Let_def split: option.splits)
  then show ?thesis by (simp add: fits_def has_attr_def view_device_type_def)
qed

lemma retry_iff:
  assumes "handleDeviceInfoUpdate E d c = Some (res, c')"
  shows "Retry res \<longleftrightarrow> isValidDevice d \<and> (\<exists>e c1. getDeviceTypeId E d c = (Inl e, c1) \<and> \<not> is_no_match e)"
proof
  assume "Retry res"
  with assms show "isValidDevice d \<and> (\<exists>e c1. getDeviceTypeId E d c = (Inl e, c1) \<and> \<not> is_no_match e)"
    by (auto elim: retry_result)
next
  assume "isValidDevice d \<and> (\<exists>e c1. getDeviceTypeId E d c = (Inl e, c1) \<and> \<not> is_no_match e)"
  with assms show "Retry res" by (auto simp: handleDeviceInfoUpdate_def no_result_def)
qed

end
