(* ===== verification/EventHandling.thy ===== *)
theory EventHandling
  imports ConnectorState
begin

section \<open>Event handling (\<^verbatim>\<open>pkg/connector/event.go\<close>)\<close>

text \<open>
  A state of a device is sent to the gateway once for the service \<^verbatim>\<open>get\<close> and once for every
  service of the device type whose selection condition holds. The expression language of the
  conditions is a library: \<open>new_expression\<close> and \<open>evaluate\<close> of \<open>env\<close>. The function
  \<^verbatim>\<open>contains\<close> that the code gives to it is modelled.
\<close>

record event_desc =
  ev_Device :: device_info
  ev_Payload :: string

subsection \<open>Service conditions\<close>

definition MgwZigbeeServiceSelectionConditionAttrKey :: string where
  "MgwZigbeeServiceSelectionConditionAttrKey = ''mgw-service-selection-condition''"

definition contains_value :: "go_value \<Rightarrow> string \<Rightarrow> bool" where
  "contains_value obj key =
     (case obj of
        VMap m \<Rightarrow> map_of m key \<noteq> None
      | VList l \<Rightarrow> find (\<lambda>item. item = VStr key) l \<noteq> None
      | _ \<Rightarrow> False)"

definition contains :: "go_value list \<Rightarrow> string + go_value" where
  "contains args =
     (case args of
        [obj, VStr key] \<Rightarrow> Inr (VBool (contains_value obj key))
      | [obj, _] \<Rightarrow> Inl ''contains: expect argument 2 to be a string''
      | _ \<Rightarrow> Inl ''contains: expect exactly 2 arguments'')"

text \<open>\<open>None\<close> is an error of the expression, or a result that is not a boolean.\<close>

definition evalServiceSelectionCondition :: "env \<Rightarrow> string \<Rightarrow> go_value \<Rightarrow> bool option" where
  "evalServiceSelectionCondition E condition v =
     (case new_expression E condition of
        Some err \<Rightarrow> None
      | None \<Rightarrow>
          (case evaluate E condition contains [(''value'', v)] of
             Inl err \<Rightarrow> None
           | Inr (VBool b) \<Rightarrow> Some b
           | Inr _ \<Rightarrow> None))"

text \<open>Only the first attribute with the key counts; an error is logged and means no.\<close>

primrec check_attributes :: "env \<Rightarrow> attribute list \<Rightarrow> go_value \<Rightarrow> bool" where
  "check_attributes E [] v = False"
| "check_attributes E (attr # rest) v =
     (if Key attr = MgwZigbeeServiceSelectionConditionAttrKey then
        (case evalServiceSelectionCondition E (Value attr) v of None \<Rightarrow> False | Some ok \<Rightarrow> ok)
      else check_attributes E rest v)"

definition checkServiceAttrCondition :: "env \<Rightarrow> service \<Rightarrow> go_value \<Rightarrow> bool" where
  "checkServiceAttrCondition E s v = check_attributes E (ServiceAttributes s) v"

subsection \<open>The services of an event\<close>

primrec services_loop :: "env \<Rightarrow> service list \<Rightarrow> go_value \<Rightarrow> string list \<Rightarrow> string list" where
  "services_loop E [] v result = result"
| "services_loop E (s # ss) v result =
     services_loop E ss v (if checkServiceAttrCondition E s v then result @ [LocalId s] else result)"

definition getServiceIds :: "env \<Rightarrow> device_type \<Rightarrow> string \<Rightarrow> goerr + string list" where
  "getServiceIds E dt pl =
     (case unmarshal_value pl of
        None \<Rightarrow> Inl (Other (json_error E pl))
      | Some v \<Rightarrow> Inr (services_loop E (Services dt) v [''get'']))"

definition getEventDeviceType ::
    "env \<Rightarrow> device_info \<Rightarrow> connector \<Rightarrow> (goerr + device_type) \<times> connector" where
  "getEventDeviceType E device c =
     (case with_repo (GetKnownDeviceDeviceTypeId (conf E) (platform E) (getDeviceId (conf E) device)) c of
        (Inr (Some dtId), c1) \<Rightarrow>
          (case with_repo (GetDeviceType (conf E) (platform E) dtId) c1 of
             (Inl err, c2) \<Rightarrow>
               if is_no_match err then with_repo (FindDeviceType (conf E) (platform E) device) c2
               else (Inl err, c2)
           | (Inr dt, c2) \<Rightarrow> (Inr dt, c2))
      | (_, c1) \<Rightarrow> with_repo (FindDeviceType (conf E) (platform E) device) c1)"

definition event_service_ids ::
    "env \<Rightarrow> event_desc \<Rightarrow> connector \<Rightarrow> (goerr + string list) \<times> connector" where
  "event_service_ids E event c =
     (case getEventDeviceType E (ev_Device event) c of
        (Inl err, c1) \<Rightarrow> (Inl err, c1)
      | (Inr dt, c1) \<Rightarrow> (getServiceIds E dt (ev_Payload event), c1))"

subsection \<open>The handler\<close>

definition eventIsAllowed :: "event_desc \<Rightarrow> connector \<Rightarrow> bool" where
  "eventIsAllowed event c \<longleftrightarrow>
     \<not> Disabled (ev_Device event) \<and> Supported (ev_Device event)
     \<and> InterviewCompleted (ev_Device event) \<and> deviceIsOnline (IeeeAddress (ev_Device event)) c"

primrec send_events :: "env \<Rightarrow> string \<Rightarrow> string \<Rightarrow> string list \<Rightarrow> connector \<Rightarrow> connector" where
  "send_events E deviceId pl [] c = c"
| "send_events E deviceId pl (serviceId # ids) c =
     (case c_SendEvent E deviceId serviceId pl c of
        (None, c1) \<Rightarrow> send_events E deviceId pl ids c1
      | (Some err, c1) \<Rightarrow>
          send_events E deviceId pl ids
            (c_SendDeviceError E deviceId (''unable to send event to mgw: '' @ error_text err) c1))"

definition handleEvent :: "env \<Rightarrow> event_desc \<Rightarrow> connector \<Rightarrow> connector" where
  "handleEvent E event c =
     (if eventIsAllowed event c then
        (let deviceId = getDeviceId (conf E) (ev_Device event) in
         case event_service_ids E event c of
           (Inl err, c1) \<Rightarrow>
             c_SendDeviceError E deviceId (''unable to get event service id: '' @ error_text err) c1
         | (Inr ids, c1) \<Rightarrow> send_events E deviceId (ev_Payload event) ids c1)
      else c)"

subsection \<open>Which services are chosen\<close>

text \<open>The condition of a service: its first attribute with the key.\<close>

definition condition_of :: "service \<Rightarrow> string option" where
  "condition_of s = map_option Value
     (find (\<lambda>a. Key a = MgwZigbeeServiceSelectionConditionAttrKey) (ServiceAttributes s))"

definition selected :: "env \<Rightarrow> go_value \<Rightarrow> service \<Rightarrow> bool" where
  "selected E v s \<longleftrightarrow>
     (\<exists>cond. condition_of s = Some cond \<and> evalServiceSelectionCondition E cond v = Some True)"

lemma check_attributes_find:
  "check_attributes E as v =
     (case find (\<lambda>a. Key a = MgwZigbeeServiceSelectionConditionAttrKey) as of
        None \<Rightarrow> False
      | Some a \<Rightarrow> evalServiceSelectionCondition E (Value a) v = Some True)"
  by (induction as) (auto split: option.split)

lemma checkServiceAttrCondition_selected: "checkServiceAttrCondition E s v \<longleftrightarrow> selected E v s"
  by (auto simp: checkServiceAttrCondition_def check_attributes_find selected_def condition_of_def
      split: option.split)

lemma services_loop_result:
  "services_loop E ss v result = result @ map LocalId (filter (selected E v) ss)"
  by (induction ss arbitrary: result) (simp_all add: checkServiceAttrCondition_selected)

lemma contains_value_iff:
  "contains_value obj key \<longleftrightarrow>
     (\<exists>m. obj = VMap m \<and> key \<in> fst ` set m) \<or> (\<exists>l. obj = VList l \<and> VStr key \<in> set l)"
  by (cases obj) (auto simp: contains_value_def map_of_eq_None_iff find_None_iff)

subsection \<open>What is sent\<close>

lemma sent_send_events_reliable:
  assumes "mbroker E = reliable"
  shows "sent (send_events E d pl ids c)
    = sent c @ map (\<lambda>i. message_on (''event/'' @ d @ ''/'' @ i) pl) ids"
proof (induction ids arbitrary: c)
  case (Cons i ids)
  have "fst (c_SendEvent E d i pl c) = None"
    using assms by (simp add: c_SendEvent_def SendEvent_def reliable_publish)
  with Cons sending_event.ok_logged [of E d i pl c] show ?case
    by (cases "c_SendEvent E d i pl c") simp
qed simp

lemma event_ids_frame:
  assumes "event_service_ids E event c = (x, c')"
  shows "c' = c\<lparr>devicerepo := devicerepo c'\<rparr>"
  using assms by (auto simp: event_service_ids_def getEventDeviceType_def
      split: prod.splits sum.splits option.splits if_splits)

text \<open>Every message of an event is for the device of the event.\<close>

definition event_message :: "string \<Rightarrow> mqtt_msg \<Rightarrow> bool" where
  "event_message deviceId m \<longleftrightarrow>
     (\<exists>i pl. m = message_on (''event/'' @ deviceId @ ''/'' @ i) pl)
     \<or> (\<exists>pl. m = message_on (''error/device/'' @ deviceId) pl)"

lemma event_messages [simplified, simp]:
  "event_message d (message_on (''event/'' @ d @ ''/'' @ i) pl)"
  "event_message d (message_on (''error/device/'' @ d) pl)"
  unfolding event_message_def by blast+

lemma sent_SendDeviceError:
  "\<exists>l. sent (c_SendDeviceError E d t c) = sent c @ l \<and> (\<forall>m \<in> set l. event_message d m)"
proof -
  obtain l where "sent (c_SendDeviceError E d t c) = sent c @ l"
    and "set l \<subseteq> {message_on (''error/device/'' @ d) (ConnectorId (conf E) @ '': '' @ t)}"
    using publishing.at_most_one [of "mbroker E" "''error/device/'' @ d" "ConnectorId (conf E) @ '': '' @ t" "mgw c"]
    unfolding c_SendDeviceError_def sent_def SendDeviceError_def by auto
  then show ?thesis unfolding event_message_def by blast
qed

lemma sent_send_events:
  "\<exists>l. sent (send_events E d pl ids c) = sent c @ l \<and> (\<forall>m \<in> set l. event_message d m)"
proof (induction ids arbitrary: c)
  case (Cons i ids)
  obtain x c1 where call: "c_SendEvent E d i pl c = (x, c1)" by fastforce
  with sending_event.reported [of E d i pl c] have
    c1: "sent c1 = sent c @ (if x = None then [message_on (''event/'' @ d @ ''/'' @ i) pl] else [])" by simp
  show ?case
  proof (cases x)
    case None
    with Cons.IH [of c1] c1 call show ?thesis by auto
  next
    case (Some e)
    let ?t = "''unable to send event to mgw: '' @ error_text e"
    from sent_SendDeviceError [of E d ?t c1] obtain l1 where
      l1: "sent (c_SendDeviceError E d ?t c1) = sent c1 @ l1" "\<forall>m \<in> set l1. event_message d m" by blast
    from Cons.IH [of "c_SendDeviceError E d ?t c1"] obtain l2 where
      "sent (send_events E d pl ids (c_SendDeviceError E d ?t c1)) = sent (c_SendDeviceError E d ?t c1) @ l2"
      "\<forall>m \<in> set l2. event_message d m" by blast
    with l1 c1 call Some show ?thesis by (intro exI [of _ "l1 @ l2"]) auto
  qed
qed simp

end
