(* ===== verification/Scenario.thy ===== *)
theory Scenario
  imports SetProtocol DeviceHandling EventHandling
begin

section \<open>Example data\<close>

text \<open>
  A lamp, a connector that knows it, and the run of one set command through the goroutines:
  registration, publish, the state message of the lamp, the match and the response. The
  examples of the other theories use these values.
\<close>

definition switch_feature :: feature where
  "switch_feature = Feature (zero_attrs\<lparr>Type := ''binary'', Name := ''state'', Property := ''state'',
     Access := 7, ValueOn := VStr ''ON'', ValueOff := VStr ''OFF''\<rparr>) [] None"

definition dimmer_feature :: feature where
  "dimmer_feature = Feature (zero_attrs\<lparr>Type := ''numeric'', Name := ''brightness'',
     Property := ''brightness'', Access := 7, ValueMax := F64 127 1\<rparr>) [] None"

definition light_feature :: feature where
  "light_feature = Feature (zero_attrs\<lparr>Type := ''light''\<rparr>) [switch_feature, dimmer_feature] None"

definition lamp :: device_info where
  "lamp = \<lparr>IeeeAddress = ''0x01'', FriendlyName = ''lamp'', Manufacturer = ''IKEA'', ModelId = ''L1'',
     Supported = True, Disabled = False, InterviewCompleted = True,
     Definition = \<lparr>Description = ''lamp'', Model = ''L1'', Vendor = ''IKEA'', Exposes = [light_feature]\<rparr>\<rparr>"

definition lamp_client :: zclient where
  "lamp_client = new_zclient\<lparr>zregister := snd (reg_Set [lamp] NewDeviceRegister)\<rparr>"

definition no_platform :: remote where
  "no_platform = \<lparr>clock = (\<lambda>tr. 63900000000 * second), ensure_access = (\<lambda>tr. Inr ''token''),
     list_devices = (\<lambda>tr t i. Inl ''unreachable''), list_device_types = (\<lambda>tr t. Inl ''unreachable''),
     create_type = (\<lambda>tr t dt ks. Inl ''unreachable''), decode_type = (\<lambda>body. Inl ''invalid'')\<rparr>"

definition empty_repo :: repo where
  "empty_repo = \<lparr>deviceTypes = [], minCacheDuration = minute, maxCacheDuration = 60 * minute,
     lastDtRefresh = zero_time, createdDt = [], deviceDeviceTypeIdCache = [], rtrace = []\<rparr>"

definition demo_env :: env where
  "demo_env = \<lparr>conf = default_config, zbroker = reliable, mbroker = reliable, platform = no_platform,
     new_expression = (\<lambda>s. None), evaluate = (\<lambda>s f m. Inr (VBool True)),
     marshal_indent = (\<lambda>m. []), json_error = (\<lambda>s. ''invalid'')\<rparr>"

definition demo_connector :: connector where
  "demo_connector = \<lparr>zigbee = lamp_client, mgw = new_mgw_client, devicerepo = empty_repo,
     devicestate = [(''0x01'', Online)], deviceAttributes = [],
     acks = Some (newAckRegistry (30 * second))\<rparr>"

subsection \<open>One set command\<close>

definition switch_on :: command_desc where
  "switch_on = \<lparr>cd_DeviceId = ''zigbee:0x01'', cd_ServiceId = ''set'',
     cd_Command = \<lparr>CommandId = ''c1'', Data = ''{\"state\":\"ON\"}''\<rparr>\<rparr>"

definition on_entry :: pendingAck where
  "on_entry = \<lparr>pa_ptr = 0, pa_ieee = ''0x01'', pa_deviceId = ''zigbee:0x01'', pa_serviceId = ''set'',
     pa_commandId = ''c1'', pa_expected = [(''state'', VStr ''ON'')]\<rparr>"

definition on_registry :: ack_registry where
  "on_registry = \<lparr>ack_timeout = 30 * second, pending = [(''0x01'', [on_entry])], ack_closed = False,
     armed = [on_entry]\<rparr>"

definition on_message :: mqtt_msg where
  "on_message = \<lparr>msg_topic = ''zigbee2mqtt/lamp'', msg_qos = 2, msg_retained = False,
     msg_payload = ''{\"state\":\"ON\"}''\<rparr>"

definition sent_client :: zclient where
  "sent_client = lamp_client\<lparr>ztrace := [(Publish \<lparr>msg_topic = ''zigbee2mqtt/lamp/set'', msg_qos = 2,
     msg_retained = False, msg_payload = ''{\"state\":\"ON\"}''\<rparr>, None)]\<rparr>"

definition seen_client :: zclient where
  "seen_client = sent_client\<lparr>zvalues := [(''0x01'', ''{\"state\":\"ON\"}'')]\<rparr>"

definition on_sys :: "connector \<Rightarrow> sys" where
  "on_sys c = (sys_start c)\<lparr>commands := [switch_on]\<rparr>"

lemma demo_registers:
  "set_register 0 ''0x01'' switch_on demo_connector
     = (Some (Some on_entry), demo_connector\<lparr>acks := Some on_registry\<rparr>)"
  by code_simp

lemma demo_publishes:
  "set_publish demo_env ''0x01'' switch_on (demo_connector\<lparr>acks := Some on_registry\<rparr>)
     = (None, demo_connector\<lparr>acks := Some on_registry, zigbee := sent_client\<rparr>)"
  by code_simp

lemma demo_leaves:
  "set_decide switch_on (Some (Some on_entry)) None c = (None, c)"
  by (simp add: set_decide_def)

lemma demo_receives:
  "eventHandler default_config CtxDeadline on_message sent_client
     = ([StateObserved ''0x01'' ''{\"state\":\"ON\"}'', EventReceived lamp ''{\"state\":\"ON\"}''], seen_client)"
  by code_simp

lemma demo_observes:
  "observe_begin ''0x01'' ''{\"state\":\"ON\"}'' on_registry = Some [(''state'', VStr ''ON'')]"
  by code_simp

lemma demo_matches:
  "observe_match ''0x01'' [(''state'', VStr ''ON'')] on_registry = ([on_entry], newAckRegistry (30 * second))"
  by code_simp

text \<open>The states of the run: registered, published, observed, answered.\<close>

definition demo_registered :: sys where
  "demo_registered = (on_sys (demo_connector\<lparr>acks := Some on_registry\<rparr>))
     \<lparr>watcher := True, wg := 1, handling := Some (0, ''0x01'', Registered (Some (Some on_entry)))\<rparr>"

definition demo_published :: sys where
  "demo_published = (on_sys (demo_connector\<lparr>acks := Some on_registry, zigbee := sent_client\<rparr>))
     \<lparr>watcher := True, wg := 1\<rparr>"

definition demo_observed :: sys where
  "demo_observed = (on_sys (demo_connector\<lparr>acks := Some (newAckRegistry (30 * second)), zigbee := seen_client\<rparr>))
     \<lparr>watcher := True, wg := 2, delivering := [(on_entry, ''{\"state\":\"ON\"}'')]\<rparr>"

definition demo_answered :: sys where
  "demo_answered = (answer_now demo_env 0 (StateAnswer on_entry ''{\"state\":\"ON\"}'') demo_observed)
     \<lparr>delivering := [], wg := 1\<rparr>"

lemma reachable_registered: "reachable demo_env demo_registered"
proof -
  have "starting demo_connector" by (simp add: starting_def demo_connector_def newAckRegistry_def)
  then have start: "reachable demo_env (sys_start demo_connector)" by (rule reachable.start)
  have id: "getDeviceIeeeAddress (conf demo_env) (cd_DeviceId switch_on) = Some ''0x01''"
    by (simp add: getDeviceIeeeAddress_iff demo_env_def default_config_def zero_config_def switch_on_def)
  have "external demo_env (sys_start demo_connector)
     ((sys_start demo_connector)\<lparr>con := demo_connector\<lparr>acks := Some on_registry\<rparr>, commands := [switch_on],
        handling := Some (0, ''0x01'', Registered (Some (Some on_entry)))\<rparr>)"
    using external.take_set [of "sys_start demo_connector", OF _ _ id refl] demo_registers [unfolded set_register_reads]
    by (simp add: sys_start_def switch_on_def)
  then have "external demo_env (sys_start demo_connector) demo_registered"
    by (simp add: demo_registered_def on_sys_def sys_start_def demo_connector_def)
  with start show ?thesis by (auto intro: reachable.step simp: step_def)
qed

lemma reachable_published: "reachable demo_env demo_published"
proof -
  let ?c = "demo_connector\<lparr>acks := Some on_registry, zigbee := sent_client\<rparr>"
  let ?s = "demo_registered\<lparr>con := ?c, handling := Some (0, ''0x01'', Published (Some (Some on_entry)) None)\<rparr>"
  have "internal demo_env demo_registered ?s"
    by (rule internal.publish [where n = 0 and ieee = "''0x01''"])
       (simp_all add: demo_registered_def on_sys_def sys_start_def demo_publishes)
  with reachable_registered have s: "reachable demo_env ?s" by (auto intro: reachable.step simp: step_def)
  have "internal demo_env ?s (?s\<lparr>con := ?c, handling := None\<rparr>)"
    by (rule internal.decide_return [where n = 0 and ieee = "''0x01''" and t = "Some (Some on_entry)" and err = None])
       (simp_all add: demo_registered_def on_sys_def demo_leaves)
  moreover have "?s\<lparr>con := ?c, handling := None\<rparr> = demo_published"
    by (simp add: demo_registered_def demo_published_def on_sys_def sys_start_def)
  ultimately show ?thesis using s by (metis reachable.step step_def)
qed

lemma reachable_observed: "reachable demo_env demo_observed"
proof -
  let ?pl = "''{\"state\":\"ON\"}''"
  let ?c = "demo_connector\<lparr>acks := Some on_registry, zigbee := seen_client\<rparr>"
  let ?s1 = "demo_published\<lparr>con := ?c, calls := [(''0x01'', ?pl)]\<rparr>"
  let ?s2 = "?s1\<lparr>calls := [], observing := [(''0x01'', ?pl, [(''state'', VStr ''ON'')])]\<rparr>"
  let ?s0 = "demo_published\<lparr>calls := [(''0x01'', ?pl)]\<rparr>"
  have "external demo_env demo_published ?s0"
    using external.state_observed [of demo_env demo_published "''0x01''" ?pl]
    by (simp add: demo_published_def on_sys_def sys_start_def)
  with reachable_published have s0: "reachable demo_env ?s0" by (metis reachable.step step_def)
  have "external demo_env ?s0 ?s1"
    using external.other [of ?c ?s0 demo_env] by (simp add: demo_published_def on_sys_def sys_start_def)
  with s0 have s1: "reachable demo_env ?s1" by (metis reachable.step step_def)
  have "internal demo_env ?s1 ?s2"
    using internal.observe_start [of "''0x01''" ?pl ?s1 on_registry _ demo_env, OF _ _ demo_observes]
    by (simp add: demo_published_def on_sys_def sys_start_def)
  with s1 have s2: "reachable demo_env ?s2" by (metis reachable.step step_def)
  have "internal demo_env ?s2 demo_observed"
    using internal.observe_end [of "''0x01''" ?pl _ ?s2 on_registry _ _ demo_env, OF _ _ demo_matches]
    by (simp add: demo_published_def demo_observed_def on_sys_def sys_start_def set_reg_def
        demo_connector_def)
  with s2 show ?thesis by (metis reachable.step step_def)
qed

lemma reachable_answered: "reachable demo_env demo_answered"
proof -
  have "internal demo_env demo_observed demo_answered"
    using internal.deliver [of on_entry "''{\"state\":\"ON\"}''" demo_observed demo_env]
    by (simp add: demo_answered_def demo_observed_def on_sys_def sys_start_def on_entry_def)
  with reachable_observed show ?thesis by (metis reachable.step step_def)
qed

lemma demo_answers: "map fst (answered demo_answered) = [0]" "length (commands demo_answered) = 1"
  by (simp_all add: demo_answered_def demo_observed_def on_sys_def sys_start_def)

subsection \<open>A platform with one device type\<close>

definition lamp_type :: models_device_type where
  "lamp_type = \<lparr>md_Id = ''dt1'', md_Name = ''lamp'', md_Description = [], md_DeviceClassId = [],
     md_Attributes = [\<lparr>Key = AttributeUsedForZigbee, Value = ''true''\<rparr>,
       \<lparr>Key = AttributeZigbeeVendor, Value = ''ikea''\<rparr>, \<lparr>Key = AttributeZigbeeModel, Value = ''l1''\<rparr>],
     md_Services = [\<lparr>ms_Id = ''s1'', ms_LocalId = ''on'', ms_Name = ''on'', ms_Interaction = EVENT,
       ms_ProtocolId = [], ms_Attributes =
         [\<lparr>Key = MgwZigbeeServiceSelectionConditionAttrKey, Value = ''contains(value, \"state\")''\<rparr>],
       ms_Inputs = [], ms_Outputs = []\<rparr>]\<rparr>"

definition lamp_platform :: remote where
  "lamp_platform = no_platform\<lparr>list_devices := (\<lambda>tr t i. Inr []),
     list_device_types := (\<lambda>tr t. Inr [lamp_type])\<rparr>"

text \<open>The expression library of the example knows one expression.\<close>

definition state_condition :: "string \<Rightarrow> (go_value list \<Rightarrow> string + go_value) \<Rightarrow>
    (string, go_value) gomap \<Rightarrow> string + go_value" where
  "state_condition cond f m =
     (if cond = ''contains(value, \"state\")'' then
        f [case map_of m ''value'' of Some v \<Rightarrow> v | None \<Rightarrow> VNil, VStr ''state'']
      else Inl ''unknown expression'')"

definition lamp_env :: env where
  "lamp_env = demo_env\<lparr>platform := lamp_platform, evaluate := state_condition\<rparr>"

lemma lamp_fits: "fits lamp (view_device_type lamp_type)"
proof -
  have trim: "TrimSpace ''ikea'' = ''ikea''" "TrimSpace ''IKEA'' = ''IKEA''"
    "TrimSpace ''l1'' = ''l1''" "TrimSpace ''L1'' = ''L1''"
    by (rule TrimSpace_plain; simp add: plain_char_def)+
  have low: "ToLower ''IKEA'' = ToLower ''ikea''" "ToLower ''L1'' = ToLower ''l1''" by code_simp+
  show ?thesis
    by (simp add: fits_def has_attr_def lamp_def lamp_type_def view_device_type_def normalize_def trim low
        AttributeUsedForZigbee_def AttributeZigbeeVendor_def AttributeZigbeeModel_def)
qed
lemma lamp_fresh: "time_sub (63900000000 * second) zero_time > 60 * minute"
  by (simp add: time_sub_def zero_time_def second_def minute_def max_int64_def min_int64_def)

lemmas platform_run = getDeviceTypeId_def GetKnownDeviceDeviceTypeId_def getDeviceFromRepo_def getToken_def
  FindDeviceTypeId_def find_reloading_def ListZigbeeDeviceTypes_def now_def refreshDeviceTypeList_def
  getDeviceTypeListFromPlatform_def getMatchingDeviceType_def called_def Let_def

lemma lamp_config: "\<not> AuthEnabled default_config"
  by (simp add: AuthEnabled_def default_config_def zero_config_def)

lemma lamp_type_id: "fst (getDeviceTypeId lamp_env lamp demo_connector) = Inr ''dt1''"
proof -
  have "Id (view_device_type lamp_type) = ''dt1''" by (simp add: lamp_type_def view_device_type_def)
  then show ?thesis
  using lamp_fits lamp_fresh lamp_config
  by (simp add: platform_run matches_device_fits
    lamp_env_def demo_env_def demo_connector_def empty_repo_def lamp_platform_def no_platform_def)
qed
lemma lamp_no_type: "fst (getDeviceTypeId demo_env lamp demo_connector) = Inl (Other ''unreachable'')"
  using lamp_fresh lamp_config
  by (simp add: platform_run demo_env_def demo_connector_def empty_repo_def no_platform_def)


lemma lamp_event_type:
  "fst (getEventDeviceType lamp_env lamp demo_connector) = Inr (view_device_type lamp_type)"
  using lamp_fits lamp_fresh lamp_config
  by (simp add: platform_run getEventDeviceType_def FindDeviceType_def matches_device_fits
    lamp_env_def demo_env_def demo_connector_def empty_repo_def lamp_platform_def no_platform_def)

end
