(* ===== verification/AckBag.thy ===== *)
theory AckBag
  imports AckRegistry
begin

section \<open>The registry as a bag of waiting commands\<close>

text \<open>
  What the registry promises to the rest of the connector, without lists, maps and timers: it is
  open or closed and holds a bag of waiting commands. A command can be put in while it is open,
  taken out once, all commands that a state satisfies are taken out together, and closing drops
  what is left.
\<close>

type_synonym bag = "bool \<times> pendingAck multiset"

definition bag_register :: "pendingAck \<Rightarrow> bag \<Rightarrow> pendingAck option \<times> bag" where
  "bag_register e a = (if fst a then (None, a) else (Some e, fst a, add_mset e (snd a)))"

definition bag_take :: "pendingAck \<Rightarrow> bag \<Rightarrow> bool \<times> bag" where
  "bag_take e a = (e \<in># snd a, fst a, snd a - {#e#})"

definition satisfied :: "string \<Rightarrow> (string, go_value) gomap \<Rightarrow> pendingAck \<Rightarrow> bool" where
  "satisfied ieee state e \<longleftrightarrow> pa_ieee e = ieee \<and> ackMatches (pa_expected e) state"

definition bag_observe :: "string \<Rightarrow> (string, go_value) gomap option \<Rightarrow> bag \<Rightarrow> pendingAck multiset \<times> bag" where
  "bag_observe ieee payload a =
     (case payload of
        None \<Rightarrow> ({#}, a)
      | Some state \<Rightarrow> (filter_mset (satisfied ieee state) (snd a), fst a,
          filter_mset (\<lambda>e. \<not> satisfied ieee state e) (snd a)))"

definition bag_close :: "bag \<Rightarrow> unit \<times> bag" where
  "bag_close a = ((), True, {#})"

definition bag_of :: "ack_registry \<Rightarrow> bag" where
  "bag_of r = (ack_closed r, mset (entries r))"

text \<open>The result of an operation and the new state are those of the operation on the bag.\<close>

definition implements :: "'x \<times> ack_registry \<Rightarrow> 'x \<times> bag \<Rightarrow> bool" where
  "implements res a \<longleftrightarrow> fst res = fst a \<and> bag_of (snd res) = snd a \<and> ack_wf (snd res)"

text \<open>An address belongs to one entry only.\<close>

definition only_entry :: "pendingAck \<Rightarrow> ack_registry \<Rightarrow> bool" where
  "only_entry e r \<longleftrightarrow> (\<forall>x \<in> set (entries r). pa_ptr x = pa_ptr e \<longrightarrow> x = e)"

lemma implements_Register:
  assumes "ack_wf r" and "pa_ptr e \<notin> pa_ptr ` set (entries r)"
  shows "implements (Register (pa_ptr e) (pa_ieee e) (pa_deviceId e) (pa_serviceId e) (pa_commandId e) (pa_expected e) r)
    (bag_register e (bag_of r))"
proof -
  obtain t r' where reg: "Register (pa_ptr e) (pa_ieee e) (pa_deviceId e) (pa_serviceId e) (pa_commandId e) (pa_expected e) r
    = (t, r')" by fastforce
  have wf: "ack_wf r'" by (rule ack_wf_Register [OF assms reg])
  show ?thesis
  proof (cases "ack_closed r")
    case True
    with reg wf show ?thesis by (auto simp: Register_closed implements_def bag_register_def bag_of_def)
  next
    case False
    from Register_open [OF this reg] wf False show ?thesis
      unfolding reg by (simp add: implements_def bag_register_def bag_of_def)
  qed
qed

lemma removeLocked_bag:
  assumes "pend_wf r" and "only_entry e r" and "removeLocked e r = (ok, r')"
  shows "ok \<longleftrightarrow> e \<in># mset (entries r)" and "bag_of r' = snd (bag_take e (bag_of r))"
proof -
  have "(ok \<longleftrightarrow> e \<in># mset (entries r)) \<and> bag_of r' = snd (bag_take e (bag_of r))"
  proof (cases ok)
    case True
    with assms(3) have rem: "removeLocked e r = (True, r')" by simp
    from assms(1) rem obtain x where x: "x \<in> set (pending_of (pa_ieee e) r)" "pa_ptr x = pa_ptr e"
      "mset (entries r) = add_mset x (mset (entries r'))" by (rule removeLocked_True)
    then have "x = e" using assms(2) pending_of_iff [OF assms(1)] by (auto simp: only_entry_def)
    with x(3) True removeLocked_frame [OF rem] show ?thesis by (simp add: bag_take_def bag_of_def)
  next
    case False
    with assms(3) removeLocked_False [of e r r'] have "r' = r" "e \<notin> set (pending_of (pa_ieee e) r)" by auto
    with pending_of_iff [OF assms(1)] False show ?thesis by (simp add: bag_take_def bag_of_def)
  qed
  then show "ok \<longleftrightarrow> e \<in># mset (entries r)" "bag_of r' = snd (bag_take e (bag_of r))" by simp_all
qed

lemma bag_of_stop_timer [simp]: "bag_of (stop_timer e r) = bag_of r"
  by (simp add: bag_of_def)

lemma implements_cancel:
  assumes "ack_wf r" and "only_entry e r"
  shows "implements (ack_cancel (Some e) r) (bag_take e (bag_of r))"
proof -
  obtain ok r' where rem: "removeLocked e r = (ok, r')" by fastforce
  have "pend_wf r" using assms(1) by (simp add: ack_wf_def)
  note bag = removeLocked_bag [OF this assms(2) rem]
  have "ack_wf (snd (ack_cancel (Some e) r))" by (rule ack_wf_cancel [OF assms(1)])
  with bag rem show ?thesis
    by (cases ok) (simp_all add: implements_def ack_cancel_def bag_take_def bag_of_def)
qed

lemma implements_expire:
  assumes "ack_wf r" and "only_entry e r" and "pa_ptr e \<notin> pa_ptr ` set (armed r)"
  shows "implements (prod.swap (expire b e r m))
    (if fst (bag_take e (bag_of r)) then expire_fail b (ack_timeout r) e m else m, snd (bag_take e (bag_of r)))"
proof -
  obtain ok r' where rem: "removeLocked e r = (ok, r')" by fastforce
  have "pend_wf r" using assms(1) by (simp add: ack_wf_def)
  note bag = removeLocked_bag [OF this assms(2) rem]
  have "ack_wf (fst (expire b e r m))" by (rule ack_wf_expire [OF assms(1,3)])
  with bag rem removeLocked_frame [OF rem] show ?thesis
    by (cases ok) (simp_all add: implements_def expire_def bag_take_def bag_of_def)
qed

lemma implements_Observe:
  assumes "ack_wf r"
  shows "implements (apfst mset (Observe ieee payload r)) (bag_observe ieee (unmarshal_map payload) (bag_of r))"
proof -
  have pw: "pend_wf r" using assms by (simp add: ack_wf_def)
  note at = mset_pending_of [OF pw, of ieee]
  have split: "filter_mset (satisfied ieee state) M = filter_mset (\<lambda>e. ackMatches (pa_expected e) state) (filter_mset (\<lambda>e. pa_ieee e = ieee) M)"
    for state M by (auto simp: satisfied_def filter_filter_mset intro: filter_mset_cong)
  show ?thesis
  proof (cases "unmarshal_map payload")
    case None
    then show ?thesis using assms by (simp add: Observe_def observe_begin_def implements_def bag_observe_def)
  next
    case (Some state)
    show ?thesis
    proof (cases "hasPending ieee r")
      case False
      then have none: "filter_mset (\<lambda>e. pa_ieee e = ieee) (mset (entries r)) = {#}" using at by (simp add: hasPending_def)
      then have "filter_mset (satisfied ieee state) (mset (entries r)) = {#}" by (simp only: split) simp
      with multiset_partition [of "mset (entries r)" "satisfied ieee state"] assms False Some show ?thesis
        by (simp add: Observe_def observe_begin_def implements_def bag_observe_def bag_of_def)
    next
      case True
      obtain matched r' where obs: "observe_match ieee state r = (matched, r')" by fastforce
      note res = observe_match_result [OF assms obs]
      have m: "mset matched = filter_mset (satisfied ieee state) (mset (entries r))"
        by (simp add: res(1) at split)
      have "mset matched + mset (entries r') = mset (entries r)" by (rule res(2) [symmetric])
      also have "\<dots> = mset matched + filter_mset (\<lambda>e. \<not> satisfied ieee state e) (mset (entries r))"
        unfolding m by (rule multiset_partition)
      finally have "mset (entries r') = filter_mset (\<lambda>e. \<not> satisfied ieee state e) (mset (entries r))"
        by (simp only: add_left_cancel)
      with m res(3,4) obs True Some show ?thesis
        by (simp add: Observe_def observe_begin_def implements_def bag_observe_def bag_of_def)
    qed
  qed
qed

lemma implements_close:
  assumes "ack_wf r"
  shows "implements ((), ack_close r) (bag_close (bag_of r))"
  using ack_close_result [OF assms] by (simp add: implements_def bag_close_def bag_of_def)

end
