(* ===== verification/DeviceProperties.thy ===== *)
theory DeviceProperties
  imports Scenario
begin

section \<open>Properties of the device and event handling\<close>

text \<open>
  What a device list does to the gateway, to the retry loop and to the events of a device.
\<close>

subsection \<open>Announcing devices\<close>

text \<open>
  C21. A valid device whose type is found is announced: its state is stored, and the result has no
  error iff exactly one message went to the device manager, with the id, name, state and type of
  the device. From then on its events are accepted iff it is not disabled.
\<close>

theorem device_announced:
  assumes "isValidDevice d" and "getDeviceTypeId E d c = (Inr dtId, c1)"
  shows "\<exists>res c'. handleDeviceInfoUpdate E d c = Some (res, c') \<and> \<not> Retry res \<and> NewDeviceType res = []
    \<and> sent c' = sent c @ (if Err res = None then
        [message_on (''device-manager/device/'' @ ConnectorId (conf E))
          (enc_update ''set'' (DeviceIdPrefix (conf E) @ IeeeAddress d)
            \<lparr>InfoName = FriendlyName d, State = (if Disabled d then Offline else Online),
             DeviceType = dtId, InfoAttributes = deviceAttributes c\<rparr>)] else [])
    \<and> eventIsAllowed \<lparr>ev_Device = d, ev_Payload = pl\<rparr> c' = (\<not> Disabled d)"
proof -
  obtain res c' where a: "announce E d dtId no_result c1 = (res, c')" by fastforce
  have "c1 = c\<lparr>devicerepo := devicerepo c1\<rparr>" by (rule getDeviceTypeId_frame [OF assms(2)])
  then have c1: "sent c1 = sent c" "deviceAttributes c1 = deviceAttributes c"
    by (metis connector.select_convs(5) connector.surjective connector.update_convs(3) sent_def
        connector.select_convs(2))+
  have "handleDeviceInfoUpdate E d c = Some (res, c')"
    using assms a by (simp add: handleDeviceInfoUpdate_def)
  moreover have "eventIsAllowed \<lparr>ev_Device = d, ev_Payload = pl\<rparr> c' = (\<not> Disabled d)"
    using assms(1) announce_result(1) [OF a]
    by (auto simp: eventIsAllowed_def deviceIsOnline_iff getDeviceState_def isValidDevice_iff)
  ultimately show ?thesis
    using announce_result(2-4) [OF a] c1
    by (intro exI [of _ res] exI [of _ c']) (simp add: no_result_def getDeviceId_def getDeviceState_def)
qed

theorem device_announced_witness:
  "\<exists>res c'. handleDeviceInfoUpdate lamp_env lamp demo_connector = Some (res, c') \<and> \<not> Retry res
    \<and> eventIsAllowed \<lparr>ev_Device = lamp, ev_Payload = []\<rparr> c'"
proof -
  have "isValidDevice lamp" by (simp add: isValidDevice_iff lamp_def)
  moreover obtain c1 where "getDeviceTypeId lamp_env lamp demo_connector = (Inr ''dt1'', c1)"
    using lamp_type_id by (metis prod.collapse)
  ultimately show ?thesis
    using device_announced [of lamp lamp_env demo_connector "''dt1''" c1 "[]"] by (auto simp: lamp_def)
qed

text \<open>
  C22. A device is retried iff it is valid and its type could not be read, as opposed to not being
  there. Then nothing but the repository cache has changed, and of that not what is known of
  devices and created types: the gateway has heard nothing, and the retry starts afresh.
\<close>

theorem retry_has_no_effect:
  assumes "handleDeviceInfoUpdate E d c = Some (res, c')"
  shows "(Retry res \<longleftrightarrow> isValidDevice d \<and> (\<exists>e c1. getDeviceTypeId E d c = (Inl e, c1) \<and> \<not> is_no_match e))
    \<and> (Retry res \<longrightarrow> Err res \<noteq> None \<and> c' = c\<lparr>devicerepo := devicerepo c'\<rparr>
        \<and> keeps (devicerepo c) (devicerepo c'))"
proof
  show "Retry res \<longleftrightarrow> isValidDevice d \<and> (\<exists>e c1. getDeviceTypeId E d c = (Inl e, c1) \<and> \<not> is_no_match e)"
    by (rule retry_iff [OF assms])
  show "Retry res \<longrightarrow> Err res \<noteq> None \<and> c' = c\<lparr>devicerepo := devicerepo c'\<rparr> \<and> keeps (devicerepo c) (devicerepo c')"
    using retry_result [OF assms] getDeviceTypeId_frame getDeviceTypeId_keeps
    by (metis option.distinct(1))
qed

theorem retry_has_no_effect_witness:
  "\<exists>res c'. handleDeviceInfoUpdate demo_env lamp demo_connector = Some (res, c') \<and> Retry res
    \<and> sent c' = [] \<and> devicestate c' = devicestate demo_connector"
proof -
  obtain c1 where t: "getDeviceTypeId demo_env lamp demo_connector = (Inl (Other ''unreachable''), c1)"
    using lamp_no_type by (metis prod.collapse)
  have v: "isValidDevice lamp" by (simp add: isValidDevice_iff lamp_def)
  then obtain res where h: "handleDeviceInfoUpdate demo_env lamp demo_connector = Some (res, c1)"
    by (simp add: handleDeviceInfoUpdate_def t)
  have r: "Retry res" using retry_has_no_effect [OF h] v t by simp
  then have "c1 = demo_connector\<lparr>devicerepo := devicerepo c1\<rparr>" using retry_has_no_effect [OF h] by blast
  then have "sent c1 = [] \<and> devicestate c1 = devicestate demo_connector"
    by (metis (no_types, lifting) accepted_Nil connector.select_convs(2,4) connector.surjective
        connector.update_convs(3) demo_connector_def mgw_client.select_convs(1) new_mgw_client_def sent_def)
  with h r show ?thesis by blast
qed

text \<open>
  C23. A device list is handled device by device, in its order: the devices to be retried are
  exactly those whose result says so, the recovered ones are those that failed before, are
  enabled and had no error, and the error is the last one of a device to be retried; there is one
  iff some device is to be retried.
\<close>

theorem device_list_handled:
  "handleDeviceInfoUpdates E devices previous c =
     (case update_results E devices c of
        None \<Rightarrow> None
      | Some (rs, c') \<Rightarrow>
          (let z = zip devices rs in
           Some (map fst (filter (\<lambda>x. Retry (snd x)) z),
                 map fst (filter (\<lambda>(d, res). \<not> Retry res \<and> Err res = None
                   \<and> IeeeAddress d \<in> IeeeAddress ` set previous \<and> \<not> Disabled d) z),
                 last_error None z, c')))
   \<and> \<not> (\<exists>failed recovered err c'. handleDeviceInfoUpdates E devices previous c = Some (failed, recovered, err, c')
       \<and> (err = None) \<noteq> (failed = []))"
proof -
  have eq: "handleDeviceInfoUpdates E devices previous c =
     (case update_results E devices c of
        None \<Rightarrow> None
      | Some (rs, c') \<Rightarrow>
          (let z = zip devices rs in
           Some (map fst (to_retry z), now_registered (IeeeAddress ` set previous) z, last_error None z, c')))"
    by (simp add: handleDeviceInfoUpdates_def updates_loop_results Let_def split: option.split prod.split)
  then have "\<not> (\<exists>failed recovered err c'. handleDeviceInfoUpdates E devices previous c = Some (failed, recovered, err, c')
       \<and> (err = None) \<noteq> (failed = []))"
    using last_error_iff [of E devices c] by (auto simp: Let_def split: option.splits)
  then show ?thesis by (simp only: eq to_retry_def now_registered_def simp_thms refl)
qed

text \<open>
  A device that failed and is then reported as unsupported counts as recovered, although it is
  not registered: the code only asks for the absence of an error.
\<close>

lemma recovered_but_not_registered:
  "handleDeviceInfoUpdates demo_env [lamp\<lparr>Supported := False\<rparr>] [lamp] demo_connector
     = Some ([], [lamp\<lparr>Supported := False\<rparr>], None, demo_connector)"
  by (simp add: handleDeviceInfoUpdates_def handleDeviceInfoUpdate_def isValidDevice_def no_result_def lamp_def)

text \<open>
  C24. The device loop: between one second and one minute passes before a retry, doubling from
  round to round and starting over with every new list; a retry is armed iff devices are left.
\<close>

theorem retry_delay_bounds:
  assumes "loop_reachable E k L"
  shows "delay L = min (2 ^ k * second) minute \<and> second \<le> delay L \<and> delay L \<le> minute
    \<and> retry L = (if failed L = [] then None else Some (delay L))"
proof -
  have "delay L = min (2 ^ k * second) minute"
    using loop_delay [OF assms] by (simp add: deviceRetryMinDelay_def deviceRetryMaxDelay_def)
  moreover have "second \<le> min (2 ^ k * second) minute"
  proof -
    have "(1 :: int) \<le> 2 ^ k" by simp
    then show ?thesis by (simp add: second_def minute_def)
  qed
  ultimately show ?thesis using loop_retry [OF assms] by simp
qed

theorem retry_delay_bounds_witness:
  "\<exists>L. loop_reachable demo_env 0 L \<and> failed L = [lamp] \<and> retry L = Some second"
proof -
  obtain c1 where t: "getDeviceTypeId demo_env lamp demo_connector = (Inl (Other ''unreachable''), c1)"
    using lamp_no_type by (metis prod.collapse)
  have v: "isValidDevice lamp" by (simp add: isValidDevice_iff lamp_def)
  obtain L c' where L: "loop_step demo_env (NewList [lamp]) (device_loop_start, demo_connector) = Some (L, c')"
    "failed L = [lamp]"
    by (simp add: loop_step_def loop_handle_def handleDeviceInfoUpdates_def handleDeviceInfoUpdate_def t v
        no_result_def)
  from loop_reachable.new_list [OF loop_reachable.start L(1)]
  have r: "loop_reachable demo_env 0 L" .
  from retry_delay_bounds [OF r] L(2) r show ?thesis
    by (intro exI [of _ L]) (simp add: second_def minute_def)
qed

subsection \<open>Created device types\<close>



text \<open>
  The description of a device type panics exactly when one of the example messages of the
  device contains a nil value, at any depth; in every other case there is a type.
\<close>

theorem device_type_panics_iff_nil:
  "zigbeeDeviceToDeviceType cfg d = None \<longleftrightarrow>
     contains_nil (VMap (GetZigbeeMessageStruct d ZigbeeSetAccess))
     \<or> contains_nil (VMap (GetZigbeeMessageStruct d ZigbeeEventAccess))"
  by (simp add: device_type_None)

text \<open>Such a device is one with an enumeration of which zigbee2mqtt lists no values.\<close>

lemma empty_enum_panics:
  "zigbeeDeviceToDeviceType cfg (lamp\<lparr>Definition := (Definition lamp)\<lparr>Exposes :=
     [Feature (zero_attrs\<lparr>Type := ''enum'', Property := ''effect'', Access := 2\<rparr>) [] None]\<rparr>\<rparr>) = None"
  unfolding device_type_None by code_simp

subsection \<open>Events\<close>

text \<open>
  C26. The event of a device that is disabled, unsupported, not interviewed or not announced as
  online changes nothing. Every message that an event does cause is on a topic of its device.
\<close>

theorem events_are_gated:
  "(\<not> eventIsAllowed event c \<longrightarrow> handleEvent E event c = c)
   \<and> (eventIsAllowed event c \<longleftrightarrow> \<not> Disabled (ev_Device event) \<and> Supported (ev_Device event)
        \<and> InterviewCompleted (ev_Device event) \<and> map_of (devicestate c) (IeeeAddress (ev_Device event)) = Some Online)
   \<and> (\<exists>l. sent (handleEvent E event c) = sent c @ l
        \<and> (\<forall>m \<in> set l. event_message (getDeviceId (conf E) (ev_Device event)) m))"
proof (intro conjI)
  show "\<exists>l. sent (handleEvent E event c) = sent c @ l
        \<and> (\<forall>m \<in> set l. event_message (getDeviceId (conf E) (ev_Device event)) m)"
  proof (cases "eventIsAllowed event c")
    case True
    obtain x c1 where ids: "event_service_ids E event c = (x, c1)" by fastforce
    have "c1 = c\<lparr>devicerepo := devicerepo c1\<rparr>" by (rule event_ids_frame [OF ids])
    then have "sent c1 = sent c" by (metis connector.select_convs(2) connector.surjective connector.update_convs(3) sent_def)
    with True ids sent_send_events [of E "getDeviceId (conf E) (ev_Device event)" "ev_Payload event" _ c1]
      sent_SendDeviceError [of E "getDeviceId (conf E) (ev_Device event)" _ c1]
    show ?thesis by (cases x) (auto simp: handleEvent_def Let_def)
  qed (simp add: handleEvent_def)
qed (auto simp: handleEvent_def eventIsAllowed_def deviceIsOnline_iff)

theorem events_are_gated_witness:
  "handleEvent lamp_env \<lparr>ev_Device = lamp\<lparr>Disabled := True\<rparr>, ev_Payload = ''{}''\<rparr> demo_connector = demo_connector"
proof -
  have "\<not> eventIsAllowed \<lparr>ev_Device = lamp\<lparr>Disabled := True\<rparr>, ev_Payload = ''{}''\<rparr> demo_connector"
    by (simp add: eventIsAllowed_def)
  with events_are_gated [of "\<lparr>ev_Device = lamp\<lparr>Disabled := True\<rparr>, ev_Payload = ''{}''\<rparr>" demo_connector lamp_env]
  show ?thesis by blast
qed

text \<open>
  C27. An accepted event reaches the gateway unchanged for the service \<^verbatim>\<open>get\<close> and then for each
  service of the device type whose condition holds for the state, in the order of the type: a
  service without a condition, or with one that fails, gets nothing.
\<close>

theorem event_services:
  assumes "mbroker E = reliable" and "eventIsAllowed event c"
    and "getEventDeviceType E (ev_Device event) c = (Inr dt, c1)"
    and "unmarshal_value (ev_Payload event) = Some v"
  shows "sent (handleEvent E event c) = sent c @
    map (\<lambda>i. message_on (''event/'' @ getDeviceId (conf E) (ev_Device event) @ ''/'' @ i) (ev_Payload event))
      (''get'' # map LocalId (filter (selected E v) (Services dt)))"
proof -
  have ids: "event_service_ids E event c = (Inr (''get'' # map LocalId (filter (selected E v) (Services dt))), c1)"
    using assms(3,4) by (simp add: event_service_ids_def getServiceIds_def services_loop_result)
  have "c1 = c\<lparr>devicerepo := devicerepo c1\<rparr>" by (rule event_ids_frame [OF ids])
  then have "sent c1 = sent c" by (metis connector.select_convs(2) connector.surjective connector.update_convs(3) sent_def)
  then show ?thesis
    using assms(2) ids by (simp only: handleEvent_def Let_def if_True case_prod_conv sum.case
        sent_send_events_reliable [OF assms(1)])
qed

theorem event_services_witness:
  "map msg_topic (sent (handleEvent lamp_env \<lparr>ev_Device = lamp, ev_Payload = ''{\"state\":\"ON\"}''\<rparr> demo_connector))
     = [''event/zigbee:0x01/get'', ''event/zigbee:0x01/on'']"
proof -
  let ?ev = "\<lparr>ev_Device = lamp, ev_Payload = ''{\"state\":\"ON\"}''\<rparr>"
  have "mbroker lamp_env = reliable" by (simp add: lamp_env_def demo_env_def)
  moreover have "eventIsAllowed ?ev demo_connector" by code_simp
  moreover obtain c1 where "getEventDeviceType lamp_env (ev_Device ?ev) demo_connector = (Inr (view_device_type lamp_type), c1)"
    using lamp_event_type by (metis event_desc.select_convs(1) prod.collapse)
  moreover have "unmarshal_value (ev_Payload ?ev) = Some (VMap [(''state'', VStr ''ON'')])" by code_simp
  ultimately have "sent (handleEvent lamp_env ?ev demo_connector) = sent demo_connector @
    map (\<lambda>i. message_on (''event/'' @ getDeviceId (conf lamp_env) (ev_Device ?ev) @ ''/'' @ i) (ev_Payload ?ev))
      (''get'' # map LocalId (filter (selected lamp_env (VMap [(''state'', VStr ''ON'')])) (Services (view_device_type lamp_type))))"
    by (rule event_services)
  moreover have "selected lamp_env (VMap [(''state'', VStr ''ON'')]) (view_service (hd (md_Services lamp_type)))"
    unfolding checkServiceAttrCondition_selected [symmetric] by code_simp
  ultimately show ?thesis
    by (simp add: sent_def demo_connector_def new_mgw_client_def message_on_def lamp_type_def
        view_device_type_def view_service_def getDeviceId_def lamp_env_def demo_env_def default_config_def zero_config_def lamp_def)
qed

end
