(* ===== verification/Environment.thy ===== *)
theory Environment
  imports Config
begin

section \<open>Loading the configuration (\<^verbatim>\<open>Load\<close>, \<^verbatim>\<open>handleEnvironmentVars\<close>)\<close>

text \<open>
  The file system and the environment of the process are arguments. A panic of the map field
  is \<open>None\<close>. Of the spellings of numbers in variables the decimal ones and the infinities are
  modelled: a hexadecimal float, a NaN and digits grouped by underscores read as errors here.
\<close>

subsection \<open>Names of environment variables\<close>

definition is_upper :: "char \<Rightarrow> bool" where
  "is_upper c \<longleftrightarrow> 65 \<le> (of_char c :: int) \<and> (of_char c :: int) \<le> 90"

definition upper_char :: "char \<Rightarrow> char" where
  "upper_char c = (let n = (of_char c :: int) in if 97 \<le> n \<and> n \<le> 122 then char_of (n - 32) else c)"

text \<open>
  One match of the expression \<^verbatim>\<open>camel\<close> where the text \<open>s\<close> begins: its two groups and what
  follows the match. The first alternative needs the start of the whole text. Both groups are
  greedy, so only one length can match in each alternative.
\<close>

definition camel_match :: "bool \<Rightarrow> string \<Rightarrow> ((string \<times> string) \<times> string) option" where
  "camel_match at_start s =
     (let low = (\<lambda>c. \<not> is_upper c);
          p = takeWhile low s; r = dropWhile low s;
          u = takeWhile is_upper s; t = dropWhile is_upper s
      in if at_start \<and> (r = [] \<or> takeWhile low (drop 1 r) \<noteq> []) then
           Some ((p, take 1 r @ takeWhile low (drop 1 r)), dropWhile low (drop 1 r))
         else if t = [] then Some ((u, []), [])
         else if u \<noteq> [] then Some ((butlast u, last u # takeWhile low t), dropWhile low t)
         else None)"

lemma camel_match_length:
  assumes "camel_match b s = Some (g, r)" and "s \<noteq> []"
  shows "length r < length s"
proof -
  have "length (dropWhile low (drop 1 (dropWhile low s))) < length s" for low
  proof -
    have "length (dropWhile low (drop 1 t)) < length s" if "length t \<le> length s" for t
      using length_dropWhile_le [of low "drop 1 t"] that assms(2) by (cases t) auto
    then show ?thesis using length_dropWhile_le [of low s] by blast
  qed
  moreover have "length (dropWhile low (dropWhile is_upper s)) < length s" if "takeWhile is_upper s \<noteq> []" for low
  proof -
    have "length (takeWhile is_upper s) + length (dropWhile is_upper s) = length s"
      by (metis length_append takeWhile_dropWhile_id)
    with that length_dropWhile_le [of low "dropWhile is_upper s"] show ?thesis
      by (cases "takeWhile is_upper s") auto
  qed
  ultimately show ?thesis
    using assms by (auto simp: camel_match_def Let_def split: if_splits)
qed

text \<open>\<^verbatim>\<open>FindAllStringSubmatch\<close> with the loop over its result: the groups that are not empty.\<close>

function camel_groups :: "bool \<Rightarrow> string \<Rightarrow> string list" where
  "camel_groups b [] = []"
| "camel_groups b (c # s) =
     (case camel_match b (c # s) of
        None \<Rightarrow> camel_groups False s
      | Some ((x, y), r) \<Rightarrow> filter (\<lambda>g. g \<noteq> []) [x, y] @ camel_groups False r)"
  by pat_completeness auto
termination
  by (relation "measure (\<lambda>(b, s). length s)") (auto dest: camel_match_length)

definition fieldNameToEnvName :: "string \<Rightarrow> string" where
  "fieldNameToEnvName s = map upper_char (Join (camel_groups True s) ''_'')"

subsection \<open>Values of environment variables\<close>

text \<open>
  \<^verbatim>\<open>strconv.ParseBool\<close>, \<^verbatim>\<open>ParseInt(s, 10, 64)\<close> and \<^verbatim>\<open>ParseFloat(s, 64)\<close> where the error is
  ignored: a syntax error is the zero value, a range error the nearest end of the range.
\<close>

definition ParseBool :: "string \<Rightarrow> bool" where
  "ParseBool s \<longleftrightarrow> s \<in> set [''1'', ''t'', ''T'', ''true'', ''TRUE'', ''True'']"

definition signed :: "string \<Rightarrow> bool \<times> string" where
  "signed s =
     (if take 1 s = ''-'' then (True, drop 1 s) else if take 1 s = ''+'' then (False, drop 1 s) else (False, s))"

definition all_digits :: "string \<Rightarrow> bool" where
  "all_digits s \<longleftrightarrow> s \<noteq> [] \<and> list_all is_digit s"

definition ParseInt :: "string \<Rightarrow> int" where
  "ParseInt s =
     (case signed s of (neg, ds) \<Rightarrow>
        if all_digits ds
        then max min_int64 (min max_int64 (if neg then - digits_val ds else digits_val ds)) else 0)"

definition ParseFloat :: "string \<Rightarrow> float64" where
  "ParseFloat s =
     (case signed s of (neg, r) \<Rightarrow>
        if ToLower r = ''inf'' \<or> ToLower r = ''infinity'' then f64_inf neg
        else
          (let ip = takeWhile is_digit r;
               r1 = dropWhile is_digit r;
               fp = (if take 1 r1 = ''.'' then takeWhile is_digit (drop 1 r1) else []);
               r2 = (if take 1 r1 = ''.'' then dropWhile is_digit (drop 1 r1) else r1);
               has_exp = (take 1 r2 = ''e'' \<or> take 1 r2 = ''E'');
               (eneg, ed) = signed (drop 1 r2);
               x = (if has_exp then (if eneg then - digits_val ed else digits_val ed) else 0)
                     - int (length fp);
               d = digits_val (ip @ fp)
           in if ip @ fp = [] \<or> (r2 \<noteq> [] \<and> \<not> (has_exp \<and> all_digits ed)) then zero_float
              else case (if 0 \<le> x then f64_ratio neg (d * 10 ^ nat x) 1
                         else f64_ratio neg d (10 ^ nat (- x))) of
                Some f \<Rightarrow> f
              | None \<Rightarrow> f64_inf neg))"

text \<open>The loop over the elements of a map value; an element without a colon panics.\<close>

primrec map_elements :: "string list \<Rightarrow> (string, string) gomap \<Rightarrow> (string, string) gomap option" where
  "map_elements [] m = Some m"
| "map_elements (e # es) m =
     (case Split e CHR '':'' of
        key # val # _ \<Rightarrow> map_elements es (mput (TrimSpace key) (TrimSpace val) m)
      | _ \<Rightarrow> None)"

subsection \<open>The loop over the fields\<close>

text \<open>An \<^verbatim>\<open>int\<close> field is of none of the handled kinds and is left as it is.\<close>

fun set_field :: "'c field_kind \<Rightarrow> string \<Rightarrow> 'c \<Rightarrow> 'c option" where
  "set_field (KInt64 get upd) v c = Some (upd (ParseInt v) c)"
| "set_field (KString get upd) v c = Some (upd v c)"
| "set_field (KBool get upd) v c = Some (upd (ParseBool v) c)"
| "set_field (KFloat64 get upd) v c = Some (upd (ParseFloat v) c)"
| "set_field (KSlice get upd) v c = Some (upd (map TrimSpace (Split v CHR '','')) c)"
| "set_field (KMap get upd) v c = map_option (\<lambda>m. upd m c) (map_elements (Split v CHR '','') [])"
| "set_field (KInt get upd) v c = Some c"

primrec env_loop ::
    "(string \<Rightarrow> string) \<Rightarrow> (string \<times> string \<times> 'c field_kind) list \<Rightarrow> 'c \<Rightarrow> 'c option" where
  "env_loop getenv [] c = Some c"
| "env_loop getenv (f # fs) c =
     (let envValue = getenv (fieldNameToEnvName (fst f)) in
      if envValue \<noteq> [] then
        (case set_field (snd (snd f)) envValue c of
           None \<Rightarrow> None
         | Some c' \<Rightarrow> env_loop getenv fs c')
      else env_loop getenv fs c)"

definition handleEnvironmentVars :: "(string \<Rightarrow> string) \<Rightarrow> config \<Rightarrow> config option" where
  "handleEnvironmentVars getenv cfg = env_loop getenv config_fields cfg"

text \<open>
  \<^verbatim>\<open>Load\<close>: the file that cannot be opened is \<open>None\<close>. On an error the configuration is
  returned as far as it was read.
\<close>

datatype load_result = LoadError config | LoadPanic | Loaded config

definition Load :: "(string \<Rightarrow> string option) \<Rightarrow> (string \<Rightarrow> string) \<Rightarrow> string \<Rightarrow> load_result" where
  "Load open_file getenv location =
     (case open_file location of
        None \<Rightarrow> LoadError zero_config
      | Some content \<Rightarrow>
          (case decode_struct config_fields content zero_config of
             (cfg, False) \<Rightarrow> LoadError cfg
           | (cfg, True) \<Rightarrow>
               (case handleEnvironmentVars getenv cfg of
                  None \<Rightarrow> LoadPanic
                | Some cfg' \<Rightarrow> Loaded cfg')))"

subsection \<open>The logger\<close>

text \<open>
  \<^verbatim>\<open>GetLogger\<close>: the logger is created on the first call and kept. Of the logger itself only the
  level, the organisation and the project count; the module path of the program, if its build
  information can be read, is the argument \<open>build\<close>.
\<close>

record logger =
  log_level :: string
  log_org :: string
  log_project :: string

definition GetLogger :: "string option \<Rightarrow> config \<Rightarrow> logger option \<Rightarrow> logger \<times> logger option" where
  "GetLogger build cfg cached =
     (case cached of
        Some l \<Rightarrow> (l, cached)
      | None \<Rightarrow>
          (let level = (if Debug cfg then ''debug'' else LogLevel cfg);
               parts = (case build of None \<Rightarrow> [] | Some path \<Rightarrow> Split path CHR ''/'');
               l = (if length parts > 2
                    then \<lparr>log_level = level, log_org = Join (take 2 parts) ''/'', log_project = Join (drop 2 parts) ''/''\<rparr>
                    else \<lparr>log_level = level, log_org = [], log_project = []\<rparr>)
           in (l, Some l)))"

text \<open>Later calls return the first logger, whatever the configuration says by then.\<close>

lemma GetLogger_once: "GetLogger build cfg cached = (l, cached') \<Longrightarrow> GetLogger build' cfg' cached' = (l, cached')"
  by (auto simp: GetLogger_def Let_def split: option.splits)

subsection \<open>What the variables do\<close>

text \<open>A field after the loop: the value of its variable, unless that is empty.\<close>

definition env_string :: "string \<Rightarrow> string \<Rightarrow> string" where
  "env_string v cur = (if v = [] then cur else v)"

definition env_bool :: "string \<Rightarrow> bool \<Rightarrow> bool" where
  "env_bool v cur = (if v = [] then cur else ParseBool v)"

definition env_float :: "string \<Rightarrow> float64 \<Rightarrow> float64" where
  "env_float v cur = (if v = [] then cur else ParseFloat v)"

lemma env_loop_fields:
  "upd (get c) c = c \<Longrightarrow> env_loop getenv ((n, j, KString get upd) # fs) c =
     env_loop getenv fs (upd (env_string (getenv (fieldNameToEnvName n)) (get c)) c)"
  "updb (getb c) c = c \<Longrightarrow> env_loop getenv ((n, j, KBool getb updb) # fs) c =
     env_loop getenv fs (updb (env_bool (getenv (fieldNameToEnvName n)) (getb c)) c)"
  "updf (getf c) c = c \<Longrightarrow> env_loop getenv ((n, j, KFloat64 getf updf) # fs) c =
     env_loop getenv fs (updf (env_float (getenv (fieldNameToEnvName n)) (getf c)) c)"
  "env_loop getenv ((n, j, KInt geti updi) # fs) c = env_loop getenv fs c"
  by (simp_all add: env_string_def env_bool_def env_float_def Let_def)

definition env_map :: "string \<Rightarrow> (string, string) gomap \<Rightarrow> (string, string) gomap option" where
  "env_map v cur = (if v = [] then Some cur else map_elements (Split v CHR '','') [])"

lemma env_loop_map:
  "upd (get c) c = c \<Longrightarrow> env_loop getenv ((n, j, KMap get upd) # fs) c =
     (case env_map (getenv (fieldNameToEnvName n)) (get c) of
        None \<Rightarrow> None
      | Some m \<Rightarrow> env_loop getenv fs (upd m c))"
  by (simp add: env_map_def Let_def split: option.split)

end
