(* ===== verification/TokenService.thy ===== *)
theory TokenService
  imports Config DeviceRepo
begin

section \<open>The token service (\<^verbatim>\<open>pkg/devicerepo/auth/auth.go\<close>)\<close>

text \<open>
  The access token of the platform and how it is renewed. The clock, the HTTP client with the
  identity provider behind it and the texts of decoding errors are the argument \<open>token_env\<close>;
  its functions see everything that was asked before, which the state keeps as \<open>auth_trace\<close>.
\<close>

datatype auth_act = AuthNow | PostForm string "(string, string) gomap"

record auth =
  AccessToken :: string
  ExpiresIn :: float64
  RefreshExpiresIn :: float64
  RefreshToken :: string
  TokenType :: string
  RequestTime :: int
  auth_trace :: "auth_act list"

record token_env =
  auth_clock :: "auth_act list \<Rightarrow> int"
  post_form :: "auth_act list \<Rightarrow> string \<Rightarrow> (string, string) gomap \<Rightarrow> string + (int \<times> string)"
  decode_error :: "string \<Rightarrow> string"

text \<open>\<^verbatim>\<open>&auth.Auth{}\<close>.\<close>

definition new_auth :: auth where
  "new_auth = \<lparr>AccessToken = [], ExpiresIn = zero_float, RefreshExpiresIn = zero_float, RefreshToken = [],
     TokenType = [], RequestTime = zero_time, auth_trace = []\<rparr>"

definition auth_fields :: "(string \<times> string \<times> auth field_kind) list" where
  "auth_fields =
    [(''AccessToken'', ''access_token'', KString AccessToken (\<lambda>x a. a\<lparr>AccessToken := x\<rparr>)),
     (''ExpiresIn'', ''expires_in'', KFloat64 ExpiresIn (\<lambda>x a. a\<lparr>ExpiresIn := x\<rparr>)),
     (''RefreshExpiresIn'', ''refresh_expires_in'', KFloat64 RefreshExpiresIn (\<lambda>x a. a\<lparr>RefreshExpiresIn := x\<rparr>)),
     (''RefreshToken'', ''refresh_token'', KString RefreshToken (\<lambda>x a. a\<lparr>RefreshToken := x\<rparr>)),
     (''TokenType'', ''token_type'', KString TokenType (\<lambda>x a. a\<lparr>TokenType := x\<rparr>))]"

definition asked :: "auth_act \<Rightarrow> auth \<Rightarrow> auth" where
  "asked x a = a\<lparr>auth_trace := auth_trace a @ [x]\<rparr>"

subsection \<open>Requests\<close>

definition token_url :: "config \<Rightarrow> string" where
  "token_url cfg = AuthEndpoint cfg @ ''/auth/realms/master/protocol/openid-connect/token''"

text \<open>
  What both requests do with their form. The body is decoded into the token as it is, and the
  time of the request is stored even if that fails.
\<close>

definition request_token ::
    "token_env \<Rightarrow> config \<Rightarrow> (string, string) gomap \<Rightarrow> auth \<Rightarrow> string option \<times> auth" where
  "request_token H cfg form a =
     (let requesttime = auth_clock H (auth_trace a);
          a1 = asked AuthNow a;
          a2 = asked (PostForm (token_url cfg) form) a1
      in case post_form H (auth_trace a1) (token_url cfg) form of
           Inl err \<Rightarrow> (Some err, a2)
         | Inr (status, body) \<Rightarrow>
             if status \<noteq> 200 then (Some body, a2)
             else (case decode_struct auth_fields body a2 of
                     (a3, ok) \<Rightarrow> (if ok then None else Some (decode_error H body),
                                   a3\<lparr>RequestTime := requesttime\<rparr>)))"

definition password_form :: "config \<Rightarrow> (string, string) gomap" where
  "password_form cfg =
     [(''client_id'', AuthClientId cfg), (''username'', AuthUsername cfg),
      (''password'', AuthPassword cfg), (''grant_type'', ''password'')]"

definition refresh_form :: "config \<Rightarrow> auth \<Rightarrow> (string, string) gomap" where
  "refresh_form cfg a =
     [(''client_id'', AuthClientId cfg), (''refresh_token'', RefreshToken a), (''grant_type'', ''refresh_token'')]"

definition getOpenidToken :: "token_env \<Rightarrow> config \<Rightarrow> auth \<Rightarrow> string option \<times> auth" where
  "getOpenidToken H cfg a = request_token H cfg (password_form cfg) a"

definition refreshOpenidToken :: "token_env \<Rightarrow> config \<Rightarrow> auth \<Rightarrow> string option \<times> auth" where
  "refreshOpenidToken H cfg a = request_token H cfg (refresh_form cfg a) a"

subsection \<open>Expiration\<close>

text \<open>\<^verbatim>\<open>Duration.Seconds\<close>: the sum of the whole seconds and the rest, each a float64.\<close>

definition duration_seconds :: "int \<Rightarrow> float64" where
  "duration_seconds d =
     (case (f64_ratio (d < 0) (\<bar>d\<bar> div second) 1, f64_ratio (d < 0) (\<bar>d\<bar> mod second) second) of
        (Some s, Some r) \<Rightarrow> (case f64_add s r of Some x \<Rightarrow> x | None \<Rightarrow> zero_float)
      | _ \<Rightarrow> zero_float)"

text \<open>\<^verbatim>\<open>expires - buffer > duration\<close>; an infinite difference has the sign of the exact one.\<close>

definition outlives :: "float64 \<Rightarrow> float64 \<Rightarrow> float64 \<Rightarrow> bool" where
  "outlives expires buffer duration =
     (case f64_sub expires buffer of
        Some x \<Rightarrow> duration < x
      | None \<Rightarrow> buffer < expires)"

text \<open>A token that outlives a duration outlives every shorter one.\<close>

lemma outlives_shorter: "outlives expires buffer d \<Longrightarrow> d' \<le> d \<Longrightarrow> outlives expires buffer d'"
  by (auto simp: outlives_def intro: le_less_trans split: option.splits)

subsection \<open>The token\<close>

text \<open>
  The result is the token and the error. After a failed request \<^verbatim>\<open>openid = &Auth{}\<close> assigns the
  local variable only: the token of the result is empty, the stored one is as the request left it.
\<close>

definition bearer :: "string \<Rightarrow> string" where
  "bearer t = ''Bearer '' @ t"

definition new_access :: "token_env \<Rightarrow> config \<Rightarrow> auth \<Rightarrow> (string \<times> string option) \<times> auth" where
  "new_access H cfg a =
     (case getOpenidToken H cfg a of
        (None, a1) \<Rightarrow> ((bearer (AccessToken a1), None), a1)
      | (Some err, a1) \<Rightarrow> ((bearer (AccessToken new_auth), Some err), a1))"

definition EnsureAccess :: "token_env \<Rightarrow> config \<Rightarrow> auth \<Rightarrow> (string \<times> string option) \<times> auth" where
  "EnsureAccess H cfg a =
     (if \<not> AuthEnabled cfg then (([], None), a)
      else
        (let duration = duration_seconds (time_sub (auth_clock H (auth_trace a)) (RequestTime a));
             a0 = asked AuthNow a;
             buffer = AuthExpirationTimeBuffer cfg
         in if AccessToken a0 \<noteq> [] \<and> outlives (ExpiresIn a0) buffer duration then
              ((bearer (AccessToken a0), None), a0)
            else if RefreshToken a0 \<noteq> [] \<and> outlives (RefreshExpiresIn a0) buffer duration then
              (case refreshOpenidToken H cfg a0 of
                 (None, a1) \<Rightarrow> ((bearer (AccessToken a1), None), a1)
               | (Some _, a1) \<Rightarrow> new_access H cfg a1)
            else new_access H cfg a0))"

text \<open>
  The repository cache sees the service as \<open>ensure_access\<close>, a function of its own calls so far;
  the state of the service is what those calls have made of a new one.
\<close>

primrec token_after :: "token_env \<Rightarrow> config \<Rightarrow> auth \<Rightarrow> repo_trace \<Rightarrow> auth" where
  "token_after H cfg a [] = a"
| "token_after H cfg a (x # tr) =
     token_after H cfg (if x = Token then snd (EnsureAccess H cfg a) else a) tr"

definition with_token_service :: "token_env \<Rightarrow> config \<Rightarrow> remote \<Rightarrow> remote" where
  "with_token_service H cfg R = R\<lparr>ensure_access := (\<lambda>tr.
     case EnsureAccess H cfg (token_after H cfg new_auth tr) of
       ((token, None), _) \<Rightarrow> Inr token
     | ((_, Some err), _) \<Rightarrow> Inl err)\<rparr>"

subsection \<open>Lemmas\<close>

text \<open>Decoding never touches what is not a field: the request time and the trace.\<close>

lemma field_of_auth:
  "field_of auth_fields k = Some f \<Longrightarrow> f \<in> (\<lambda>x. snd (snd x)) ` set auth_fields"
  by (force simp: field_of_def dest!: find_SomeD)

lemma decode_auth_field:
  assumes "field_of auth_fields k = Some f"
  shows "RequestTime (fst (decode_field f v a)) = RequestTime a"
    and "auth_trace (fst (decode_field f v a)) = auth_trace a"
  using field_of_auth [OF assms] by (auto simp: auth_fields_def decoded_def split: option.split)

lemma decode_auth_members:
  "RequestTime (fst (decode_members auth_fields ms a)) = RequestTime a
   \<and> auth_trace (fst (decode_members auth_fields ms a)) = auth_trace a"
proof (induction ms arbitrary: a)
  case (Cons m ms)
  show ?case
  proof (cases "field_of auth_fields (fst m)")
    case (Some f)
    obtain a1 ok where "decode_field f (snd m) a = (a1, ok)" by fastforce
    with Some decode_auth_field [OF Some, of "snd m" a] Cons [of a1] show ?thesis
      by (simp split: prod.split) (metis fst_conv)
  qed (use Cons in \<open>simp split: prod.split; metis fst_conv\<close>)
qed simp

lemma decode_auth:
  "decode_struct auth_fields body a = (a', ok) \<Longrightarrow> RequestTime a' = RequestTime a \<and> auth_trace a' = auth_trace a"
  using decode_auth_members [of _ a]
  by (auto simp: decode_struct_def split: option.splits json.splits) (metis fst_conv)+

lemma asked_simps [simp]:
  "AccessToken (asked x a) = AccessToken a" "RefreshToken (asked x a) = RefreshToken a"
  "ExpiresIn (asked x a) = ExpiresIn a" "RefreshExpiresIn (asked x a) = RefreshExpiresIn a"
  "RequestTime (asked x a) = RequestTime a" "auth_trace (asked x a) = auth_trace a @ [x]"
  by (simp_all add: asked_def)

lemma request_token_trace:
  "auth_trace (snd (request_token H cfg form a)) = auth_trace a @ [AuthNow, PostForm (token_url cfg) form]"
  using decode_auth [of _ "asked (PostForm (token_url cfg) form) (asked AuthNow a)"]
  by (auto simp: request_token_def Let_def split: sum.split prod.split)

lemma refresh_trace:
  "refreshOpenidToken H cfg a = (err, a') \<Longrightarrow>
     auth_trace a' = auth_trace a @ [AuthNow, PostForm (token_url cfg) (refresh_form cfg a)]"
  using request_token_trace [of H cfg "refresh_form cfg a" a] by (simp add: refreshOpenidToken_def)

lemma new_access_result:
  assumes "new_access H cfg a = ((t, err), a')"
  shows "t = bearer (if err = None then AccessToken a' else [])"
    and "auth_trace a' = auth_trace a @ [AuthNow, PostForm (token_url cfg) (password_form cfg)]"
  using assms request_token_trace [of H cfg "password_form cfg" a]
  by (auto simp: new_access_def getOpenidToken_def new_auth_def split: prod.splits option.splits)

text \<open>The requests an operation has made.\<close>

definition posts :: "auth_act list \<Rightarrow> (string, string) gomap list" where
  "posts tr = concat (map (\<lambda>x. case x of PostForm u form \<Rightarrow> [form] | AuthNow \<Rightarrow> []) tr)"

lemma posts_simps [simp]:
  "posts [] = []" "posts (tr @ tr') = posts tr @ posts tr'"
  "posts (AuthNow # tr) = posts tr" "posts (PostForm u form # tr) = form # posts tr"
  by (simp_all add: posts_def)

subsection \<open>The service as provider of the repository cache\<close>

lemma EnsureAccess_bearer:
  "AuthEnabled cfg \<Longrightarrow> EnsureAccess H cfg a = ((t, err), a') \<Longrightarrow> HasPrefix t ''Bearer ''"
  by (auto simp: EnsureAccess_def new_access_def bearer_def HasPrefix_def Let_def
      split: if_splits prod.splits option.splits)

interpretation service: token_provider cfg "with_token_service H cfg R" for cfg H R
  by unfold_locales
     (auto simp: with_token_service_def dest: EnsureAccess_bearer split: prod.splits option.splits)

end
