(* ===== verification/ConfigProperties.thy ===== *)
theory ConfigProperties
  imports Environment TokenService
begin

section \<open>Properties of the configuration and of the token service\<close>

subsection \<open>Environment variables\<close>

lemma env_names: "map (\<lambda>f. fieldNameToEnvName (fst f)) config_fields =
   [''DEBUG'',
    ''CONNECTOR_ID'',
    ''DEVICE_ID_PREFIX'',
    ''MGW_MQTT_BROKER'',
    ''MGW_MQTT_CLIENT_ID'',
    ''MGW_MQTT_USER'',
    ''MGW_MQTT_PW'',
    ''ZIGBEE_MQTT_BROKER'',
    ''ZIGBEE_MQTT_CLIENT_ID'',
    ''ZIGBEE_MQTT_USER'',
    ''ZIGBEE_MQTT_PW'',
    ''ZIGBEE_QOS'',
    ''ZIGBEE_MQTT_TOPIC_PREFIX'',
    ''EVENT_REFRESH_INTERVAL'',
    ''AUTH_ENDPOINT'',
    ''AUTH_CLIENT_ID'',
    ''AUTH_EXPIRATION_TIME_BUFFER'',
    ''AUTH_USERNAME'',
    ''AUTH_PASSWORD'',
    ''DEVICE_REPOSITORY_URL'',
    ''MIN_CACHE_DURATION'',
    ''MAX_CACHE_DURATION'',
    ''CREATE_MISSING_DEVICE_TYPES'',
    ''CREATE_MISSING_DEVICE_TYPES_WITH_DEVICE_CLASS'',
    ''CREATE_MISSING_DEVICE_TYPES_WITH_PROTOCOL'',
    ''CREATE_MISSING_DEVICE_TYPES_WITH_PROTOCOL_SEGMENT'',
    ''MODEL_ALIASES'',
    ''LAST_MESSAGE_MAX_AGE'',
    ''COMMAND_ACK_TIMEOUT'',
    ''LOG_LEVEL'']"
  by code_simp

text \<open>
  C39. What the environment does to the configuration: every field but one is taken from the
  variable named after it, if that is not empty. The exception is \<^verbatim>\<open>ZigbeeQos\<close>, which no
  variable changes.
\<close>

theorem environment_overrides:
  "handleEnvironmentVars getenv cfg =
     map_option (\<lambda>al. cfg\<lparr>
      Debug := env_bool (getenv ''DEBUG'') (Debug cfg),
      ConnectorId := env_string (getenv ''CONNECTOR_ID'') (ConnectorId cfg),
      DeviceIdPrefix := env_string (getenv ''DEVICE_ID_PREFIX'') (DeviceIdPrefix cfg),
      MgwMqttBroker := env_string (getenv ''MGW_MQTT_BROKER'') (MgwMqttBroker cfg),
      MgwMqttClientId := env_string (getenv ''MGW_MQTT_CLIENT_ID'') (MgwMqttClientId cfg),
      MgwMqttUser := env_string (getenv ''MGW_MQTT_USER'') (MgwMqttUser cfg),
      MgwMqttPw := env_string (getenv ''MGW_MQTT_PW'') (MgwMqttPw cfg),
      ZigbeeMqttBroker := env_string (getenv ''ZIGBEE_MQTT_BROKER'') (ZigbeeMqttBroker cfg),
      ZigbeeMqttClientId := env_string (getenv ''ZIGBEE_MQTT_CLIENT_ID'') (ZigbeeMqttClientId cfg),
      ZigbeeMqttUser := env_string (getenv ''ZIGBEE_MQTT_USER'') (ZigbeeMqttUser cfg),
      ZigbeeMqttPw := env_string (getenv ''ZIGBEE_MQTT_PW'') (ZigbeeMqttPw cfg),
      ZigbeeMqttTopicPrefix := env_string (getenv ''ZIGBEE_MQTT_TOPIC_PREFIX'') (ZigbeeMqttTopicPrefix cfg),
      EventRefreshInterval := env_string (getenv ''EVENT_REFRESH_INTERVAL'') (EventRefreshInterval cfg),
      AuthEndpoint := env_string (getenv ''AUTH_ENDPOINT'') (AuthEndpoint cfg),
      AuthClientId := env_string (getenv ''AUTH_CLIENT_ID'') (AuthClientId cfg),
      AuthExpirationTimeBuffer := env_float (getenv ''AUTH_EXPIRATION_TIME_BUFFER'') (AuthExpirationTimeBuffer cfg),
      AuthUsername := env_string (getenv ''AUTH_USERNAME'') (AuthUsername cfg),
      AuthPassword := env_string (getenv ''AUTH_PASSWORD'') (AuthPassword cfg),
      DeviceRepositoryUrl := env_string (getenv ''DEVICE_REPOSITORY_URL'') (DeviceRepositoryUrl cfg),
      MinCacheDuration := env_string (getenv ''MIN_CACHE_DURATION'') (MinCacheDuration cfg),
      MaxCacheDuration := env_string (getenv ''MAX_CACHE_DURATION'') (MaxCacheDuration cfg),
      CreateMissingDeviceTypes := env_bool (getenv ''CREATE_MISSING_DEVICE_TYPES'') (CreateMissingDeviceTypes cfg),
      CreateMissingDeviceTypesWithDeviceClass := env_string (getenv ''CREATE_MISSING_DEVICE_TYPES_WITH_DEVICE_CLASS'') (CreateMissingDeviceTypesWithDeviceClass cfg),
      CreateMissingDeviceTypesWithProtocol := env_string (getenv ''CREATE_MISSING_DEVICE_TYPES_WITH_PROTOCOL'') (CreateMissingDeviceTypesWithProtocol cfg),
      CreateMissingDeviceTypesWithProtocolSegment := env_string (getenv ''CREATE_MISSING_DEVICE_TYPES_WITH_PROTOCOL_SEGMENT'') (CreateMissingDeviceTypesWithProtocolSegment cfg),
      LastMessageMaxAge := env_string (getenv ''LAST_MESSAGE_MAX_AGE'') (LastMessageMaxAge cfg),
      CommandAckTimeout := env_string (getenv ''COMMAND_ACK_TIMEOUT'') (CommandAckTimeout cfg),
      LogLevel := env_string (getenv ''LOG_LEVEL'') (LogLevel cfg),
      ModelAliases := al\<rparr>)
     (env_map (getenv ''MODEL_ALIASES'') (ModelAliases cfg))"
proof (cases cfg)
  case (fields debug)
  note names = env_names [unfolded config_fields_def list.map fst_conv list.inject]
  show ?thesis
    unfolding handleEnvironmentVars_def config_fields_def fields
    by (simp add: env_loop_fields env_loop_map names map_option_case del: env_loop.simps(2) cong: option.case_cong)
qed

lemma Split_single: "(\<exists>p. Split e sep = [p]) \<longleftrightarrow> sep \<notin> set e"
  using Split_no_sep [of sep e] Join_Split [of e sep] Split_parts_no_sep [of _ e sep]
  by (metis Join.simps(2) list.set_intros(1))

lemma map_elements_None: "map_elements es m = None \<longleftrightarrow> \<not> list_all (\<lambda>e. CHR '':'' \<in> set e) es"
proof (induction es arbitrary: m)
  case (Cons e es)
  then show ?case
    using Split_single [of e "CHR '':''"] Split_ne [of e "CHR '':''"]
    by (cases "Split e CHR '':''"; cases "tl (Split e CHR '':'')") auto
qed simp

definition panics :: "'c field_kind \<Rightarrow> string \<Rightarrow> bool" where
  "panics f v \<longleftrightarrow> (case f of KMap get upd \<Rightarrow> map_elements (Split v CHR '','') [] = None | _ \<Rightarrow> False)"

lemma set_field_None: "set_field f v c = None \<longleftrightarrow> panics f v"
  by (cases f) (auto simp: panics_def)

lemma env_loop_None:
  "env_loop getenv fs c = None \<longleftrightarrow>
     list_ex (\<lambda>f. getenv (fieldNameToEnvName (fst f)) \<noteq> []
       \<and> panics (snd (snd f)) (getenv (fieldNameToEnvName (fst f)))) fs"
proof (induction fs arbitrary: c)
  case (Cons f fs)
  let ?v = "getenv (fieldNameToEnvName (fst f))"
  show ?case using set_field_None [of "snd (snd f)" ?v c] Cons
    by (cases "set_field (snd (snd f)) ?v c") (simp_all add: Let_def)
qed simp

text \<open>
  The loop panics exactly when \<^verbatim>\<open>MODEL_ALIASES\<close> is not empty and one of its elements has no
  colon.
\<close>

lemma aliases_panic_iff:
  "handleEnvironmentVars getenv cfg = None \<longleftrightarrow>
     getenv ''MODEL_ALIASES'' \<noteq> [] \<and>
     \<not> list_all (\<lambda>e. CHR '':'' \<in> set e) (Split (getenv ''MODEL_ALIASES'') CHR '','')"
proof -
  have name: "fieldNameToEnvName ''ModelAliases'' = ''MODEL_ALIASES''" by code_simp
  show ?thesis
    unfolding handleEnvironmentVars_def env_loop_None config_fields_def
    by (simp add: panics_def name map_elements_None)
qed

subsection \<open>The token\<close>


text \<open>A clock at a thousand seconds and an identity provider that is down for maintenance.\<close>

definition broken_provider :: token_env where
  "broken_provider = \<lparr>auth_clock = (\<lambda>tr. (if length tr < 3 then 1000 else 1001) * second),
     post_form = (\<lambda>tr url form. Inr (200, ''maintenance'')), decode_error = (\<lambda>s. ''invalid character'')\<rparr>"

definition auth_config :: config where
  "auth_config = default_config\<lparr>AuthEndpoint := ''https://auth''\<rparr>"

text \<open>A token that was valid for 300 seconds from time 0 on.\<close>

definition expired_token :: auth where
  "expired_token = new_auth\<lparr>AccessToken := ''old'', ExpiresIn := F64 75 2\<rparr>"


text \<open>
  No request is made exactly when there is no authentication or the stored token outlives
  the time since it was requested, with the buffer of the configuration.
\<close>

theorem request_iff_expired:
  "auth_trace (snd (EnsureAccess H cfg a)) = auth_trace a @ acts \<and> posts acts = [] \<longleftrightarrow>
     (if AuthEnabled cfg then acts = [AuthNow] \<and> AccessToken a \<noteq> []
        \<and> outlives (ExpiresIn a) (AuthExpirationTimeBuffer cfg)
            (duration_seconds (time_sub (auth_clock H (auth_trace a)) (RequestTime a)))
      else acts = [])"
proof -
  have new: "auth_trace (snd (new_access H cfg b)) =
      auth_trace b @ [AuthNow, PostForm (token_url cfg) (password_form cfg)]" for b
    using new_access_result(2) [of H cfg b] by (metis prod.collapse)
  show ?thesis
    using new by (auto simp: EnsureAccess_def Let_def dest!: refresh_trace split: prod.splits option.splits)
qed

text \<open>
  A renewal that fails while it is decoded stores the time of the request beside the old
  token, which is then handed out as valid although it has expired.
\<close>

lemma failed_renewal_revives_token:
  "let (r1, a1) = EnsureAccess broken_provider auth_config expired_token;
       (r2, a2) = EnsureAccess broken_provider auth_config a1
   in r1 = (''Bearer '', Some ''invalid character'') \<and> r2 = (''Bearer old'', None)
     \<and> posts (auth_trace a2) = posts (auth_trace a1)"
  by code_simp

end
