(* ===== verification/RepoProperties.thy ===== *)
theory RepoProperties
  imports Scenario ConfigProperties
begin

section \<open>Properties of the repository cache and of the data\<close>

subsection \<open>Finding device types\<close>

text \<open>
  C33. A device type that is found is on the cached list and fits the device, with the vendor
  and the model up to case and surrounding space; when the search reports that there is none,
  no type of the list, as it is after the search, fits.
\<close>

theorem find_device_type:
  assumes "FindDeviceType cfg R d r = (x, r')"
  shows "case x of Inr dt \<Rightarrow> dt \<in> set (deviceTypes r') \<and> fits d dt
    | Inl e \<Rightarrow> \<not> (is_no_match e \<and> (\<exists>dt. dt \<in> set (deviceTypes r') \<and> fits d dt))"
  using assms by_device.reloading_sound [of cfg R d "device_detail d" r]
    by_device.reloading_complete [of cfg R d "device_detail d" r]
  by (auto simp: FindDeviceType_def split: sum.split)

theorem find_device_type_witness:
  "\<exists>dt r'. FindDeviceType default_config lamp_platform lamp empty_repo = (Inr dt, r') \<and> fits lamp dt"
proof -
  have "fst (FindDeviceType default_config lamp_platform lamp empty_repo) = Inr (view_device_type lamp_type)"
    using lamp_fits lamp_fresh lamp_config
    by (simp add: platform_run FindDeviceType_def matches_device_fits empty_repo_def lamp_platform_def no_platform_def)
  then obtain r' where "FindDeviceType default_config lamp_platform lamp empty_repo = (Inr (view_device_type lamp_type), r')"
    by (metis prod.collapse)
  with find_device_type [OF this] show ?thesis by auto
qed

text \<open>How often the list was requested.\<close>

definition list_requests :: "repo \<Rightarrow> nat" where
  "list_requests r = length (filter (\<lambda>a. case a of ListDeviceTypes t \<Rightarrow> True | _ \<Rightarrow> False) (rtrace r))"

lemma list_requests_called [simp]:
  "list_requests (called a r) = list_requests r + (case a of ListDeviceTypes t \<Rightarrow> 1 | _ \<Rightarrow> 0)"
  by (simp add: list_requests_def split: repo_act.split)

lemma list_requests_update [simp]: "list_requests (r\<lparr>deviceTypes := ts, lastDtRefresh := t\<rparr>) = list_requests r"
  by (simp add: list_requests_def)











text \<open>
  C36. The cache together with the token service: with authentication every request to the
  platform carries a bearer token, without it none carries a token. An error of the token
  service means that there is no request.
\<close>

theorem requests_authorized:
  assumes "authorized cfg r"
  shows "let P = with_token_service H cfg R in
     authorized cfg (snd (GetKnownDeviceDeviceTypeId cfg P deviceId r))
   \<and> authorized cfg (snd (GetDeviceType cfg P dtId r))
   \<and> authorized cfg (snd (FindDeviceType cfg P d r))
   \<and> authorized cfg (snd (FindDeviceTypeId cfg P d r))
   \<and> authorized cfg (snd (CreateDeviceTypeWithDistinctAttributes cfg P dt keys r))"
proof -
  note find = service.find_authorized [OF assms, of H R]
  have "authorized cfg (snd (FindDeviceTypeId cfg (with_token_service H cfg R) d r))"
    using find [of "getMatchingDeviceType d" "device_detail d"]
    by (auto simp: FindDeviceTypeId_def split: prod.split sum.split)
  then show ?thesis
    using find service.known_authorized [OF assms] service.create_authorized [OF assms]
    by (simp add: GetDeviceType_def FindDeviceType_def)
qed

theorem requests_authorized_witness:
  "authorized auth_config (snd (FindDeviceType auth_config
     (with_token_service broken_provider auth_config lamp_platform) lamp empty_repo))"
proof -
  have "authorized auth_config empty_repo" by (simp add: authorized_def empty_repo_def)
  from requests_authorized [OF this] show ?thesis by (simp add: Let_def)
qed

subsection \<open>The shape of values\<close>

text \<open>
  A value as JSON gives it: no Go integer anywhere, and the keys of every object are distinct.
\<close>

fun json_value :: "go_value \<Rightarrow> bool"
  and json_values :: "go_value list \<Rightarrow> bool"
  and json_members :: "(string \<times> go_value) list \<Rightarrow> bool"
where
  "json_value (VInt i) = False"
| "json_value (VList vs) = json_values vs"
| "json_value (VMap m) = (distinct (map fst m) \<and> json_members m)"
| "json_value _ = True"
| "json_values [] = True"
| "json_values (v # vs) = (json_value v \<and> json_values vs)"
| "json_members [] = True"
| "json_members ((k, v) # m) = (json_value v \<and> json_members m)"

lemma json_members_iff: "json_members m \<longleftrightarrow> (\<forall>(k, v) \<in> set m. json_value v)"
  by (induction m) auto

lemma json_members_mput: "mwf m \<Longrightarrow> json_members m \<Longrightarrow> json_value v \<Longrightarrow> json_members (mput k v m)"
  by (auto simp: json_members_iff set_mput split: if_splits)

lemma to_value_json:
  "to_value j = Some v \<Longrightarrow> json_value v"
  "to_values js = Some vs \<Longrightarrow> json_values vs"
  "to_members ms m = Some m' \<Longrightarrow> mwf m \<Longrightarrow> json_members m \<Longrightarrow> json_members m'"
proof (induction j and js and ms m arbitrary: v and vs and m' rule: to_value_to_values_to_members.induct)
  case (6 ms)
  then show ?case using mwf_to_members [of "[]" ms] by auto
next
  case (10 k v ms m)
  then show ?case by (auto intro: json_members_mput split: option.splits)
qed (auto split: option.splits)

text \<open>
  C29. A payload read as a map is a value as JSON gives it; so the expectation computed from a
  command is confirmed by any state that repeats the values of the command, its echo included.
\<close>

theorem echo_confirms:
  assumes "unmarshal_map data = Some payload"
    and "\<And>k v. map_of payload k = Some v \<Longrightarrow> map_of state k = Some v"
  shows "json_value (VMap payload) \<and> ackMatches (fst (ackExpectation data exposes lastState)) state"
proof
  from assms(1) have "mwf payload" by (rule mwf_unmarshal_map)
  moreover obtain j where "to_map j = Some payload" using assms(1) by (auto simp: unmarshal_map_def bind_eq_Some_conv)
  then have "json_members payload"
    using to_value_json(3) [of _ "[]" payload] by (cases j) (auto simp: to_map_def)
  ultimately show "json_value (VMap payload)" by simp
  show "ackMatches (fst (ackExpectation data exposes lastState)) state"
    unfolding ackMatches_iff
  proof (clarify)
    fix k e assume "(k, e) \<in> set (fst (ackExpectation data exposes lastState))"
    with mwf_ackExpectation have "map_of (fst (ackExpectation data exposes lastState)) k = Some e" by simp
    then have p: "map_of payload k = Some e"
      by (simp add: ackExpectation_lookup [OF assms(1)] split: if_splits)
    then have "(k, e) \<in> set payload" by (rule map_of_SomeD)
    with \<open>json_members payload\<close> have "json_value e" by (auto simp: json_members_iff)
    then have "confirms e e" by (cases e) (auto intro: confirms.intros)
    with assms(2) [OF p] show "\<exists>g. map_of state k = Some g \<and> confirms e g" by blast
  qed
qed

theorem echo_confirms_witness:
  "ackMatches (fst (ackExpectation (Data (cd_Command switch_on)) [light_feature] []))
     [(''state'', VStr ''ON''), (''brightness'', VFloat (F64 1 1))]"
proof -
  have "unmarshal_map (Data (cd_Command switch_on)) = Some [(''state'', VStr ''ON'')]" by code_simp
  then show ?thesis
    by (rule echo_confirms [THEN conjunct2]) (auto split: if_splits)
qed

subsection \<open>The shape of a created device type\<close>

text \<open>
  A well-formed description of a value: a plain one has no parts, the parts of a list are
  numbered, and the parts of either are well-formed.
\<close>

fun cv_ok :: "content_variable \<Rightarrow> bool" where
  "cv_ok (ContentVariable n t void omit subs) \<longleftrightarrow> \<not> void \<and> omit \<and> list_all cv_ok subs
     \<and> t \<in> {CvString, CvFloat, CvBoolean, CvList, CvStructure}
     \<and> (t \<notin> {CvList, CvStructure} \<longrightarrow> subs = [])
     \<and> (t = CvList \<longrightarrow> map cv_name subs = map (\<lambda>i. Itoa (int i)) [0..<length subs])"

lemma variables_ok:
  "valueToContentVariable name v = Some cv \<Longrightarrow> cv_ok cv \<and> cv_name cv = name"
  "list_variables i vs = Some cvs \<Longrightarrow> list_all cv_ok cvs
     \<and> map cv_name cvs = map (\<lambda>j. Itoa (i + int j)) [0..<length cvs]"
  "map_variables m = Some cvs \<Longrightarrow> list_all cv_ok cvs \<and> map cv_name cvs = map fst m"
proof (induction name v and i vs and m arbitrary: cv and cvs and cvs
    rule: valueToContentVariable_list_variables_map_variables.induct)
  case (9 i v vs)
  then obtain x xs where x: "valueToContentVariable (Itoa i) v = Some x" "list_variables (i + 1) vs = Some xs"
      "cvs = x # xs" by (auto split: option.splits)
  have "map (\<lambda>j. Itoa (i + int j)) [0..<Suc n] = Itoa i # map (\<lambda>j. Itoa (i + 1 + int j)) [0..<n]" for n
    by (simp add: upt_conv_Cons map_Suc_upt [symmetric] ac_simps del: upt_Suc)
  with x "9.IH"(1) [of x] "9.IH"(2) [OF x(1), of xs] show ?case by (simp del: upt_Suc)
qed (auto split: option.splits)

text \<open>
  C30. The type that is created for a device has at most the services \<^verbatim>\<open>set\<close> and \<^verbatim>\<open>get\<close>, each
  exactly if the example message for it is not empty; the content of a service is a
  well-formed structure whose parts are named by the keys of that message.
\<close>

definition describes :: "content_variable \<Rightarrow> (string, go_value) gomap \<Rightarrow> bool" where
  "describes cv m \<longleftrightarrow> cv_ok cv \<and> cv_name cv = ''value'' \<and> cv_type cv = CvStructure \<and> map cv_name (cv_subs cv) = mkeys m"

lemma service_for_describes:
  assumes "service_for mk cfg m = Some ss"
  shows "\<exists>cv. ss = (if m = [] then [] else [mk cfg cv]) \<and> (m = [] \<or> describes cv m)"
proof (cases "m = []")
  case False
  with assms obtain cvs where cvs: "map_variables m = Some cvs"
    "ss = [mk cfg (ContentVariable ''value'' CvStructure False True cvs)]"
    by (auto simp: service_for_def)
  with False variables_ok(3) [OF cvs(1)] show ?thesis
    by (intro exI [of _ "ContentVariable ''value'' CvStructure False True cvs"]) (simp add: describes_def)
qed (use assms in \<open>simp add: service_for_def\<close>)

theorem created_type_shape:
  assumes "zigbeeDeviceToDeviceType cfg d = Some dt"
  shows "\<exists>ci co. let input = GetZigbeeMessageStruct d ZigbeeSetAccess; output = GetZigbeeMessageStruct d ZigbeeEventAccess
    in md_Services dt = (if input = [] then [] else [set_service cfg ci]) @ (if output = [] then [] else [get_service cfg co])
      \<and> (input = [] \<or> describes ci input) \<and> (output = [] \<or> describes co output)"
proof -
  from assms obtain setter getter where
    s: "service_for set_service cfg (GetZigbeeMessageStruct d ZigbeeSetAccess) = Some setter"
      "service_for get_service cfg (GetZigbeeMessageStruct d ZigbeeEventAccess) = Some getter"
      "md_Services dt = setter @ getter"
    by (auto simp: zigbeeDeviceToDeviceType_def Let_def split: option.splits)
  from service_for_describes [OF s(1)] service_for_describes [OF s(2)] s(3) show ?thesis
    unfolding Let_def by blast
qed

theorem created_type_shape_witness:
  "\<exists>dt. zigbeeDeviceToDeviceType default_config lamp = Some dt \<and> map ms_LocalId (md_Services dt) = [''set'', ''get'']"
proof -
  have "zigbeeDeviceToDeviceType default_config lamp \<noteq> None" by code_simp
  then obtain dt where dt: "zigbeeDeviceToDeviceType default_config lamp = Some dt" by blast
  have "GetZigbeeMessageStruct lamp ZigbeeSetAccess \<noteq> []" "GetZigbeeMessageStruct lamp ZigbeeEventAccess \<noteq> []" by code_simp+
  with created_type_shape [OF dt] dt show ?thesis by (auto simp: Let_def set_service_def get_service_def)
qed

end
