(* ===== verification/Startup.thy ===== *)
theory Startup
  imports DeviceHandling Environment TokenService
begin

section \<open>Starting the connector (\<^verbatim>\<open>main.go\<close>, \<^verbatim>\<open>Start\<close>, \<^verbatim>\<open>StartWithDependencies\<close>)\<close>

text \<open>
  The start is a chain of constructors with an early return after each error. The factories of
  the two clients are arguments, as in the source; \<open>Start\<close> passes the real ones. A result is
  \<open>Started\<close> with the connector, \<open>StartError\<close>, upon which \<^verbatim>\<open>main\<close> ends the process, or
  \<open>StartPanic\<close>. The goroutines a successful start leaves running are those of \<open>Runtime\<close>.
\<close>

definition new_acks :: "int \<Rightarrow> ack_registry option" where
  "new_acks ackTimeout = (if ackTimeout > 0 then Some (newAckRegistry ackTimeout) else None)"

text \<open>
  The factories take a context, a wait group, the configuration and the connector or its refresh
  method. Context and wait group have no value at the start, and the methods of the connector
  are called from \<open>Runtime\<close>; only whether the refresh method is nil matters here.
\<close>

definition FMap4 ::
    "('i1 \<Rightarrow> 'i2 \<Rightarrow> 'i3 \<Rightarrow> 'i4 \<Rightarrow> 'r start) \<Rightarrow> ('r \<Rightarrow> 'n) \<Rightarrow> 'i1 \<Rightarrow> 'i2 \<Rightarrow> 'i3 \<Rightarrow> 'i4 \<Rightarrow> 'n start" where
  "FMap4 f c in1 in2 in3 in4 =
     (case f in1 in2 in3 in4 of
        StartError \<Rightarrow> StartError
      | StartPanic \<Rightarrow> StartPanic
      | Started temp \<Rightarrow> Started (c temp))"

type_synonym zigbee_factory = "unit \<Rightarrow> unit \<Rightarrow> config \<Rightarrow> unit \<Rightarrow> (zclient \<times> int option) start"
type_synonym mgw_factory = "unit \<Rightarrow> unit \<Rightarrow> config \<Rightarrow> bool \<Rightarrow> mgw_client start"

definition ZigbeeFactoryCast :: "zigbee_factory \<Rightarrow> zigbee_factory" where
  "ZigbeeFactoryCast f = FMap4 f (\<lambda>resultType. resultType)"

definition MgwFactoryCast :: "mgw_factory \<Rightarrow> mgw_factory" where
  "MgwFactoryCast f = FMap4 f (\<lambda>resultType. resultType)"

definition StartWithDependencies ::
    "config \<Rightarrow> mgw_factory \<Rightarrow> zigbee_factory \<Rightarrow> broker \<Rightarrow> repo \<Rightarrow> connector start" where
  "StartWithDependencies cfg mgwFactory zigbeeFactory b repository =
     (case getDeviceAttributes cfg of
        None \<Rightarrow> StartError
      | Some attributes \<Rightarrow>
          (case parseCommandAckTimeout cfg of
             Inl err \<Rightarrow> StartError
           | Inr ackTimeout \<Rightarrow>
               (case zigbeeFactory () () cfg () of
                  StartError \<Rightarrow> StartError
                | StartPanic \<Rightarrow> StartPanic
                | Started (z, period) \<Rightarrow>
                    (case mgwFactory () () cfg True of
                       StartError \<Rightarrow> StartError
                     | StartPanic \<Rightarrow> StartPanic
                     | Started m \<Rightarrow>
                         (case ListenToCommands b m of
                            (Some err, m1) \<Rightarrow> StartError
                          | (None, m1) \<Rightarrow>
                              Started \<lparr>zigbee = z, mgw = m1, devicerepo = repository, devicestate = [],
                                deviceAttributes = attributes, acks = new_acks ackTimeout\<rparr>)))))"

text \<open>\<^verbatim>\<open>connector.Start\<close>, with the two brokers; \<^verbatim>\<open>devicerepo.New\<close> fails on an invalid duration.\<close>

definition new_mgw :: "broker \<Rightarrow> mgw_factory" where
  "new_mgw b ctx wait_group cfg refreshNotifier =
     (case mgw_New (ConnectorId cfg) b refreshNotifier of None \<Rightarrow> StartError | Some m \<Rightarrow> Started m)"

definition new_zigbee :: "broker \<Rightarrow> zigbee_factory" where
  "new_zigbee b ctx wait_group cfg connector = z_New cfg b"

definition Start :: "config \<Rightarrow> broker \<Rightarrow> broker \<Rightarrow> connector start" where
  "Start cfg zb mb =
     (case NewWithDependencies cfg of
        None \<Rightarrow> StartError
      | Some repository \<Rightarrow>
          StartWithDependencies cfg (MgwFactoryCast (new_mgw mb)) (ZigbeeFactoryCast (new_zigbee zb)) mb repository)"

text \<open>\<^verbatim>\<open>main\<close> up to the point where it waits for the end of its context.\<close>

definition main_start ::
    "(string \<Rightarrow> string option) \<Rightarrow> (string \<Rightarrow> string) \<Rightarrow> string \<Rightarrow> broker \<Rightarrow> broker \<Rightarrow> connector start" where
  "main_start open_file getenv configLocation zb mb =
     (case Load open_file getenv configLocation of
        LoadError cfg \<Rightarrow> StartError
      | LoadPanic \<Rightarrow> StartPanic
      | Loaded cfg \<Rightarrow> Start cfg zb mb)"

subsection \<open>When the start succeeds\<close>

text \<open>A cast changes the type of the result only.\<close>

lemma FMap4_identity: "FMap4 f (\<lambda>x. x) a b c d = f a b c d"
  by (simp add: FMap4_def split: start.split)

lemma factory_casts [simp]:
  "ZigbeeFactoryCast (new_zigbee zb) () () cfg () = z_New cfg zb"
  "MgwFactoryCast (new_mgw mb) () () cfg n =
     (case mgw_New (ConnectorId cfg) mb n of None \<Rightarrow> StartError | Some m \<Rightarrow> Started m)"
  by (simp_all add: ZigbeeFactoryCast_def MgwFactoryCast_def FMap4_identity new_zigbee_def new_mgw_def)

lemma getDeviceAttributes_None:
  "getDeviceAttributes cfg = None \<longleftrightarrow>
     TrimSpace (LastMessageMaxAge cfg) \<noteq> [] \<and> ParseDuration (TrimSpace (LastMessageMaxAge cfg)) = None"
  by (auto simp: getDeviceAttributes_def split: option.split)

lemma NewWithDependencies_None:
  "NewWithDependencies cfg = None \<longleftrightarrow>
     ParseDuration (MinCacheDuration cfg) = None \<or> ParseDuration (MaxCacheDuration cfg) = None"
  by (auto simp: NewWithDependencies_def split: option.split)

lemma reliable_constructors:
  "z_New cfg reliable = (case startEventRefreshLoop cfg of
     Started p \<Rightarrow> Started (new_zclient\<lparr>ztrace := [(Connect None, None)]\<rparr>, p) | StartError \<Rightarrow> StartError | StartPanic \<Rightarrow> StartPanic)"
  "\<exists>m. mgw_New i reliable n = Some m" "fst (ListenToCommands reliable m) = None"
  by (auto simp: z_New_def mgw_New_def ListenToCommands_def subscribe_checked_def mgw_connected_def mgw_act_def
      ask_def reliable_def new_zclient_def split: start.split)

lemma StartWithDependencies_acks:
  assumes "StartWithDependencies cfg mf zf b r = Started c"
  shows "acks c = None \<or> (\<exists>t > 0. acks c = Some (newAckRegistry t))"
  using assms by (auto simp: StartWithDependencies_def new_acks_def
      split: option.splits sum.splits start.splits prod.splits if_splits)

lemma Start_acks: "Start cfg zb mb = Started c \<Longrightarrow> acks c = None \<or> (\<exists>t > 0. acks c = Some (newAckRegistry t))"
  by (auto simp: Start_def dest: StartWithDependencies_acks split: option.splits)

end
