(* ===== verification/RepoSections.thy ===== *)
theory RepoSections
  imports DeviceRepo "HOL-Library.Sublist"
begin

section \<open>The repository cache between two goroutines\<close>

text \<open>
  The event loop and the device loop use the cache at the same time. Its methods are cut into
  sections here, one for each critical section of \<^verbatim>\<open>knownMux\<close> or \<^verbatim>\<open>dtMux\<close> and each access or call
  outside of them; another goroutine may come in between two sections. A method is a sequence of
  sections that ends with its result. Run without interference it is the method of \<open>DeviceRepo\<close>.
\<close>

datatype 'a sections =
    Done 'a
  | Section "repo \<Rightarrow> repo" "repo \<Rightarrow> 'a sections"

text \<open>\<open>Section u n\<close> replaces the cache \<open>r\<close> by \<open>u r\<close> and goes on with \<open>n r\<close>.\<close>

primrec run_alone :: "'a sections \<Rightarrow> repo \<Rightarrow> 'a \<times> repo" where
  "run_alone (Done x) r = (x, r)"
| "run_alone (Section u n) r = run_alone (n r) (u r)"

primrec and_then :: "'a sections \<Rightarrow> ('a \<Rightarrow> 'b sections) \<Rightarrow> 'b sections" where
  "and_then (Done x) k = k x"
| "and_then (Section u n) k = Section u (\<lambda>r. and_then (n r) k)"

definition atomically :: "(repo \<Rightarrow> 'a \<times> repo) \<Rightarrow> 'a sections" where
  "atomically f = Section (\<lambda>r. snd (f r)) (\<lambda>r. Done (fst (f r)))"

lemma run_and_then: "run_alone (and_then p k) r = (case run_alone p r of (x, r') \<Rightarrow> run_alone (k x) r')"
  by (induction p arbitrary: r) simp_all

lemma run_atomically [simp]: "run_alone (atomically f) r = f r"
  by (simp add: atomically_def)

subsection \<open>The methods\<close>

definition list_devices_with ::
    "remote \<Rightarrow> string \<Rightarrow> string \<Rightarrow> repo \<Rightarrow> (goerr + string option) \<times> repo" where
  "list_devices_with R token deviceId r =
     (case list_devices R (rtrace r) token deviceId of
        Inl e \<Rightarrow> (Inl (Other e), called (ListDevices token deviceId) r)
      | Inr [] \<Rightarrow> (Inr None, called (ListDevices token deviceId) r)
      | Inr (d # _) \<Rightarrow> (Inr (Some d), called (ListDevices token deviceId) r))"

definition known_sections :: "config \<Rightarrow> remote \<Rightarrow> string \<Rightarrow> (goerr + string option) sections" where
  "known_sections cfg R deviceId =
     and_then (atomically (\<lambda>r. (map_of (deviceDeviceTypeIdCache r) deviceId, r)))
       (\<lambda>known. case known of
          Some dtId \<Rightarrow> Done (Inr (Some dtId))
        | None \<Rightarrow> and_then (atomically (getToken cfg R))
            (\<lambda>token. case token of
               Inl e \<Rightarrow> Done (Inl e)
             | Inr t \<Rightarrow> and_then (atomically (list_devices_with R t deviceId))
                 (\<lambda>found. case found of
                    Inr (Some dtId) \<Rightarrow>
                      and_then (atomically (\<lambda>r. ((), r\<lparr>deviceDeviceTypeIdCache :=
                          mput deviceId dtId (deviceDeviceTypeIdCache r)\<rparr>)))
                        (\<lambda>u. Done (Inr (Some dtId)))
                  | _ \<Rightarrow> Done found)))"

text \<open>\<^verbatim>\<open>time.Since(this.lastDtRefresh)\<close> compared with a duration, outside of the mutex.\<close>

definition older_than :: "remote \<Rightarrow> (repo \<Rightarrow> int) \<Rightarrow> repo \<Rightarrow> bool \<times> repo" where
  "older_than R limit r = (let (t, r1) = now R r in (time_sub t (lastDtRefresh r1) > limit r1, r1))"

definition list_sections :: "config \<Rightarrow> remote \<Rightarrow> (goerr + device_type list) sections" where
  "list_sections cfg R =
     and_then (atomically (older_than R maxCacheDuration))
       (\<lambda>old. and_then (if old then atomically (refreshDeviceTypeList cfg R) else Done None)
          (\<lambda>err. case err of
             Some e \<Rightarrow> Done (Inl e)
           | None \<Rightarrow> and_then (atomically (\<lambda>r. (getDeviceTypeList r, r))) (\<lambda>l. Done (Inr l))))"

definition find_sections ::
    "config \<Rightarrow> remote \<Rightarrow> (device_type list \<Rightarrow> device_type option) \<Rightarrow> string \<Rightarrow> (goerr + device_type) sections" where
  "find_sections cfg R search detail =
     and_then (list_sections cfg R)
       (\<lambda>l. case l of
          Inl e \<Rightarrow> Done (Inl e)
        | Inr dts \<Rightarrow>
            (case search dts of
               Some dt \<Rightarrow> Done (Inr dt)
             | None \<Rightarrow> and_then (atomically (older_than R minCacheDuration))
                 (\<lambda>old. if old then
                    and_then (atomically (refreshDeviceTypeList cfg R))
                      (\<lambda>err. case err of
                         Some e \<Rightarrow> Done (Inl e)
                       | None \<Rightarrow> and_then (list_sections cfg R)
                           (\<lambda>l. case l of
                              Inl e \<Rightarrow> Done (Inl e)
                            | Inr dts' \<Rightarrow> Done (case search dts' of Some dt \<Rightarrow> Inr dt | None \<Rightarrow> Inl (NoMatch detail))))
                  else Done (Inl (NoMatch detail)))))"

definition type_sections :: "config \<Rightarrow> remote \<Rightarrow> string \<Rightarrow> (goerr + device_type) sections" where
  "type_sections cfg R dtId = find_sections cfg R (getDeviceTypeById dtId) ('': id='' @ dtId)"

definition device_type_sections :: "config \<Rightarrow> remote \<Rightarrow> device_info \<Rightarrow> (goerr + device_type) sections" where
  "device_type_sections cfg R device = find_sections cfg R (getMatchingDeviceType device) (device_detail device)"

definition device_type_id_sections :: "config \<Rightarrow> remote \<Rightarrow> device_info \<Rightarrow> (goerr + string) sections" where
  "device_type_id_sections cfg R device =
     and_then (device_type_sections cfg R device)
       (\<lambda>x. Done (case x of Inl e \<Rightarrow> Inl e | Inr dt \<Rightarrow> Inr (Id dt)))"

text \<open>\<^verbatim>\<open>CreateDeviceTypeWithDistinctAttributes\<close> holds \<^verbatim>\<open>dtMux\<close> from its beginning to its end.\<close>

definition create_sections ::
    "config \<Rightarrow> remote \<Rightarrow> models_device_type \<Rightarrow> string list \<Rightarrow> ((goerr \<times> int) + (models_device_type \<times> int)) sections" where
  "create_sections cfg R dt keys = atomically (CreateDeviceTypeWithDistinctAttributes cfg R dt keys)"

subsection \<open>Without interference\<close>

lemma run_known: "run_alone (known_sections cfg R i) r = GetKnownDeviceDeviceTypeId cfg R i r"
  by (auto simp: known_sections_def run_and_then GetKnownDeviceDeviceTypeId_def getDeviceFromRepo_def
      list_devices_with_def split: prod.split sum.split option.split list.split)

lemma run_list: "run_alone (list_sections cfg R) r = ListZigbeeDeviceTypes cfg R r"
  by (auto simp: list_sections_def run_and_then ListZigbeeDeviceTypes_def older_than_def now_def
      split: prod.split option.split)

lemma run_find: "run_alone (find_sections cfg R search det) r = find_reloading cfg R search det r"
  by (auto simp: find_sections_def run_and_then run_list find_reloading_def older_than_def now_def Let_def
      split: prod.split sum.split option.split)

lemma run_types:
  "run_alone (type_sections cfg R i) r = GetDeviceType cfg R i r"
  "run_alone (device_type_sections cfg R d) r = FindDeviceType cfg R d r"
  "run_alone (device_type_id_sections cfg R d) r = FindDeviceTypeId cfg R d r"
  "run_alone (create_sections cfg R dt ks) r = CreateDeviceTypeWithDistinctAttributes cfg R dt ks r"
  by (simp_all add: type_sections_def device_type_sections_def device_type_id_sections_def create_sections_def
      run_find run_and_then GetDeviceType_def FindDeviceType_def FindDeviceTypeId_def split: prod.split sum.split)

subsection \<open>What the calls so far amount to\<close>

text \<open>
  The trace of the calls determines the answers. \<open>replay\<close> folds a function over it that sees the
  calls before each call, on which the answer depends.
\<close>

fun replay :: "(repo_trace \<Rightarrow> repo_act \<Rightarrow> 's \<Rightarrow> 's) \<Rightarrow> repo_trace \<Rightarrow> 's \<Rightarrow> repo_trace \<Rightarrow> 's" where
  "replay f past s [] = s"
| "replay f past s (a # tr) = replay f (past @ [a]) (f past a s) tr"

lemma replay_snoc: "replay f past s (tr @ [a]) = f (past @ tr) a (replay f past s tr)"
  by (induction tr arbitrary: past s) simp_all

text \<open>The device types that the platform has created, with the keys of vendor and model.\<close>

definition made :: "remote \<Rightarrow> repo_trace \<Rightarrow> (string \<times> models_device_type) list" where
  "made R = replay (\<lambda>past a l. case a of
       CreateDeviceType t dt keys \<Rightarrow>
         (case Do (decode_type R) (create_type R past t dt keys) of
            Inl e \<Rightarrow> l
          | Inr (result, code) \<Rightarrow> l @ [(getDtVendorModelKey dt, result)])
     | _ \<Rightarrow> l) [] []"

text \<open>A type may have been created after the list was last read.\<close>

definition unlisted :: "remote \<Rightarrow> repo_trace \<Rightarrow> bool" where
  "unlisted R = replay (\<lambda>past a b. case a of
       CreateDeviceType t dt keys \<Rightarrow> True
     | ListDeviceTypes t \<Rightarrow> (case list_device_types R past t of Inl e \<Rightarrow> b | Inr l \<Rightarrow> False)
     | _ \<Rightarrow> b) [] False"

text \<open>The list as it was last read.\<close>

definition last_list :: "remote \<Rightarrow> repo_trace \<Rightarrow> device_type list" where
  "last_list R = replay (\<lambda>past a l. case a of
       ListDeviceTypes t \<Rightarrow> (case list_device_types R past t of Inl e \<Rightarrow> l | Inr l' \<Rightarrow> map view_device_type l')
     | _ \<Rightarrow> l) [] []"

text \<open>The types that the platform has named for a device.\<close>

definition told :: "remote \<Rightarrow> string \<Rightarrow> repo_trace \<Rightarrow> string set" where
  "told R i = replay (\<lambda>past a s. case a of
       ListDevices t j \<Rightarrow> (case list_devices R past t j of Inr (d # ds) \<Rightarrow> if j = i then insert d s else s | _ \<Rightarrow> s)
     | _ \<Rightarrow> s) [] {}"

lemmas replays = made_def unlisted_def last_list_def told_def

lemma replays_Nil [simp]: "made R [] = []" "\<not> unlisted R []" "last_list R [] = []" "told R i [] = {}"
  by (simp_all add: replays)

lemma replays_snoc [simp]:
  "made R (tr @ [Now]) = made R tr" "made R (tr @ [Token]) = made R tr"
  "made R (tr @ [ListDevices t i]) = made R tr" "made R (tr @ [ListDeviceTypes t]) = made R tr"
  "made R (tr @ [CreateDeviceType t dt keys]) = made R tr @
     (case Do (decode_type R) (create_type R tr t dt keys) of Inl e \<Rightarrow> [] | Inr (x, code) \<Rightarrow> [(getDtVendorModelKey dt, x)])"
  "unlisted R (tr @ [Now]) = unlisted R tr" "unlisted R (tr @ [Token]) = unlisted R tr"
  "unlisted R (tr @ [ListDevices t i]) = unlisted R tr" "unlisted R (tr @ [CreateDeviceType t dt keys])"
  "unlisted R (tr @ [ListDeviceTypes t]) = (case list_device_types R tr t of Inl e \<Rightarrow> unlisted R tr | Inr l \<Rightarrow> False)"
  "last_list R (tr @ [Now]) = last_list R tr" "last_list R (tr @ [Token]) = last_list R tr"
  "last_list R (tr @ [ListDevices t i]) = last_list R tr" "last_list R (tr @ [CreateDeviceType t dt keys]) = last_list R tr"
  "last_list R (tr @ [ListDeviceTypes t]) =
     (case list_device_types R tr t of Inl e \<Rightarrow> last_list R tr | Inr l \<Rightarrow> map view_device_type l)"
  "told R j (tr @ [Now]) = told R j tr" "told R j (tr @ [Token]) = told R j tr"
  "told R j (tr @ [ListDeviceTypes t]) = told R j tr" "told R j (tr @ [CreateDeviceType t dt keys]) = told R j tr"
  "told R j (tr @ [ListDevices t i]) = (case list_devices R tr t i of
     Inr (d # ds) \<Rightarrow> if i = j then insert d (told R j tr) else told R j tr | _ \<Rightarrow> told R j tr)"
  by (simp_all add: replays replay_snoc split: sum.split prod.split list.split)

lemma told_mono: "prefix tr tr' \<Longrightarrow> told R i tr \<subseteq> told R i tr'"
proof (induction tr' rule: rev_induct)
  case (snoc a tr')
  have "told R i tr' \<subseteq> told R i (tr' @ [a])"
    by (cases a) (auto split: sum.split list.split)
  with snoc show ?case by (auto simp: prefix_snoc)
qed simp

subsection \<open>What holds between two sections\<close>

text \<open>
  The created types are known, each key is created once; the list is the one last read, and if a
  type was created since then it counts as outdated; what is cached of a device was said of it.
\<close>

definition repo_inv :: "remote \<Rightarrow> repo \<Rightarrow> bool" where
  "repo_inv R r \<longleftrightarrow> distinct (map fst (made R (rtrace r)))
     \<and> map_of (createdDt r) = map_of (made R (rtrace r))
     \<and> deviceTypes r = last_list R (rtrace r)
     \<and> (unlisted R (rtrace r) \<longrightarrow> lastDtRefresh r = zero_time)
     \<and> (\<forall>i dtId. map_of (deviceDeviceTypeIdCache r) i = Some dtId \<longrightarrow> dtId \<in> told R i (rtrace r))"

text \<open>
  A method is safe from a trace on if each of its sections keeps the invariant and only adds
  calls, whatever other goroutines have done before it that keeps the invariant and adds calls;
  \<open>Q\<close> holds of its result.
\<close>

primrec safe :: "remote \<Rightarrow> 'a sections \<Rightarrow> repo_trace \<Rightarrow> ('a \<Rightarrow> repo_trace \<Rightarrow> bool) \<Rightarrow> bool" where
  "safe R (Done x) tr Q = Q x tr"
| "safe R (Section u n) tr Q = (\<forall>r. prefix tr (rtrace r) \<longrightarrow> repo_inv R r \<longrightarrow>
     repo_inv R (u r) \<and> prefix (rtrace r) (rtrace (u r)) \<and> safe R (n r) (rtrace (u r)) Q)"

lemma safe_and_then:
  "safe R p tr Q \<Longrightarrow> (\<And>x tr'. prefix tr tr' \<Longrightarrow> Q x tr' \<Longrightarrow> safe R (k x) tr' Q') \<Longrightarrow> safe R (and_then p k) tr Q'"
proof (induction p arbitrary: tr)
  case (Section u n)
  show ?case unfolding and_then.simps safe.simps(2)
  proof (intro allI impI)
    fix r
    assume r: "prefix tr (rtrace r)" "repo_inv R r"
    with Section.prems(1) have s: "repo_inv R (u r)" "prefix (rtrace r) (rtrace (u r))" "safe R (n r) (rtrace (u r)) Q"
      by auto
    then have "safe R (and_then (n r) k) (rtrace (u r)) Q'"
      using Section.IH [of "n r"] Section.prems(2) r(1) by (meson prefix_order.trans rangeI)
    with s show "repo_inv R (u r) \<and> prefix (rtrace r) (rtrace (u r)) \<and> safe R (and_then (n r) k) (rtrace (u r)) Q'"
      by simp
  qed
qed simp

lemma safe_atomically:
  assumes "\<And>r x r'. prefix tr (rtrace r) \<Longrightarrow> repo_inv R r \<Longrightarrow> f r = (x, r') \<Longrightarrow>
     repo_inv R r' \<and> prefix (rtrace r) (rtrace r') \<and> Q x (rtrace r')"
  shows "safe R (atomically f) tr Q"
  using assms by (auto simp: atomically_def) (metis prod.collapse)+

text \<open>A method of the other goroutine cannot make one unsafe that has begun.\<close>

lemma safe_later: "safe R (Section u n) tr Q \<Longrightarrow> prefix tr tr' \<Longrightarrow> safe R (Section u n) tr' Q"
  by (auto intro: prefix_order.trans)

subsection \<open>The sections are safe\<close>

lemma repo_inv_token:
  assumes "getToken cfg R r = (x, r')" and "repo_inv R r"
  shows "repo_inv R r' \<and> prefix (rtrace r) (rtrace r') \<and> lastDtRefresh r' = lastDtRefresh r
    \<and> createdDt r' = createdDt r \<and> deviceTypes r' = deviceTypes r"
  using assms by (cases rule: getToken_cases [of cfg R r]) (auto simp: repo_inv_def)

lemma repo_inv_now [simp]: "repo_inv R (called Now r) = repo_inv R r"
  by (simp add: repo_inv_def)

lemma safe_older_than: "safe R (atomically (older_than R limit)) tr (\<lambda>_ _. True)"
  by (rule safe_atomically) (auto simp: older_than_def now_def Let_def)

lemma safe_token: "safe R (atomically (getToken cfg R)) tr (\<lambda>_ _. True)"
  by (rule safe_atomically) (use repo_inv_token in blast)

lemma repo_inv_refresh:
  assumes "refreshDeviceTypeList cfg R r = (x, r')" and "repo_inv R r"
  shows "repo_inv R r' \<and> prefix (rtrace r) (rtrace r')"
proof -
  obtain y r1 where t: "getToken cfg R r = (y, r1)" by fastforce
  note i = repo_inv_token [OF t assms(2)]
  show ?thesis
  proof (cases y)
    case (Inr token)
    have inv: "repo_inv R r1" using i by simp
    have "repo_inv R r' \<and> prefix (rtrace r1) (rtrace r')"
    proof (cases "list_device_types R (rtrace r1) token")
      case (Inl e)
      then have "r' = called (ListDeviceTypes token) r1"
        using assms(1) t Inr by (simp add: refreshDeviceTypeList_def getDeviceTypeListFromPlatform_def)
      with inv Inl show ?thesis by (simp add: repo_inv_def)
    next
      case (Inr l)
      let ?r2 = "called (ListDeviceTypes token) r1"
      have "r' = called Now (?r2\<lparr>deviceTypes := map view_device_type l, lastDtRefresh := clock R (rtrace ?r2)\<rparr>)"
        using assms(1) t \<open>y = Inr token\<close> Inr
        by (auto simp: refreshDeviceTypeList_def getDeviceTypeListFromPlatform_def now_def Let_def called_def)
      moreover have "repo_inv R (?r2\<lparr>deviceTypes := map view_device_type l, lastDtRefresh := clock R (rtrace ?r2)\<rparr>)"
        using inv Inr by (simp add: repo_inv_def)
      ultimately show ?thesis by simp
    qed
    with i show ?thesis by (auto intro: prefix_order.trans)
  qed (use assms t i in \<open>auto simp: refreshDeviceTypeList_def getDeviceTypeListFromPlatform_def\<close>)
qed

lemma safe_refresh: "safe R (atomically (refreshDeviceTypeList cfg R)) tr (\<lambda>_ _. True)"
  by (rule safe_atomically) (use repo_inv_refresh in blast)

lemma map_of_snoc: "k \<notin> fst ` set xs \<Longrightarrow> map_of (xs @ [(k, v)]) = (map_of xs)(k \<mapsto> v)"
  by (auto simp: fun_eq_iff map_add_def split: option.split dest: map_of_SomeD intro: rev_image_eqI)

lemma repo_inv_create:
  assumes "CreateDeviceTypeWithDistinctAttributes cfg R dt keys r = (x, r')" and "repo_inv R r"
  shows "repo_inv R r' \<and> prefix (rtrace r) (rtrace r')"
proof (cases "map_of (createdDt r) (getDtVendorModelKey dt)")
  case None
  let ?r0 = "r\<lparr>lastDtRefresh := zero_time\<rparr>"
  have r0: "repo_inv R ?r0" using assms(2) by (simp add: repo_inv_def)
  obtain y r1 where t: "getToken cfg R ?r0 = (y, r1)" by fastforce
  note i = repo_inv_token [OF t r0]
  show ?thesis
  proof (cases y)
    case (Inr token)
    have inv: "distinct (map fst (made R (rtrace r1)))" "map_of (createdDt r1) = map_of (made R (rtrace r1))"
      "deviceTypes r1 = last_list R (rtrace r1)"
      "\<forall>i dtId. map_of (deviceDeviceTypeIdCache r1) i = Some dtId \<longrightarrow> dtId \<in> told R i (rtrace r1)"
      using conjunct1 [OF i] by (simp_all add: repo_inv_def)
    have z: "lastDtRefresh r1 = zero_time" using i by simp
    have "createdDt r1 = createdDt r" using i by simp
    with None inv(2) have "map_of (made R (rtrace r1)) (getDtVendorModelKey dt) = None" by metis
    then have new: "getDtVendorModelKey dt \<notin> fst ` set (made R (rtrace r1))" by (rule iffD1 [OF map_of_eq_None_iff])
    let ?r2 = "called (CreateDeviceType token dt keys) r1"
    have "repo_inv R r' \<and> prefix (rtrace r1) (rtrace r')"
    proof (cases "Do (decode_type R) (create_type R (rtrace r1) token dt keys)")
      case (Inl e)
      then have "r' = ?r2"
        using assms(1) t Inr None by (cases e) (simp add: CreateDeviceTypeWithDistinctAttributes_def)
      with inv z Inl show ?thesis by (simp add: repo_inv_def)
    next
      case (Inr res)
      obtain result code where res: "res = (result, code)" by (cases res)
      have r': "r' = ?r2\<lparr>createdDt := mput (getDtVendorModelKey dt) result (createdDt ?r2)\<rparr>"
        using assms(1) t \<open>y = Inr token\<close> None Inr res by (simp add: CreateDeviceTypeWithDistinctAttributes_def)
      have "repo_inv R r'"
        unfolding repo_inv_def r'
      proof (intro conjI)
        show "distinct (map fst (made R (rtrace (?r2\<lparr>createdDt := mput (getDtVendorModelKey dt) result (createdDt ?r2)\<rparr>))))"
          using inv(1) new by (simp add: Inr res)
        show "map_of (createdDt (?r2\<lparr>createdDt := mput (getDtVendorModelKey dt) result (createdDt ?r2)\<rparr>))
          = map_of (made R (rtrace (?r2\<lparr>createdDt := mput (getDtVendorModelKey dt) result (createdDt ?r2)\<rparr>)))"
          using inv(2) map_of_snoc [OF new] by (simp add: Inr res)
      qed (use inv(3,4) z in simp_all)
      then show ?thesis by (simp add: r')
    qed
    with i show ?thesis by (auto intro: prefix_order.trans)
  qed (use assms t i None in \<open>auto simp: CreateDeviceTypeWithDistinctAttributes_def Let_def\<close>)
qed (use assms in \<open>simp add: CreateDeviceTypeWithDistinctAttributes_def Let_def\<close>)

lemma safe_create: "safe R (create_sections cfg R dt keys) tr (\<lambda>_ _. True)"
  unfolding create_sections_def by (rule safe_atomically) (use repo_inv_create in blast)

lemma safe_request:
  "safe R (atomically (list_devices_with R t i)) tr
     (\<lambda>x tr'. \<forall>dtId. x = Inr (Some dtId) \<longrightarrow> dtId \<in> told R i tr')"
  by (rule safe_atomically)
     (auto simp: list_devices_with_def repo_inv_def split: sum.splits list.splits)

lemma safe_known: "safe R (known_sections cfg R i) tr (\<lambda>_ _. True)"
  unfolding known_sections_def
proof (rule safe_and_then [where Q = "\<lambda>_ _. True"])
  show "safe R (atomically (\<lambda>r. (map_of (deviceDeviceTypeIdCache r) i, r))) tr (\<lambda>_ _. True)"
    by (rule safe_atomically) simp
next
  have store: "safe R (atomically (\<lambda>r. ((), r\<lparr>deviceDeviceTypeIdCache := mput i dtId (deviceDeviceTypeIdCache r)\<rparr>))) tr'
      (\<lambda>_ _. True)" if "dtId \<in> told R i tr'" for dtId tr'
    by (rule safe_atomically)
       (use that in \<open>auto simp: repo_inv_def map_of_mput split: if_splits dest: told_mono [THEN subsetD, rotated]\<close>)
  show "safe R (case known of Some dtId \<Rightarrow> Done (Inr (Some dtId))
      | None \<Rightarrow> and_then (atomically (getToken cfg R)) (\<lambda>token. case token of
          Inl e \<Rightarrow> Done (Inl e)
        | Inr t \<Rightarrow> and_then (atomically (list_devices_with R t i)) (\<lambda>found. case found of
            Inr (Some dtId) \<Rightarrow> and_then (atomically (\<lambda>r. ((), r\<lparr>deviceDeviceTypeIdCache :=
              mput i dtId (deviceDeviceTypeIdCache r)\<rparr>))) (\<lambda>u. Done (Inr (Some dtId)))
          | _ \<Rightarrow> Done found))) tr' (\<lambda>_ _. True)" for known tr'
    by (auto split: option.split sum.split intro!: safe_and_then [OF safe_token] safe_and_then [OF safe_request]
        safe_and_then [OF store])
qed

lemma safe_list: "safe R (list_sections cfg R) tr (\<lambda>_ _. True)"
  unfolding list_sections_def
  by (auto split: option.split intro!: safe_and_then [OF safe_older_than] safe_and_then [where Q = "\<lambda>_ _. True"]
      safe_refresh safe_atomically)

lemma safe_find: "safe R (find_sections cfg R search det) tr (\<lambda>_ _. True)"
  unfolding find_sections_def
  by (auto split: option.split sum.split intro!: safe_and_then [OF safe_list] safe_and_then [OF safe_older_than]
      safe_and_then [OF safe_refresh])

lemmas safe_methods = safe_known safe_find safe_create

end
