(* ===== verification/LoopStages.thy ===== *)
theory LoopStages
  imports CommandHandling DeviceHandling EventHandling RepoSections
begin

section \<open>The rounds of the three loops, one effect at a time\<close>

text \<open>
  The handlers of \<^verbatim>\<open>event.go\<close>, \<^verbatim>\<open>device.go\<close> and \<^verbatim>\<open>command.go\<close> cut at the points where another
  goroutine can come in between: a loop is in a stage, and a step does one access to shared
  state; the calls of the repository cache are cut as in \<open>RepoSections\<close>. What is still to be done in a stage is a function of it (\<open>event_rest\<close>, \<open>device_rest\<close>,
  \<open>command_rest\<close>) that no step of the loop changes and that is the handler at the first stage:
  without interference the stages compute the handlers of the components.
\<close>

subsection \<open>Events\<close>

datatype event_stage =
    EvWait
  | EvCheck event_desc
  | EvTypes event_desc "(goerr + string list) sections"
  | EvSend string string "string list"
  | EvEnd

definition event_sections :: "env \<Rightarrow> event_desc \<Rightarrow> (goerr + string list) sections" where
  "event_sections E event =
     (let cfg = conf E; R = platform E; device = ev_Device event in
      and_then
        (and_then (known_sections cfg R (getDeviceId cfg device))
          (\<lambda>known. case known of
             Inr (Some dtId) \<Rightarrow> and_then (type_sections cfg R dtId)
               (\<lambda>x. case x of
                  Inl err \<Rightarrow> if is_no_match err then device_type_sections cfg R device else Done (Inl err)
                | Inr dt \<Rightarrow> Done (Inr dt))
           | _ \<Rightarrow> device_type_sections cfg R device))
        (\<lambda>x. case x of
           Inl err \<Rightarrow> Done (Inl err)
         | Inr dt \<Rightarrow> Done (getServiceIds E dt (ev_Payload event))))"

definition alone :: "'a sections \<Rightarrow> connector \<Rightarrow> 'a \<times> connector" where
  "alone p = with_repo (run_alone p)"

lemma alone_simps [simp]:
  "alone (Done x) c = (x, c)"
  "alone (Section u n) c = alone (n (devicerepo c)) (c\<lparr>devicerepo := u (devicerepo c)\<rparr>)"
  by (simp_all add: alone_def)

lemma alone_and_then: "alone (and_then p k) c = (case alone p c of (x, c1) \<Rightarrow> alone (k x) c1)"
  by (simp add: alone_def run_and_then split: prod.split)

lemma alone_methods:
  "alone (known_sections cfg R i) c = with_repo (GetKnownDeviceDeviceTypeId cfg R i) c"
  "alone (type_sections cfg R i) c = with_repo (GetDeviceType cfg R i) c"
  "alone (device_type_sections cfg R d) c = with_repo (FindDeviceType cfg R d) c"
  "alone (device_type_id_sections cfg R d) c = with_repo (FindDeviceTypeId cfg R d) c"
  "alone (create_sections cfg R dt ks) c = with_repo (CreateDeviceTypeWithDistinctAttributes cfg R dt ks) c"
  by (simp_all add: alone_def run_known run_types)

lemma alone_event: "alone (event_sections E event) c = event_service_ids E event c"
  by (auto simp: event_sections_def event_service_ids_def getEventDeviceType_def alone_and_then alone_methods Let_def
      split: prod.split sum.split option.split simp del: with_simps)

definition send_event :: "env \<Rightarrow> string \<Rightarrow> string \<Rightarrow> string \<Rightarrow> connector \<Rightarrow> connector" where
  "send_event E deviceId pl serviceId c =
     (case c_SendEvent E deviceId serviceId pl c of
        (None, c1) \<Rightarrow> c1
      | (Some err, c1) \<Rightarrow> c_SendDeviceError E deviceId (''unable to send event to mgw: '' @ error_text err) c1)"

fun event_work :: "env \<Rightarrow> event_stage \<Rightarrow> connector \<Rightarrow> event_stage \<times> connector" where
  "event_work E (EvCheck event) c =
     (if eventIsAllowed event c then EvTypes event (event_sections E event) else EvWait, c)"
| "event_work E (EvTypes event (Section u n)) c =
     (EvTypes event (n (devicerepo c)), c\<lparr>devicerepo := u (devicerepo c)\<rparr>)"
| "event_work E (EvTypes event (Done (Inl err))) c =
     (EvWait, c_SendDeviceError E (getDeviceId (conf E) (ev_Device event))
        (''unable to get event service id: '' @ error_text err) c)"
| "event_work E (EvTypes event (Done (Inr ids))) c =
     (EvSend (getDeviceId (conf E) (ev_Device event)) (ev_Payload event) ids, c)"
| "event_work E (EvSend deviceId pl (serviceId # ids)) c =
     (EvSend deviceId pl ids, send_event E deviceId pl serviceId c)"
| "event_work E (EvSend deviceId pl []) c = (EvWait, c)"
| "event_work E EvWait c = (EvWait, c)"
| "event_work E EvEnd c = (EvEnd, c)"

fun event_rest :: "env \<Rightarrow> event_stage \<Rightarrow> connector \<Rightarrow> connector" where
  "event_rest E (EvCheck event) c = handleEvent E event c"
| "event_rest E (EvTypes event p) c =
     (let deviceId = getDeviceId (conf E) (ev_Device event) in
      case alone p c of
        (Inl err, c1) \<Rightarrow>
          c_SendDeviceError E deviceId (''unable to get event service id: '' @ error_text err) c1
      | (Inr ids, c1) \<Rightarrow> send_events E deviceId (ev_Payload event) ids c1)"
| "event_rest E (EvSend deviceId pl ids) c = send_events E deviceId pl ids c"
| "event_rest E EvWait c = c"
| "event_rest E EvEnd c = c"

lemma send_events_step: "send_events E d pl (i # ids) c = send_events E d pl ids (send_event E d pl i c)"
  by (simp add: send_event_def split: prod.split option.split)

lemma event_work_rest:
  assumes "event_work E st c = (st', c')"
  shows "event_rest E st' c' = event_rest E st c"
proof (cases "(E, st, c)" rule: event_work.cases)
  case (1 E event c)
  with assms show ?thesis by (auto simp: handleEvent_def alone_event)
next
  case (5 E d pl i ids c)
  with assms show ?thesis by (auto simp: send_events_step simp del: send_events.simps(2))
qed (use assms in auto)

text \<open>An event loop that runs alone ends its round with the effect of the handler.\<close>

definition event_round :: "env \<Rightarrow> event_stage \<times> connector \<Rightarrow> event_stage \<times> connector \<Rightarrow> bool" where
  "event_round E s s' \<longleftrightarrow> fst s \<notin> {EvWait, EvEnd} \<and> event_work E (fst s) (snd s) = s'"

text \<open>A round has an end, whatever is done to the state of the connector between its stages.\<close>

lemma event_stage_induct [case_names stage]:
  assumes step: "\<And>st. (\<And>c. st \<noteq> EvWait \<Longrightarrow> st \<noteq> EvEnd \<Longrightarrow> P (fst (event_work E st c))) \<Longrightarrow> P st"
  shows "P st"
proof -
  have wait: "P EvWait" and the_end: "P EvEnd" by (rule step; simp)+
  have send: "P (EvSend d pl ids)" for d pl ids
    by (induction ids) (rule step; simp add: wait)+
  have types: "P (EvTypes event p)" for event p
  proof (induction p)
    case (Done x)
    show ?case by (rule step) (cases x; simp add: wait send)
  next
    case (Section u n)
    show ?case by (rule step) (simp add: Section)
  qed
  have "P (EvCheck event)" for event by (rule step) (simp add: wait types)
  with wait the_end send types show ?thesis by (cases st) simp_all
qed

lemma event_work_alive: "event_work E st c = (st', c') \<Longrightarrow> st \<noteq> EvEnd \<Longrightarrow> st' \<noteq> EvEnd"
  by (cases "(E, st, c)" rule: event_work.cases) (auto split: if_splits)

lemma event_round_ends: "st \<noteq> EvEnd \<Longrightarrow> (event_round E)\<^sup>*\<^sup>* (st, c) (EvWait, event_rest E st c)"
proof (induction st arbitrary: c rule: event_stage_induct [of _ E])
  case (stage st)
  show ?case
  proof (cases "st = EvWait")
    case False
    obtain st' c' where w: "event_work E st c = (st', c')" by fastforce
    then have "event_round E (st, c) (st', c')" using False stage.prems by (simp add: event_round_def)
    moreover have "(event_round E)\<^sup>*\<^sup>* (st', c') (EvWait, event_rest E st' c')"
      using stage.IH [OF False stage.prems, of c c'] w event_work_alive [OF w stage.prems] by simp
    ultimately show ?thesis unfolding event_work_rest [OF w] by (rule converse_rtranclp_into_rtranclp)
  qed simp
qed

subsection \<open>Device lists\<close>

text \<open>
  \<^verbatim>\<open>handleDeviceInfoUpdate\<close> reads the type, creates it if there is none, stores the state and
  announces the device. The variables of \<^verbatim>\<open>handleDeviceInfoUpdates\<close> within its loop are a record;
  \<open>todo\<close> are the devices after the one at hand.
\<close>

record device_work =
  todo :: "device_info list"
  was_failing :: "string set"
  w_failed :: "device_info list"
  w_recovered :: "device_info list"
  w_err :: "goerr option"
  w_delay :: int

datatype device_stage =
    DvWait
  | DvList device_work
  | DvType device_info "(goerr + string) sections" device_work
  | DvCreate device_info "((goerr \<times> int) + (models_device_type \<times> int)) sections" device_work
  | DvStore device_info string update_result device_work
  | DvSet device_info string update_result device_work
  | DvEnd

definition type_id_sections :: "env \<Rightarrow> device_info \<Rightarrow> (goerr + string) sections" where
  "type_id_sections E device =
     and_then (known_sections (conf E) (platform E) (getDeviceId (conf E) device))
       (\<lambda>known. case known of
          Inl e \<Rightarrow> Done (Inl e)
        | Inr (Some dtId) \<Rightarrow> Done (Inr dtId)
        | Inr None \<Rightarrow> device_type_id_sections (conf E) (platform E) device)"

definition creation_sections :: "env \<Rightarrow> models_device_type \<Rightarrow> ((goerr \<times> int) + (models_device_type \<times> int)) sections" where
  "creation_sections E dt = create_sections (conf E) (platform E) dt
     [AttributeUsedForZigbee, AttributeZigbeeVendor, AttributeZigbeeModel]"

lemma alone_device:
  "alone (type_id_sections E d) c = getDeviceTypeId E d c"
  "createDeviceType E d c =
     (case zigbeeDeviceToDeviceType (conf E) d of
        None \<Rightarrow> None
      | Some dt \<Rightarrow>
          Some (case alone (creation_sections E dt) c of
                  (Inl (e, code), c') \<Rightarrow> ([], Some e, c')
                | (Inr (result, code), c') \<Rightarrow> (md_Id result, None, c')))"
  by (auto simp: type_id_sections_def getDeviceTypeId_def creation_sections_def createDeviceType_def
      alone_and_then alone_methods split: prod.split sum.split option.split simp del: with_simps)

definition set_device ::
    "env \<Rightarrow> device_info \<Rightarrow> string \<Rightarrow> update_result \<Rightarrow> connector \<Rightarrow> update_result \<times> connector" where
  "set_device E device deviceTypeId result c =
     (case c_SetDevice E (getDeviceId (conf E) device)
             \<lparr>InfoName = getDeviceName device, State = getDeviceState device, DeviceType = deviceTypeId,
              InfoAttributes = deviceAttributes c\<rparr> c of
        (Some e, c1) \<Rightarrow> (WithErr (Some e) result, c1)
      | (None, c1) \<Rightarrow> (result, c1))"

lemma announce_parts:
  "announce E d dtId res c = set_device E d dtId res (storeDeviceState (IeeeAddress d) (getDeviceState d) c)"
  by (simp add: announce_def set_device_def Let_def)

definition begin_round :: "loop_event \<Rightarrow> device_loop \<Rightarrow> device_work" where
  "begin_round ev L =
     (case ev of
        NewList devices \<Rightarrow> \<lparr>todo = devices, was_failing = set (map IeeeAddress (failed L)), w_failed = [],
          w_recovered = [], w_err = None, w_delay = deviceRetryMinDelay\<rparr>
      | RetryTimer \<Rightarrow> \<lparr>todo = failed L, was_failing = set (map IeeeAddress (failed L)), w_failed = [],
          w_recovered = [], w_err = None, w_delay = min (2 * delay L) deviceRetryMaxDelay\<rparr>)"

definition end_round :: "device_work \<Rightarrow> device_loop \<Rightarrow> device_loop" where
  "end_round w L = \<lparr>failed = w_failed w, retry = (if w_failed w \<noteq> [] then Some (w_delay w) else None),
     delay = w_delay w,
     refreshing = refreshing L @ (if w_recovered w \<noteq> [] then [w_recovered w] else [])\<rparr>"

text \<open>The end of the loop's body, with the result of the device.\<close>

definition record_result :: "device_info \<Rightarrow> update_result \<Rightarrow> device_work \<Rightarrow> device_work" where
  "record_result device result w =
     (if Retry result then w\<lparr>w_failed := w_failed w @ [device], w_err := Err result\<rparr>
      else if Err result = None \<and> IeeeAddress device \<in> was_failing w \<and> \<not> Disabled device then
        w\<lparr>w_recovered := w_recovered w @ [device]\<rparr>
      else w)"

text \<open>
  The type has been looked up, and the type has been created: how the handler goes on. \<open>None\<close> is
  a panic, as in the handler.
\<close>

definition type_looked_up ::
    "env \<Rightarrow> device_info \<Rightarrow> goerr + string \<Rightarrow> device_work \<Rightarrow> connector \<Rightarrow> (device_stage \<times> connector) option" where
  "type_looked_up E device x w c =
     (case x of
        Inr deviceTypeId \<Rightarrow> Some (DvStore device deviceTypeId no_result w, c)
      | Inl err \<Rightarrow>
          if is_no_match err then
            (if CreateMissingDeviceTypes (conf E) then
               map_option (\<lambda>dt. (DvCreate device (creation_sections E dt) w, c))
                 (zigbeeDeviceToDeviceType (conf E) device)
             else Some (DvList (record_result device (WithErr (Some err) no_result) w),
                    c_SendClientError E (GetMissingDeviceTypeMessage E device) c))
          else Some (DvList (record_result device (WithErr (Some err) (no_result\<lparr>Retry := True\<rparr>)) w), c))"

definition type_created ::
    "device_info \<Rightarrow> (goerr \<times> int) + (models_device_type \<times> int) \<Rightarrow> device_work \<Rightarrow> device_stage" where
  "type_created device x w =
     (case x of
        Inl (e, code) \<Rightarrow> DvList (record_result device (WithErr (Some e) (WithNewDeviceType [] no_result)) w)
      | Inr (result, code) \<Rightarrow> DvStore device (md_Id result) (WithNewDeviceType (md_Id result) no_result) w)"

fun device_step ::
    "env \<Rightarrow> device_stage \<Rightarrow> device_loop \<Rightarrow> connector \<Rightarrow> (device_stage \<times> device_loop \<times> connector) option" where
  "device_step E (DvList w) L c =
     (case todo w of
        [] \<Rightarrow> Some (DvWait, end_round w L, c)
      | device # ds \<Rightarrow>
          (let w1 = w\<lparr>todo := ds\<rparr> in
           Some (if isValidDevice device then DvType device (type_id_sections E device) w1
                 else DvList (record_result device no_result w1), L, c)))"
| "device_step E (DvType device (Section u n) w) L c =
     Some (DvType device (n (devicerepo c)) w, L, c\<lparr>devicerepo := u (devicerepo c)\<rparr>)"
| "device_step E (DvType device (Done x) w) L c =
     map_option (\<lambda>(st, c1). (st, L, c1)) (type_looked_up E device x w c)"
| "device_step E (DvCreate device (Section u n) w) L c =
     Some (DvCreate device (n (devicerepo c)) w, L, c\<lparr>devicerepo := u (devicerepo c)\<rparr>)"
| "device_step E (DvCreate device (Done x) w) L c = Some (type_created device x w, L, c)"
| "device_step E (DvStore device dtId result w) L c =
     Some (DvSet device dtId result w, L, storeDeviceState (IeeeAddress device) (getDeviceState device) c)"
| "device_step E (DvSet device dtId result w) L c =
     (case set_device E device dtId result c of
        (result', c1) \<Rightarrow> Some (DvList (record_result device result' w), L, c1))"
| "device_step E DvWait L c = Some (DvWait, L, c)"
| "device_step E DvEnd L c = Some (DvEnd, L, c)"

definition list_rest :: "env \<Rightarrow> device_work \<Rightarrow> device_loop \<Rightarrow> connector \<Rightarrow> (device_loop \<times> connector) option" where
  "list_rest E w L c =
     (case updates_loop E (was_failing w) (todo w) (w_failed w) (w_recovered w) (w_err w) c of
        None \<Rightarrow> None
      | Some (fs, rs, err, c') \<Rightarrow>
          Some (end_round (w\<lparr>todo := [], w_failed := fs, w_recovered := rs, w_err := err\<rparr>) L, c'))"

text \<open>What is left of the round from a stage on; from the inside of a call, that call comes first.\<close>

fun stage_rest :: "env \<Rightarrow> device_stage \<Rightarrow> device_loop \<Rightarrow> connector \<Rightarrow> (device_loop \<times> connector) option" where
  "stage_rest E (DvList w) L c = list_rest E w L c"
| "stage_rest E (DvStore device dtId result w) L c =
     (case announce E device dtId result c of (result', c1) \<Rightarrow> list_rest E (record_result device result' w) L c1)"
| "stage_rest E (DvSet device dtId result w) L c =
     (case set_device E device dtId result c of (result', c1) \<Rightarrow> list_rest E (record_result device result' w) L c1)"
| "stage_rest E st L c = Some (L, c)"

fun creation_rest :: "env \<Rightarrow> device_stage \<Rightarrow> device_loop \<Rightarrow> connector \<Rightarrow> (device_loop \<times> connector) option" where
  "creation_rest E (DvCreate device p w) L c =
     (case alone p c of (x, c1) \<Rightarrow> stage_rest E (type_created device x w) L c1)"
| "creation_rest E st L c = stage_rest E st L c"

fun device_rest :: "env \<Rightarrow> device_stage \<Rightarrow> device_loop \<Rightarrow> connector \<Rightarrow> (device_loop \<times> connector) option" where
  "device_rest E (DvType device p w) L c =
     (case alone p c of (x, c1) \<Rightarrow>
        (case type_looked_up E device x w c1 of
           None \<Rightarrow> None
         | Some (st, c2) \<Rightarrow> creation_rest E st L c2))"
| "device_rest E st L c = creation_rest E st L c"

lemma record_result_fields [simp]:
  "todo (record_result d res w) = todo w" "was_failing (record_result d res w) = was_failing w"
  "w_delay (record_result d res w) = w_delay w"
  by (simp_all add: record_result_def)

lemma end_round_todo [simp]: "end_round (w\<lparr>todo := ds\<rparr>) L = end_round w L"
  by (simp add: end_round_def)

lemma end_round_result [simp]:
  "end_round (record_result d res w\<lparr>w_failed := fs, w_recovered := rs, w_err := err\<rparr>) L
     = end_round (w\<lparr>w_failed := fs, w_recovered := rs, w_err := err\<rparr>) L"
  by (simp add: end_round_def)

lemma list_rest_Nil: "todo w = [] \<Longrightarrow> list_rest E w L c = Some (end_round w L, c)"
  by (simp add: list_rest_def end_round_def)

lemma list_rest_Cons:
  assumes "todo w = d # ds"
  shows "list_rest E w L c =
     (case handleDeviceInfoUpdate E d c of
        None \<Rightarrow> None
      | Some (res, c1) \<Rightarrow> list_rest E (record_result d res (w\<lparr>todo := ds\<rparr>)) L c1)"
  using assms
  by (auto simp: list_rest_def record_result_def end_round_def split: option.split prod.split)

text \<open>The stages of one device are the handler.\<close>

lemma list_rest_parts:
  assumes "todo w = d # ds" and "isValidDevice d"
  shows "list_rest E w L c = device_rest E (DvType d (type_id_sections E d) (w\<lparr>todo := ds\<rparr>)) L c"
proof -
  obtain x c1 where t: "getDeviceTypeId E d c = (x, c1)" by fastforce
  show ?thesis
    unfolding list_rest_Cons [OF assms(1)] device_rest.simps alone_device(1) t prod.case
    using assms(2) t
    by (auto simp: handleDeviceInfoUpdate_def handle_no_type_def type_looked_up_def type_created_def alone_device(2)
        split: sum.split option.split prod.split)
qed

lemma list_rest_invalid:
  assumes "todo w = d # ds" and "\<not> isValidDevice d"
  shows "list_rest E w L c = list_rest E (record_result d no_result (w\<lparr>todo := ds\<rparr>)) L c"
  using assms by (simp add: list_rest_Cons handleDeviceInfoUpdate_def)

lemma device_rest_simple [simp]:
  "device_rest E (type_created d x w) L c = stage_rest E (type_created d x w) L c"
  by (simp add: type_created_def split: sum.split prod.split)

lemma looked_up_rest:
  "type_looked_up E d x w c = Some (st, c1) \<Longrightarrow> device_rest E st L c1 = creation_rest E st L c1"
  by (auto simp: type_looked_up_def split: sum.splits if_splits option.splits)

lemma device_step_rest:
  "device_step E st L c = Some (st', L', c') \<Longrightarrow> device_rest E st' L' c' = device_rest E st L c"
  "device_step E st L c = None \<Longrightarrow> device_rest E st L c = None"
proof -
  have "case device_step E st L c of
      None \<Rightarrow> device_rest E st L c = None
    | Some (st', L', c') \<Rightarrow> device_rest E st' L' c' = device_rest E st L c"
  proof (cases "(E, st, L, c)" rule: device_step.cases)
    case (1 E w L c)
    show ?thesis
    proof (cases "todo w")
      case Nil
      with 1 show ?thesis by (simp add: list_rest_Nil)
    next
      case (Cons d ds)
      with 1 list_rest_parts [OF Cons] list_rest_invalid [OF Cons] show ?thesis
        by (cases "isValidDevice d") (simp_all add: Let_def del: device_rest.simps(1))
    qed
  next
    case (3 E d x w L c)
    then show ?thesis using looked_up_rest [of E d x w c _ _ L] by (auto split: option.split)
  qed (auto simp: announce_parts split: prod.split)
  then show "device_step E st L c = Some (st', L', c') \<Longrightarrow> device_rest E st' L' c' = device_rest E st L c"
    "device_step E st L c = None \<Longrightarrow> device_rest E st L c = None" by simp_all
qed

text \<open>From the first stage on this is the round of the device loop.\<close>

lemma round_rest: "device_rest E (DvList (begin_round ev L)) L c = loop_step E ev (L, c)"
  by (cases ev) (simp_all add: list_rest_def begin_round_def end_round_def loop_step_def loop_handle_def
      handleDeviceInfoUpdates_def split: option.split prod.split)

text \<open>A device loop that runs alone, with a list on which the handler does not panic.\<close>

definition device_round :: "env \<Rightarrow> device_stage \<times> device_loop \<times> connector \<Rightarrow>
    device_stage \<times> device_loop \<times> connector \<Rightarrow> bool" where
  "device_round E s s' \<longleftrightarrow> fst s \<notin> {DvWait, DvEnd} \<and> device_step E (fst s) (fst (snd s)) (snd (snd s)) = Some s'"

text \<open>A round has an end, whatever is done to the state of the connector between its stages.\<close>

lemma device_stage_induct [case_names stage]:
  assumes step: "\<And>st. (\<And>L c st' L' c'. st \<noteq> DvWait \<Longrightarrow> st \<noteq> DvEnd \<Longrightarrow> device_step E st L c = Some (st', L', c') \<Longrightarrow> P st') \<Longrightarrow> P st"
  shows "P st"
proof -
  have wait: "P DvWait" and the_end: "P DvEnd" by (rule step; simp)+
  have device: "P (DvSet d i res w)" "P (DvStore d i res w)" "P (DvCreate d q w)" "P (DvType d p w)"
    if list: "\<And>w'. todo w' = todo w \<Longrightarrow> P (DvList w')" for w d i res p q
  proof -
    show set: "P (DvSet d i res w)" for i res
      by (rule step) (auto intro: list split: prod.splits)
    show store: "P (DvStore d i res w)" for i res
      by (rule step) (auto intro: set)
    show create: "P (DvCreate d q w)" for q
    proof (induction q)
      case (Done x)
      have "P (type_created d x w)"
        by (auto simp: type_created_def intro: list store split: sum.split)
      then show ?case by - (rule step, auto)
    next
      case (Section u n)
      then show ?case by - (rule step, auto)
    qed
    show "P (DvType d p w)"
    proof (induction p)
      case (Done x)
      have "P st" if "type_looked_up E d x w c = Some (st, c1)" for st c c1
        using that by (auto simp: type_looked_up_def intro: list store create split: sum.splits if_splits)
      then show ?case by - (rule step, auto)
    next
      case (Section u n)
      then show ?case by - (rule step, auto)
    qed
  qed
  have list: "P (DvList w)" for w
  proof (induction "length (todo w)" arbitrary: w)
    case 0
    then show ?case by - (rule step, auto simp: wait)
  next
    case (Suc n)
    then obtain d ds where todo: "todo w = d # ds" "n = length ds" by (cases "todo w") auto
    have "P (DvList w')" if "todo w' = ds" for w' using Suc(1) that todo(2) by simp
    with todo device(4) show ?case by - (rule step, auto simp: Let_def split: if_splits)
  qed
  with wait the_end device [OF list] show ?thesis by (cases st) auto
qed

text \<open>The end of a round is the result of the handler, or its panic.\<close>

definition round_panics :: "env \<Rightarrow> device_stage \<times> device_loop \<times> connector \<Rightarrow> bool" where
  "round_panics E s \<longleftrightarrow> fst s \<notin> {DvWait, DvEnd} \<and> device_step E (fst s) (fst (snd s)) (snd (snd s)) = None"

definition ends :: "env \<Rightarrow> device_stage \<Rightarrow> bool" where
  "ends E st \<longleftrightarrow> (\<forall>L c. case device_rest E st L c of
       None \<Rightarrow> (\<exists>s. (device_round E)\<^sup>*\<^sup>* (st, L, c) s \<and> round_panics E s)
     | Some (L', c') \<Rightarrow> (device_round E)\<^sup>*\<^sup>* (st, L, c) (DvWait, L', c'))"

lemma device_step_alive: "device_step E st L c = Some (st', L', c') \<Longrightarrow> st \<noteq> DvEnd \<Longrightarrow> st' \<noteq> DvEnd"
  by (cases "(E, st, L, c)" rule: device_step.cases)
     (auto simp: Let_def type_looked_up_def type_created_def split: list.splits prod.splits sum.splits if_splits)

lemma stages_end: "st \<noteq> DvEnd \<Longrightarrow> ends E st"
proof (induction st rule: device_stage_induct [of E])
  case (stage st)
  show ?case
  proof (cases "st = DvWait")
    case False
    show ?thesis unfolding ends_def
    proof (intro allI)
      fix L c
      show "case device_rest E st L c of
         None \<Rightarrow> (\<exists>s. (device_round E)\<^sup>*\<^sup>* (st, L, c) s \<and> round_panics E s)
       | Some (L', c') \<Rightarrow> (device_round E)\<^sup>*\<^sup>* (st, L, c) (DvWait, L', c')"
      proof (cases "device_step E st L c")
        case None
        then have "round_panics E (st, L, c)" using False stage.prems by (simp add: round_panics_def)
        with device_step_rest(2) [OF None] show ?thesis by auto
      next
        case (Some s1)
        obtain st1 L1 c1 where s1: "s1 = (st1, L1, c1)" by (cases s1)
        note step = Some [unfolded s1]
        have "device_round E (st, L, c) (st1, L1, c1)" using step False stage.prems by (simp add: device_round_def)
        moreover have "case device_rest E st1 L1 c1 of
             None \<Rightarrow> (\<exists>s. (device_round E)\<^sup>*\<^sup>* (st1, L1, c1) s \<and> round_panics E s)
           | Some (L', c') \<Rightarrow> (device_round E)\<^sup>*\<^sup>* (st1, L1, c1) (DvWait, L', c')"
          using stage.IH [OF False stage.prems step device_step_alive [OF step stage.prems]] by (simp add: ends_def)
        ultimately show ?thesis using device_step_rest(1) [OF step]
          by (auto split: option.splits intro: converse_rtranclp_into_rtranclp)
      qed
    qed
  qed (simp add: ends_def)
qed

lemma device_round_ends:
  assumes "st \<noteq> DvEnd" and "device_rest E st L c = Some (L', c')"
  shows "(device_round E)\<^sup>*\<^sup>* (st, L, c) (DvWait, L', c')"
  using assms(2) stages_end [OF assms(1), of E] unfolding ends_def by (auto dest!: spec [of _ L] spec [of _ c])

lemma device_round_panics:
  assumes "device_rest E st L c = None"
  shows "\<exists>s. (device_round E)\<^sup>*\<^sup>* (st, L, c) s \<and> round_panics E s"
proof -
  have "st \<noteq> DvEnd" using assms by auto
  from stages_end [OF this, of E] assms show ?thesis unfolding ends_def by (auto dest!: spec [of _ L] spec [of _ c])
qed

subsection \<open>Requests of values\<close>

text \<open>A goroutine that refreshes the values of devices, alone.\<close>

inductive refresh_round :: "env \<Rightarrow> device_info list \<times> zclient \<Rightarrow> device_info list \<times> zclient \<Rightarrow> bool" for E where
  request: "refresh_one (conf E) (zbroker E) device ds z = s \<Longrightarrow> refresh_round E (device # ds, z) s"

lemma refresh_ends: "(refresh_round E)\<^sup>*\<^sup>* (ds, z) ([], snd (refresh_loop (conf E) (zbroker E) ds z))"
proof (induction "length ds" arbitrary: ds z rule: less_induct)
  case less
  show ?case
  proof (cases ds)
    case (Cons device rest)
    obtain ds' z' where one: "refresh_one (conf E) (zbroker E) device rest z = (ds', z')" by fastforce
    then have "length ds' < length ds"
      using Cons by (auto simp: refresh_one_def split: if_splits prod.splits option.splits)
    from less [OF this, of z'] have "(refresh_round E)\<^sup>*\<^sup>* (ds', z') ([], snd (refresh_loop (conf E) (zbroker E) ds z))"
      unfolding refresh_one_rest [OF one] Cons .
    with request [OF one] show ?thesis unfolding Cons by (rule converse_rtranclp_into_rtranclp)
  qed simp
qed

subsection \<open>Commands\<close>

text \<open>
  A \<^verbatim>\<open>get\<close> and, with acknowledgements, a \<^verbatim>\<open>set\<close> look the device up in the register, and then
  wait for the mutex of the values. \<open>CmdValue\<close> holds what \<^verbatim>\<open>GetByIeee\<close> returned. A \<^verbatim>\<open>set\<close> goes on
  in the protocol of the set commands.
\<close>

datatype command_stage =
    CmdWait
  | CmdLookup command_desc
  | CmdLock command_desc string "feature list" device_info
  | CmdValue command_desc string "feature list" "goerr + string"
  | CmdEnd

definition needs_value :: "env \<Rightarrow> command_desc \<Rightarrow> connector \<Rightarrow> string option" where
  "needs_value E d c =
     (if cd_ServiceId d = ''get'' \<or> cd_ServiceId d = ''set'' \<and> acks c \<noteq> None
      then getDeviceIeeeAddress (conf E) (cd_DeviceId d) else None)"

definition command_lookup :: "command_desc \<Rightarrow> string \<Rightarrow> connector \<Rightarrow> command_stage" where
  "command_lookup d ieee c =
     (let exposes = (if cd_ServiceId d = ''set'' then getExposes ieee c else []) in
      case reg_GetByIeee CtxDeadline (zregister (zigbee c)) ieee of
        Inl e \<Rightarrow> CmdValue d ieee exposes (Inl e)
      | Inr device \<Rightarrow> CmdLock d ieee exposes device)"

text \<open>What is left to do, as the value read and the rest of the handler.\<close>

definition command_value :: "command_stage \<Rightarrow> connector \<Rightarrow> (feature list \<times> (goerr + string)) option" where
  "command_value st c =
     (case st of
        CmdLock d ieee exposes device \<Rightarrow> Some (exposes, z_Get device (zigbee c))
      | CmdValue d ieee exposes v \<Rightarrow> Some (exposes, v)
      | _ \<Rightarrow> None)"

definition command_rest :: "env \<Rightarrow> nat \<Rightarrow> command_desc \<Rightarrow> string \<Rightarrow> feature list \<Rightarrow> goerr + string \<Rightarrow> connector \<Rightarrow> connector" where
  "command_rest E ptr d ieee exposes v c =
     (if cd_ServiceId d = ''set'' then
        (case set_register_with ptr ieee d (ackExpectation (Data (cd_Command d)) exposes (state_of_value v)) c of
           (cancelAck, c1) \<Rightarrow>
             (case set_publish E ieee d c1 of
                (err, c2) \<Rightarrow>
                  (case set_decide d cancelAck err c2 of
                     (None, c3) \<Rightarrow> c3
                   | (Some a, c3) \<Rightarrow> send_answer E a c3)))
      else answer_get E d v c)"

lemma command_lookup_value:
  "command_value (command_lookup d ieee c) c =
     Some (if cd_ServiceId d = ''set'' then getExposes ieee c else [], c_GetByIeee ieee c)"
  by (simp add: command_lookup_def command_value_def c_GetByIeee_def z_GetByIeee_def Let_def split: sum.split)

lemma command_parts:
  assumes "needs_value E d c = Some ieee"
  shows "\<exists>exposes v. command_value (command_lookup d ieee c) c = Some (exposes, v)
     \<and> command_rest E ptr d ieee exposes v c = handleCommand E ptr d c"
proof -
  have "getDeviceIeeeAddress (conf E) (cd_DeviceId d) = Some ieee"
    "cd_ServiceId d = ''get'' \<or> cd_ServiceId d = ''set''"
    using assms by (auto simp: needs_value_def split: if_splits)
  then show ?thesis
    by (auto simp: command_lookup_value command_rest_def handleCommand_def handleSet_def handleGet_def
        set_register_reads getLastState_def)
qed

end
