(* ===== verification/Runtime.thy ===== *)
theory Runtime
  imports Startup LoopStages SetProtocol
begin

section \<open>The running connector\<close>

text \<open>
  All goroutines of the connector on one state: the MQTT callbacks of the two clients, the
  three buffered channels of \<^verbatim>\<open>StartWithDependencies\<close>, the three loops that empty them in the
  stages of \<open>LoopStages\<close>, the background refreshes, the goroutines around set commands, which
  are the component \<open>protocol\<close>, and the shutdown: the end of the context, upon which the loops
  return and the clients disconnect, each leaving the wait group of \<^verbatim>\<open>main\<close>. A step is one
  access to shared state; any order is allowed. A callback that finds a channel full waits:
  its send is not enabled. A callback may go on before the \<^verbatim>\<open>Observe\<close> it has called is done,
  which allows more orders than occur.

  The mutex \<^verbatim>\<open>valueMux\<close> of the zigbee2mqtt client is held by a callback from the store of a
  value until its event is in the channel; \<open>value_mux\<close> is \<open>None\<close> if it is free, and otherwise
  the event its holder is about to send.

  The wait group is one counter in the code. Here \<open>wg\<close> of the protocol is the share of the
  goroutines of the registry and \<open>others\<close> that of all others; \<open>wait_count\<close> is the counter.

  \<open>posted\<close> and \<open>taken\<close> record the commands that entered and left the command channel, \<open>handed\<close>
  and \<open>seen\<close> the events that entered and left the event channel.
\<close>

datatype outcall =
    ObserveState string string
  | StoreValue device_info string
  | PostEvent event_desc
  | PostCommand command_desc
  | PostDevices "device_info list"
  | RefreshAll

record runtime =
  protocol :: sys
  eventbuffer :: "event_desc list"
  commandbuffer :: "command_desc list"
  deviceupdatebuffer :: "device_info list list"
  callbacks :: "outcall list list"
  refreshes :: "device_info list list"
  value_mux :: "event_desc option"
  estage :: event_stage
  cstage :: command_stage
  dstage :: device_stage
  dloop :: device_loop
  cancelled :: bool
  zigbee_up :: bool
  gateway_up :: bool
  others :: int
  posted :: "command_desc list"
  taken :: "command_desc list"
  handed :: "event_desc list"
  seen :: "event_desc list"

definition wait_count :: "runtime \<Rightarrow> int" where
  "wait_count R = wg (protocol R) + others R"

text \<open>What \<^verbatim>\<open>main\<close> does upon a signal: it ends the context.\<close>

definition on_signal :: "runtime \<Rightarrow> runtime" where
  [simp]: "on_signal R = R\<lparr>cancelled := True\<rparr>"

text \<open>\<^verbatim>\<open>main\<close> returns once its context has ended and the wait group is empty.\<close>

definition main_done :: "runtime \<Rightarrow> bool" where
  "main_done R \<longleftrightarrow> cancelled R \<and> wait_count R = 0"

definition buffer_size :: nat where
  "buffer_size = 100"

definition chan_send :: "'a \<Rightarrow> 'a list \<Rightarrow> 'a list option" where
  "chan_send x buf = (if length buf < buffer_size then Some (buf @ [x]) else None)"

text \<open>The calls of a zigbee2mqtt callback; the event of a state follows the store of its value.\<close>

definition outcalls :: "upcall list \<Rightarrow> outcall list" where
  "outcalls ups = concat (map (\<lambda>u. case u of
       StateObserved i p \<Rightarrow> [ObserveState i p]
     | EventReceived d p \<Rightarrow> [StoreValue d p, PostEvent \<lparr>ev_Device = d, ev_Payload = p\<rparr>]
     | DeviceInfoUpdate ds \<Rightarrow> [PostDevices ds]
     | InitialRefresh \<Rightarrow> [RefreshAll]) ups)"

definition put_con :: "connector \<Rightarrow> runtime \<Rightarrow> runtime" where
  "put_con c R = R\<lparr>protocol := (protocol R)\<lparr>con := c\<rparr>\<rparr>"

abbreviation the_con :: "runtime \<Rightarrow> connector" where
  "the_con R \<equiv> con (protocol R)"

text \<open>
  The methods of the connector that the clients call: \<^verbatim>\<open>StateObserved\<close>, and \<^verbatim>\<open>Event\<close>,
  \<^verbatim>\<open>DeviceInfoUpdate\<close> and \<^verbatim>\<open>Command\<close>, each a send on its channel; \<open>None\<close> if the call has to wait.
\<close>

definition state_observed :: "string \<Rightarrow> string \<Rightarrow> runtime \<Rightarrow> runtime" where
  "state_observed ieee pl R = R\<lparr>protocol := (protocol R)
     \<lparr>calls := calls (protocol R) @ (if acks (the_con R) = None then [] else [(ieee, pl)])\<rparr>\<rparr>"

definition put_event :: "event_desc \<Rightarrow> runtime \<Rightarrow> runtime option" where
  "put_event event R = map_option (\<lambda>buf. R\<lparr>eventbuffer := buf, handed := handed R @ [event]\<rparr>)
     (chan_send event (eventbuffer R))"

definition put_devices :: "device_info list \<Rightarrow> runtime \<Rightarrow> runtime option" where
  "put_devices devices R =
     map_option (\<lambda>buf. R\<lparr>deviceupdatebuffer := buf\<rparr>) (chan_send devices (deviceupdatebuffer R))"

definition put_command :: "command_desc \<Rightarrow> runtime \<Rightarrow> runtime option" where
  "put_command command R =
     map_option (\<lambda>buf. R\<lparr>commandbuffer := buf, posted := posted R @ [command]\<rparr>)
       (chan_send command (commandbuffer R))"

text \<open>
  One call of a callback. \<open>StoreValue\<close> takes the mutex and stores, the \<open>PostEvent\<close> after it
  sends the event and releases the mutex. \<open>RefreshAll\<close> starts the goroutine with the initial
  refresh: it reads the list of the devices and then requests the values of one after the other;
  \<open>refreshes\<close> holds the devices that are left to each of these goroutines, and to the loop of the ticker.
\<close>

definition start_refresh :: "runtime \<Rightarrow> runtime" where
  "start_refresh R =
     (case reg_List CtxDeadline (zregister (zigbee (the_con R))) of
        Inl err \<Rightarrow> R
      | Inr devices \<Rightarrow> R\<lparr>refreshes := refreshes R @ [devices]\<rparr>)"

definition perform :: "env \<Rightarrow> outcall \<Rightarrow> runtime \<Rightarrow> runtime option" where
  "perform E p R =
     (case p of
        ObserveState ieee pl \<Rightarrow> Some (state_observed ieee pl R)
      | StoreValue device pl \<Rightarrow>
          (case value_mux R of
             Some event \<Rightarrow> None
           | None \<Rightarrow> Some ((put_con ((the_con R)\<lparr>zigbee := z_store device pl (zigbee (the_con R))\<rparr>) R)
                            \<lparr>value_mux := Some \<lparr>ev_Device = device, ev_Payload = pl\<rparr>\<rparr>))
      | PostEvent event \<Rightarrow> map_option (\<lambda>R'. R'\<lparr>value_mux := None\<rparr>) (put_event event R)
      | PostDevices devices \<Rightarrow> put_devices devices R
      | PostCommand command \<Rightarrow> put_command command R
      | RefreshAll \<Rightarrow> Some (start_refresh R))"

lemmas perform_simps = perform_def put_event_def put_devices_def put_command_def state_observed_def

text \<open>\<^verbatim>\<open>NotifyRefresh\<close>: the device list is read in the callback and posted again.\<close>

definition NotifyRefresh :: "connector \<Rightarrow> outcall list" where
  "NotifyRefresh c =
     (case z_GetDeviceList CtxDeadline (zigbee c) of Inl err \<Rightarrow> [] | Inr devices \<Rightarrow> [PostDevices devices])"

definition is_set :: "env \<Rightarrow> command_desc \<Rightarrow> bool" where
  "is_set E d \<longleftrightarrow> cd_ServiceId d = ''set'' \<and> getDeviceIeeeAddress (conf E) (cd_DeviceId d) \<noteq> None"

text \<open>
  The command loop after the value of the device has been read, or when it needs none: a set
  command begins its first part in the protocol, anything else is handled to its end. The loop
  is busy as long as \<open>handling\<close> holds a set command.
\<close>

definition begin_set :: "string \<Rightarrow> command_desc \<Rightarrow> feature list \<Rightarrow> (string, go_value) gomap \<Rightarrow> sys \<Rightarrow> sys" where
  "begin_set ieee d exposes lastState s =
     (let n = length (commands s);
          (t, c') = set_register_with n ieee d (ackExpectation (Data (cd_Command d)) exposes lastState) (con s)
      in s\<lparr>con := c', commands := commands s @ [d], handling := Some (n, ieee, Registered t)\<rparr>)"

definition finish_command ::
    "env \<Rightarrow> command_desc \<Rightarrow> string \<Rightarrow> feature list \<Rightarrow> goerr + string \<Rightarrow> sys \<Rightarrow> sys" where
  "finish_command E d ieee exposes v s =
     (if is_set E d then begin_set ieee d exposes (state_of_value v) s
      else s\<lparr>con := answer_get E d v (con s)\<rparr>)"

text \<open>A command that needs no value; a \<^verbatim>\<open>set\<close> comes here only without acknowledgements.\<close>

definition direct_command :: "env \<Rightarrow> command_desc \<Rightarrow> sys \<Rightarrow> sys" where
  "direct_command E d s =
     (if is_set E d then begin_set (the (getDeviceIeeeAddress (conf E) (cd_DeviceId d))) d [] [] s
      else s\<lparr>con := handleCommand E 0 d (con s)\<rparr>)"

text \<open>The new members of the wait group after a round of the device loop.\<close>

definition spawned :: "device_loop \<Rightarrow> device_loop \<Rightarrow> int" where
  "spawned L L' = int (length (refreshing L')) - int (length (refreshing L))"

inductive rt_step :: "env \<Rightarrow> runtime \<Rightarrow> runtime \<Rightarrow> bool" for E where
  device_list: "deviceInfoHandler pl (zigbee (the_con R)) = (ups, z') \<Longrightarrow>
    rt_step E R ((put_con ((the_con R)\<lparr>zigbee := z'\<rparr>) R)\<lparr>callbacks := callbacks R @ [outcalls ups]\<rparr>)"
| device_state: "eventHandler (conf E) CtxDeadline msg (zigbee (the_con R)) = (ups, z') \<Longrightarrow>
    rt_step E R (R\<lparr>callbacks := callbacks R @ [outcalls ups]\<rparr>)"
| gateway_command: "command_message (mbroker E) (ConnectorId (conf E)) (json_error E) msg (mgw (the_con R)) = Some (x, m') \<Longrightarrow>
    rt_step E R ((put_con ((the_con R)\<lparr>mgw := m'\<rparr>) R)\<lparr>callbacks := callbacks R @
      [case x of None \<Rightarrow> [] | Some (d, s, cmd) \<Rightarrow> [PostCommand \<lparr>cd_DeviceId = d, cd_ServiceId = s, cd_Command = cmd\<rparr>]]\<rparr>)"
| gateway_refresh: "refresh_message (mgw (the_con R)) \<Longrightarrow>
    rt_step E R (R\<lparr>callbacks := callbacks R @ [NotifyRefresh (the_con R)]\<rparr>)"
| gateway_connected: "mgw_on_connect (mbroker E) (mgw (the_con R)) = Some (notify, m') \<Longrightarrow>
    rt_step E R ((put_con ((the_con R)\<lparr>mgw := m'\<rparr>) R)
      \<lparr>callbacks := callbacks R @ [if notify then NotifyRefresh (the_con R) else []]\<rparr>)"
| zigbee_connected: "z_on_connect (conf E) (zbroker E) (zigbee (the_con R)) = Some z' \<Longrightarrow>
    rt_step E R (put_con ((the_con R)\<lparr>zigbee := z'\<rparr>) R)"
| refresh_ticker: "startEventRefreshLoop (conf E) = Started (Some period) \<Longrightarrow> rt_step E R (start_refresh R)"
| refresh_request: "refreshes R = before @ (device # ds) # after \<Longrightarrow>
    refresh_one (conf E) (zbroker E) device ds (zigbee (the_con R)) = (ds', z') \<Longrightarrow>
    rt_step E R ((put_con ((the_con R)\<lparr>zigbee := z'\<rparr>) R)\<lparr>refreshes := before @ ds' # after\<rparr>)"
| callback: "callbacks R = before @ (p # rest) # after \<Longrightarrow> perform E p R = Some R' \<Longrightarrow>
    rt_step E R (R'\<lparr>callbacks := before @ rest # after\<rparr>)"
| device_take: "dstage R = DvWait \<Longrightarrow> deviceupdatebuffer R = devices # buf \<Longrightarrow>
    rt_step E R (R\<lparr>dstage := DvList (begin_round (NewList devices) (dloop R)), deviceupdatebuffer := buf\<rparr>)"
| device_retry: "dstage R = DvWait \<Longrightarrow> loop_enabled RetryTimer (dloop R) \<Longrightarrow>
    rt_step E R (R\<lparr>dstage := DvList (begin_round RetryTimer (dloop R))\<rparr>)"
| device_work: "device_round E (dstage R, dloop R, the_con R) (st', L', c') \<Longrightarrow>
    rt_step E R ((put_con c' R)\<lparr>dstage := st', dloop := L', others := others R + spawned (dloop R) L'\<rparr>)"
| recovered_request: "refreshing (dloop R) = before @ (device # ds) # after \<Longrightarrow>
    rt_step E R ((put_con (snd (with_zigbee (z_RefreshDeviceEventValues (conf E) (zbroker E) device) (the_con R))) R)
      \<lparr>dloop := (dloop R)\<lparr>refreshing := before @ ds # after\<rparr>\<rparr>)"
| recovered_done: "refreshing (dloop R) = before @ [] # after \<Longrightarrow>
    rt_step E R (R\<lparr>dloop := (dloop R)\<lparr>refreshing := before @ after\<rparr>, others := others R - 1\<rparr>)"
| command_take: "cstage R = CmdWait \<Longrightarrow> handling (protocol R) = None \<Longrightarrow> commandbuffer R = d # buf \<Longrightarrow>
    rt_step E R (R\<lparr>cstage := CmdLookup d, commandbuffer := buf, taken := taken R @ [d]\<rparr>)"
| command_direct: "cstage R = CmdLookup d \<Longrightarrow> needs_value E d (the_con R) = None \<Longrightarrow>
    rt_step E R (R\<lparr>cstage := CmdWait, protocol := direct_command E d (protocol R)\<rparr>)"
| command_lookup: "cstage R = CmdLookup d \<Longrightarrow> needs_value E d (the_con R) = Some ieee \<Longrightarrow>
    rt_step E R (R\<lparr>cstage := command_lookup d ieee (the_con R)\<rparr>)"
| command_read: "cstage R = CmdLock d ieee exposes device \<Longrightarrow> value_mux R = None \<Longrightarrow>
    rt_step E R (R\<lparr>cstage := CmdValue d ieee exposes (z_Get device (zigbee (the_con R)))\<rparr>)"
| command_finish: "cstage R = CmdValue d ieee exposes v \<Longrightarrow>
    rt_step E R (R\<lparr>cstage := CmdWait, protocol := finish_command E d ieee exposes v (protocol R)\<rparr>)"
| event_take: "estage R = EvWait \<Longrightarrow> eventbuffer R = event # buf \<Longrightarrow>
    rt_step E R (R\<lparr>estage := EvCheck event, eventbuffer := buf, seen := seen R @ [event]\<rparr>)"
| event_work: "event_round E (estage R, the_con R) (st', c') \<Longrightarrow>
    rt_step E R ((put_con c' R)\<lparr>estage := st'\<rparr>)"
| set_goroutines: "internal E (protocol R) s' \<Longrightarrow> rt_step E R (R\<lparr>protocol := s'\<rparr>)"
| cancel: "rt_step E R (on_signal R)"
| registry_close: "cancelled R \<Longrightarrow> acks (the_con R) = Some r \<Longrightarrow> watcher (protocol R) \<Longrightarrow> \<not> ack_closed r \<Longrightarrow>
    rt_step E R (R\<lparr>protocol := set_reg (ack_close r) (protocol R)\<rparr>)"
| registry_done: "cancelled R \<Longrightarrow> acks (the_con R) = Some r \<Longrightarrow> watcher (protocol R) \<Longrightarrow> ack_closed r \<Longrightarrow>
    rt_step E R (R\<lparr>protocol := (protocol R)\<lparr>watcher := False, wg := wg (protocol R) - 1\<rparr>\<rparr>)"
| device_stop: "cancelled R \<Longrightarrow> dstage R = DvWait \<Longrightarrow>
    rt_step E R (R\<lparr>dstage := DvEnd, others := others R - 1\<rparr>)"
| command_stop: "cancelled R \<Longrightarrow> cstage R = CmdWait \<Longrightarrow> handling (protocol R) = None \<Longrightarrow>
    rt_step E R (R\<lparr>cstage := CmdEnd, others := others R - 1\<rparr>)"
| event_stop: "cancelled R \<Longrightarrow> estage R = EvWait \<Longrightarrow>
    rt_step E R (R\<lparr>estage := EvEnd, others := others R - 1\<rparr>)"
| zigbee_disconnect: "cancelled R \<Longrightarrow> zigbee_up R \<Longrightarrow>
    rt_step E R (R\<lparr>zigbee_up := False, others := others R - 1\<rparr>)"
| gateway_disconnect: "cancelled R \<Longrightarrow> gateway_up R \<Longrightarrow>
    rt_step E R (R\<lparr>gateway_up := False, others := others R - 1\<rparr>)"

text \<open>
  The state after a successful start: the two goroutines that wait for the end of the context to
  disconnect a client have joined the wait group, and then the three loops, each started by its
  method; \<open>start_loops\<close> is the method \<^verbatim>\<open>Start\<close> of the connector.
\<close>

definition startDeviceHandling :: "runtime \<Rightarrow> runtime" where
  [simp]: "startDeviceHandling R = R\<lparr>dstage := DvWait, dloop := device_loop_start, others := others R + 1\<rparr>"

definition startCommandHandling :: "runtime \<Rightarrow> runtime" where
  [simp]: "startCommandHandling R = R\<lparr>cstage := CmdWait, others := others R + 1\<rparr>"

definition startEventHandling :: "runtime \<Rightarrow> runtime" where
  [simp]: "startEventHandling R = R\<lparr>estage := EvWait, others := others R + 1\<rparr>"

definition start_loops :: "runtime \<Rightarrow> runtime" where
  [simp]: "start_loops R = startEventHandling (startCommandHandling (startDeviceHandling R))"

definition rt_start :: "connector \<Rightarrow> runtime" where
  "rt_start c = start_loops \<lparr>protocol = sys_start c, eventbuffer = [], commandbuffer = [], deviceupdatebuffer = [],
     callbacks = [], refreshes = [], value_mux = None, estage = EvEnd, cstage = CmdEnd, dstage = DvEnd,
     dloop = device_loop_start, cancelled = False, zigbee_up = True, gateway_up = True, others = 2,
     posted = [], taken = [], handed = [], seen = []\<rparr>"

inductive rt_reachable :: "env \<Rightarrow> runtime \<Rightarrow> bool" for E where
  rt_begin: "Start (conf E) (zbroker E) (mbroker E) = Started c \<Longrightarrow> rt_reachable E (rt_start c)"
| rt_more: "rt_reachable E R \<Longrightarrow> rt_step E R R' \<Longrightarrow> rt_reachable E R'"


subsection \<open>What the handlers leave alone\<close>

definition quiet :: "connector \<Rightarrow> connector \<Rightarrow> bool" where
  "quiet c c' \<longleftrightarrow> acks c' = acks c \<and> zregister (zigbee c') = zregister (zigbee c)
     \<and> zvalues (zigbee c') = zvalues (zigbee c)"

lemma quiet_refl [simp, intro]: "quiet c c"
  by (simp add: quiet_def)

lemma quiet_trans [trans]: "quiet c c' \<Longrightarrow> quiet c' c'' \<Longrightarrow> quiet c c''"
  by (simp add: quiet_def)

lemma quiet_updates [simp]:
  "quiet c (c'\<lparr>mgw := m\<rparr>) \<longleftrightarrow> quiet c c'" "quiet c (c'\<lparr>devicerepo := r\<rparr>) \<longleftrightarrow> quiet c c'"
  "quiet c (storeDeviceState i st c') \<longleftrightarrow> quiet c c'"
  by (simp_all add: quiet_def storeDeviceState_def)

lemma quiet_calls:
  "quiet c (snd (c_Respond E d s r c))" "quiet c (c_SendCommandError E i t c)"
  "quiet c (c_SendClientError E t c)" "quiet c (c_SendDeviceError E d t c)"
  "quiet c (snd (c_SetDevice E d info c))" "quiet c (snd (c_SendEvent E d s pl c))"
  "quiet c (snd (with_repo f c))"
  by (simp_all add: c_Respond_def c_SendCommandError_def c_SendClientError_def c_SendDeviceError_def
      c_SetDevice_def c_SendEvent_def)

lemma quiet_zigbee:
  "zregister z = zregister (zigbee c) \<Longrightarrow> zvalues z = zvalues (zigbee c) \<Longrightarrow> quiet c (c\<lparr>zigbee := z\<rparr>)"
  by (simp add: quiet_def)

lemma quiet_repo_frame: "c' = c\<lparr>devicerepo := devicerepo c'\<rparr> \<Longrightarrow> quiet c c'"
  by (metis quiet_refl quiet_updates(2))

lemma quiet_send_event: "quiet c (send_event E d pl i c)"
proof -
  obtain x c1 where call: "c_SendEvent E d i pl c = (x, c1)" by fastforce
  with quiet_calls(6) [of c E d i pl] have "quiet c c1" by simp
  with call quiet_calls(4) show ?thesis by (auto simp: send_event_def split: option.split intro: quiet_trans)
qed

lemma quiet_event:
  assumes "event_work E st c = (st', c')"
  shows "quiet c c'"
  using assms quiet_calls(4) [of c E] quiet_send_event [of c E]
  by (cases "(E, st, c)" rule: event_work.cases) auto

lemma quiet_set_device: "set_device E d i res c = (res', c') \<Longrightarrow> quiet c c'"
  using quiet_calls(5) [of c E]
  by (auto simp: set_device_def split: prod.splits option.splits) (metis snd_conv)+

lemma quiet_looked_up: "type_looked_up E d x w c = Some (st, c') \<Longrightarrow> quiet c c'"
  by (auto simp: type_looked_up_def quiet_calls split: sum.splits if_splits)

lemma quiet_device: "device_step E st L c = Some (st', L', c') \<Longrightarrow> quiet c c'"
  by (cases "(E, st, L, c)" rule: device_step.cases)
     (auto simp: Let_def split: list.splits prod.splits dest: quiet_looked_up quiet_set_device)

lemma quiet_answer: "quiet c (answer_get E d v c)"
proof (cases v)
  case (Inr msg)
  obtain x c1 where call: "c_Respond E (cd_DeviceId d) (cd_ServiceId d) \<lparr>CommandId = CommandId (cd_Command d), Data = msg\<rparr> c = (x, c1)"
    by fastforce
  with quiet_calls(1) have "quiet c c1" by (metis snd_conv)
  with call Inr quiet_calls(2) show ?thesis
    by (auto simp: answer_get_def Let_def split: option.split intro: quiet_trans)
qed (simp add: answer_get_def Let_def quiet_calls)

lemma quiet_command: "\<not> is_set E d \<Longrightarrow> quiet c (handleCommand E n d c)"
  using quiet_calls(2) [of c E]
  by (auto simp: handleCommand_def handleGet_def quiet_answer is_set_def split: option.split)

subsection \<open>Handlers beside the protocol\<close>

text \<open>
  What the protocol of the set commands relies on in every other handler: it leaves the
  registry, the device list and the stored states alone.
\<close>

locale bystander =
  fixes handler :: "connector \<Rightarrow> connector"
  assumes is_quiet: "quiet c (handler c)"
begin

lemma protocol_step: "external E s (s\<lparr>con := handler (con s)\<rparr>)"
  using is_quiet [of "con s"] by (intro external.other) (simp add: quiet_def)

lemma keeps_wf: "zclient_wf (zigbee (handler c)) = zclient_wf (zigbee c)"
  using is_quiet [of c] by (simp add: quiet_def zclient_wf_def)

lemma keeps_values: "zvalues (zigbee (handler c)) = zvalues (zigbee c)"
  using is_quiet [of c] by (simp add: quiet_def)

end

interpretation event: bystander "\<lambda>c. snd (event_work E st c)" for E st
  by unfold_locales (metis quiet_event prod.collapse)

interpretation device: bystander
    "\<lambda>c. case device_step E st L c of None \<Rightarrow> c | Some (st', L', c') \<Rightarrow> c'" for E st L
  by unfold_locales (auto dest: quiet_device split: option.split)

interpretation recovered: bystander
    "\<lambda>c. snd (with_zigbee (z_RefreshDeviceEventValues (conf E) (zbroker E) device) c)" for E device
  by unfold_locales (simp add: quiet_zigbee frame_simps)

interpretation refresh: bystander
    "\<lambda>c. c\<lparr>zigbee := snd (refresh_one (conf E) (zbroker E) device ds (zigbee c))\<rparr>" for E device ds
  by unfold_locales (simp add: quiet_zigbee frame_simps)

interpretation value_answer: bystander "answer_get E d v" for E d v
  by unfold_locales (rule quiet_answer)

lemma device_round_step:
  "device_round E (st, L, c) (st', L', c') \<Longrightarrow> device_step E st L c = Some (st', L', c') \<and> st \<noteq> DvWait \<and> st \<noteq> DvEnd"
  by (simp add: device_round_def)

lemma event_round_step:
  "event_round E (st, c) (st', c') \<Longrightarrow> event_work E st c = (st', c') \<and> st \<noteq> EvWait \<and> st \<noteq> EvEnd"
  by (simp add: event_round_def)

subsection \<open>The channels and the command at hand\<close>

lemma put_con_simps [simp]:
  "protocol (put_con c R) = (protocol R)\<lparr>con := c\<rparr>" "eventbuffer (put_con c R) = eventbuffer R"
  "commandbuffer (put_con c R) = commandbuffer R" "deviceupdatebuffer (put_con c R) = deviceupdatebuffer R"
  "callbacks (put_con c R) = callbacks R" "dloop (put_con c R) = dloop R" "posted (put_con c R) = posted R"
  "taken (put_con c R) = taken R" "value_mux (put_con c R) = value_mux R" "estage (put_con c R) = estage R"
  "cstage (put_con c R) = cstage R" "dstage (put_con c R) = dstage R" "cancelled (put_con c R) = cancelled R"
  "zigbee_up (put_con c R) = zigbee_up R" "gateway_up (put_con c R) = gateway_up R"
  "refreshes (put_con c R) = refreshes R" "others (put_con c R) = others R" "handed (put_con c R) = handed R" "seen (put_con c R) = seen R"
  by (simp_all add: put_con_def)

text \<open>The start of a refresh is seen by its goroutine only.\<close>

lemma start_refresh_simps [simp]:
  "protocol (start_refresh R) = protocol R" "eventbuffer (start_refresh R) = eventbuffer R"
  "commandbuffer (start_refresh R) = commandbuffer R" "deviceupdatebuffer (start_refresh R) = deviceupdatebuffer R"
  "callbacks (start_refresh R) = callbacks R" "dloop (start_refresh R) = dloop R" "posted (start_refresh R) = posted R"
  "taken (start_refresh R) = taken R" "value_mux (start_refresh R) = value_mux R" "estage (start_refresh R) = estage R"
  "cstage (start_refresh R) = cstage R" "dstage (start_refresh R) = dstage R" "cancelled (start_refresh R) = cancelled R"
  "zigbee_up (start_refresh R) = zigbee_up R" "gateway_up (start_refresh R) = gateway_up R"
  "others (start_refresh R) = others R" "handed (start_refresh R) = handed R" "seen (start_refresh R) = seen R"
  by (simp_all add: start_refresh_def split: sum.split)

fun at_hand :: "command_stage \<Rightarrow> command_desc list" where
  "at_hand (CmdLookup d) = [d]"
| "at_hand (CmdLock d ieee exposes device) = [d]"
| "at_hand (CmdValue d ieee exposes v) = [d]"
| "at_hand st = []"

fun stage_address :: "command_stage \<Rightarrow> (command_desc \<times> string) option" where
  "stage_address (CmdLock d ieee exposes device) = Some (d, ieee)"
| "stage_address (CmdValue d ieee exposes v) = Some (d, ieee)"
| "stage_address st = None"

definition rt_inv :: "env \<Rightarrow> runtime \<Rightarrow> bool" where
  "rt_inv E R \<longleftrightarrow> length (eventbuffer R) \<le> buffer_size \<and> length (commandbuffer R) \<le> buffer_size
     \<and> length (deviceupdatebuffer R) \<le> buffer_size
     \<and> posted R = taken R @ commandbuffer R \<and> handed R = seen R @ eventbuffer R
     \<and> commands (protocol R) @ filter (is_set E) (at_hand (cstage R)) = filter (is_set E) (taken R)
     \<and> (cstage R \<noteq> CmdWait \<longrightarrow> handling (protocol R) = None)
     \<and> (\<forall>d ieee. stage_address (cstage R) = Some (d, ieee) \<longrightarrow>
          getDeviceIeeeAddress (conf E) (cd_DeviceId d) = Some ieee)"

lemma begin_set_frame [simp]:
  "commands (begin_set ieee d ex l s) = commands s @ [d]" "handling (begin_set ieee d ex l s) \<noteq> None"
  "calls (begin_set ieee d ex l s) = calls s" "delivering (begin_set ieee d ex l s) = delivering s"
  "watcher (begin_set ieee d ex l s) = watcher s" "wg (begin_set ieee d ex l s) = wg s"
  by (auto simp: begin_set_def Let_def split: prod.split)

lemma command_frames [simp]:
  "commands (finish_command E d ieee ex v s) = commands s @ filter (is_set E) [d]"
  "commands (direct_command E d s) = commands s @ filter (is_set E) [d]"
  "watcher (finish_command E d ieee ex v s) = watcher s" "wg (finish_command E d ieee ex v s) = wg s"
  "watcher (direct_command E d s) = watcher s" "wg (direct_command E d s) = wg s"
  by (simp_all add: finish_command_def direct_command_def)

lemma chan_send_length: "chan_send x buf = Some buf' \<Longrightarrow> length buf' \<le> buffer_size \<and> buf' = buf @ [x]"
  by (auto simp: chan_send_def split: if_splits)

lemma rt_inv_perform: "rt_inv E R \<Longrightarrow> perform E p R = Some R' \<Longrightarrow> rt_inv E R'"
  by (auto simp: rt_inv_def perform_simps dest!: chan_send_length split: outcall.splits option.splits)

lemma rt_inv_updates [simp]: "rt_inv E (R\<lparr>callbacks := cs\<rparr>) = rt_inv E R"
  "rt_inv E (put_con c R) = rt_inv E R" "rt_inv E (R\<lparr>dloop := L\<rparr>) = rt_inv E R"
  "rt_inv E (R\<lparr>others := k\<rparr>) = rt_inv E R" "rt_inv E (R\<lparr>dstage := st\<rparr>) = rt_inv E R"
  "rt_inv E (R\<lparr>estage := est\<rparr>) = rt_inv E R"
  by (simp_all add: rt_inv_def)

lemma internal_handling: "internal E s s' \<Longrightarrow> handling s = None \<Longrightarrow> handling s' = None"
  by (erule internal.cases) auto

lemma command_lookup_stage [simp]:
  "at_hand (command_lookup d ieee c) = [d]" "stage_address (command_lookup d ieee c) = Some (d, ieee)"
  "command_lookup d ieee c \<noteq> CmdWait"
  by (simp_all add: command_lookup_def Let_def split: sum.split)

lemma rt_inv_step:
  assumes "rt_inv E R" and "rt_step E R R'"
  shows "rt_inv E R'"
  using assms(2)
proof (cases rule: rt_step.cases)
  case (callback before p rest after R1)
  then show ?thesis using rt_inv_perform [OF assms(1)] by simp
next
  case (set_goroutines s')
  then show ?thesis using assms(1) internal_commands internal_handling by (auto simp: rt_inv_def)
next
  case command_lookup
  then show ?thesis using assms(1) by (auto simp: rt_inv_def needs_value_def split: if_splits)
qed (use assms(1) in \<open>auto simp: rt_inv_def\<close>)

lemma rt_reachable_inv: "rt_reachable E R \<Longrightarrow> rt_inv E R"
  by (induction rule: rt_reachable.induct)
     (simp add: rt_inv_def rt_start_def sys_start_def, rule rt_inv_step)


subsection \<open>The runtime refines the protocol\<close>

lemma begin_set_external:
  assumes "handling s = None" and "cd_ServiceId d = ''set''" and "getDeviceIeeeAddress (conf E) (cd_DeviceId d) = Some ieee"
  shows "external E s (begin_set ieee d exposes lastState s)"
proof -
  obtain t c' where "set_register_with (length (commands s)) ieee d
    (ackExpectation (Data (cd_Command d)) exposes lastState) (con s) = (t, c')" by fastforce
  from external.take_set [OF assms refl this] this show ?thesis by (simp add: begin_set_def Let_def)
qed

lemma finish_command_external:
  assumes "handling s = None" and "getDeviceIeeeAddress (conf E) (cd_DeviceId d) = Some ieee"
  shows "external E s (finish_command E d ieee exposes v s)"
  using begin_set_external [OF assms(1) _ assms(2)] value_answer.protocol_step
  by (simp add: finish_command_def is_set_def)

lemma direct_command_external:
  assumes "handling s = None"
  shows "external E s (direct_command E d s)"
proof (cases "is_set E d")
  case True
  then show ?thesis using begin_set_external [OF assms] by (auto simp: direct_command_def is_set_def)
next
  case False
  then show ?thesis using quiet_command [OF False, of "con s" 0] external.other [of "handleCommand E 0 d (con s)" s E]
    by (simp add: direct_command_def quiet_def)
qed

lemma perform_protocol:
  assumes "perform E p R = Some R'"
  shows "protocol R' = protocol R \<or> external E (protocol R) (protocol R')"
proof (cases p)
  case (ObserveState ieee pl)
  with assms external.state_observed [of E "protocol R" ieee pl] show ?thesis by (auto simp: perform_simps)
next
  case StoreValue
  with assms external.other show ?thesis by (auto simp: perform_simps split: option.splits)
qed (use assms in \<open>auto simp: perform_simps\<close>)

lemma rt_step_refines:
  assumes "rt_inv E R" and "rt_step E R R'"
  shows "protocol R' = protocol R \<or> step E (protocol R) (protocol R')"
proof -
  have free: "handling (protocol R) = None" if "cstage R \<noteq> CmdWait"
    using that assms(1) by (simp add: rt_inv_def)
  show ?thesis
    using assms(2)
  proof (cases rule: rt_step.cases)
    case (callback before p rest after R1)
    then show ?thesis using perform_protocol [of E p R R1] by (auto simp: step_def)
  next
    case (device_work st' L' c')
    have "quiet (the_con R) c'" using device_round_step [OF device_work(2)] quiet_device by blast
    with external.other [of c' "protocol R" E] show ?thesis by (simp add: step_def quiet_def device_work(1))
  next
    case recovered_request
    then show ?thesis using recovered.protocol_step by (auto simp: step_def)
  next
    case (event_work st' c')
    have "quiet (the_con R) c'" using event_round_step [OF event_work(2)] quiet_event by blast
    with external.other [of c' "protocol R" E] show ?thesis by (simp add: step_def quiet_def event_work(1))
  next
    case (command_finish d ieee ex v)
    then have "getDeviceIeeeAddress (conf E) (cd_DeviceId d) = Some ieee" using assms(1) by (simp add: rt_inv_def)
    with command_finish finish_command_external free show ?thesis by (auto simp: step_def)
  next
    case command_direct
    then show ?thesis using direct_command_external free by (auto simp: step_def)
  next
    case (refresh_request before device ds after ds' z')
    then show ?thesis using refresh.protocol_step [of E "protocol R" E device ds] by (simp add: step_def)
  next
    case registry_close
    then show ?thesis using external.close by (auto simp: step_def)
  next
    case registry_done
    then show ?thesis using external.watcher_done by (auto simp: step_def)
  qed (use external.other in \<open>auto simp: step_def\<close>)
qed

lemma Start_starting: "Start cfg zb mb = Started c \<Longrightarrow> starting c"
  using Start_acks [of cfg zb mb c] by (auto simp: starting_def newAckRegistry_def split: option.split)

lemma rt_refines: "rt_reachable E R \<Longrightarrow> reachable E (protocol R)"
proof (induction rule: rt_reachable.induct)
  case (rt_begin c)
  from reachable.start [OF Start_starting [OF rt_begin]] show ?case by (simp add: rt_start_def)
next
  case (rt_more R R')
  then show ?case using rt_step_refines [OF rt_reachable_inv [OF rt_more(1)] rt_more(2)] reachable.step by auto
qed

end
