(* ===== verification/ClientProperties.thy ===== *)
theory ClientProperties
  imports Scenario Runtime
begin

section \<open>Properties of the clients and of the repository cache\<close>

subsection \<open>Commands of the gateway\<close>

lemma Split_command_topic:
  assumes "CHR ''/'' \<notin> set s"
  shows "Split (''command/'' @ d @ ''/'' @ s) CHR ''/'' = ''command'' # Split d CHR ''/'' @ [s]"
proof -
  have "Split (''command'' @ CHR ''/'' # (d @ CHR ''/'' # s)) CHR ''/''
      = Split ''command'' CHR ''/'' @ Split d CHR ''/'' @ Split s CHR ''/''"
    by (simp only: Split_append)
  moreover have "Split ''command'' CHR ''/'' = [''command'']" by (rule Split_no_sep) simp
  ultimately show ?thesis using Split_no_sep [OF assms] by simp
qed

lemma command_topic_roundtrip:
  "CHR ''/'' \<notin> set s \<Longrightarrow> parse_command_topic (''command/'' @ d @ ''/'' @ s) = Some (d, s)"
  by (simp only: parse_command_topic_def Split_command_topic) (simp add: Let_def Split_append Split_no_sep Join_Split)

lemma command_payload_roundtrip:
  assumes "valid_utf8 (CommandId c)" and "valid_utf8 (Data c)"
  shows "unmarshal_command (enc_command c) = Some c"
proof -
  have "scans (Suc 0) (enc_command c) (JObj [(''command_id'', JStr (CommandId c)), (''data'', JStr (Data c))])"
    unfolding enc_command_def
    by (rule scans_object) (use assms scans_string in \<open>auto intro!: valid_utf8_ascii simp: in_range_def\<close>)
  then have "json_parse (enc_command c) = Some (JObj [(''command_id'', JStr (CommandId c)), (''data'', JStr (Data c))])"
    by (rule json_parse_scans) (simp add: max_depth_def)
  moreover have "ToLower ''command_id'' = ''command_id''" "ToLower ''data'' = ''data''" by code_simp+
  ultimately show ?thesis
    by (simp add: unmarshal_command_def dec_struct_def command_field_def dec_string_def)
qed

lemma command_message_decodes:
  assumes "CHR ''/'' \<notin> set s" and "valid_utf8 (CommandId c)" and "valid_utf8 (Data c)"
    and "msg_topic msg = ''command/'' @ d @ ''/'' @ s" and "msg_payload msg = enc_command c"
  shows "command_message b i jerr msg m = Some (Some (d, s, c), m)"
  unfolding command_message_def assms(4,5) command_topic_roundtrip [OF assms(1)]
    command_payload_roundtrip [OF assms(2,3)]
  by simp

text \<open>
  C28. A command that is published on the topic of a device and a service, encoded as the
  package encodes commands, reaches the handler with the same device, service and command. The
  device id may contain slashes, the service id may not.
\<close>

theorem command_roundtrip:
  assumes "CHR ''/'' \<notin> set s" and "valid_utf8 (CommandId c)" and "valid_utf8 (Data c)"
    and "msg_topic msg = ''command/'' @ d @ ''/'' @ s" and "msg_payload msg = enc_command c"
  shows "command_message b i jerr msg m = Some (Some (d, s, c), m)"
  by (rule command_message_decodes [OF assms])

theorem command_roundtrip_witness:
  "command_message reliable ''dc'' (\<lambda>s. []) (message_on ''command/zigbee:0x01/set'' (enc_command (cd_Command switch_on)))
     new_mgw_client = Some (Some (''zigbee:0x01'', ''set'', cd_Command switch_on), new_mgw_client)"
proof -
  have "valid_utf8 (CommandId (cd_Command switch_on))" "valid_utf8 (Data (cd_Command switch_on))"
    by (rule valid_utf8_ascii, simp add: switch_on_def in_range_def)+
  from command_roundtrip [OF _ this, of "''set''" "message_on ''command/zigbee:0x01/set'' (enc_command (cd_Command switch_on))"
      "''zigbee:0x01''" reliable "''dc''" "\<lambda>s. []" new_mgw_client]
  show ?thesis by (simp add: message_on_def)
qed

subsection \<open>Subscriptions of the gateway client\<close>






text \<open>A broker that refuses the refresh topic only: the client starts all the same.\<close>

definition no_refresh :: broker where
  "no_refresh tr a = (if a = Subscribe ''device-manager/refresh'' 2 then Some ''refused'' else None)"

lemma refused_refresh_is_no_error:
  "fst (listenToDeviceManagementRefresh no_refresh new_mgw_client) = Some (Other ''refused'')
   \<and> fst (initSubscriptions no_refresh new_mgw_client) = None"
  by code_simp

subsection \<open>The register and the states of devices\<close>

text \<open>
  C31. The register refines a finite map for each of its two indexes: after \<^verbatim>\<open>Set\<close> with a list,
  the lookups are those in the map that the list describes, where a later device replaces an
  earlier one with the same key.
\<close>

definition last_by :: "(device_info \<Rightarrow> string) \<Rightarrow> device_info list \<Rightarrow> string \<rightharpoonup> device_info" where
  "last_by key ds = foldl (\<lambda>m d. m(key d \<mapsto> d)) Map.empty ds"

lemma last_by_find: "last_by key ds k = find (\<lambda>d. key d = k) (rev ds)"
proof (induction ds rule: rev_induct)
  case (snoc d ds)
  then show ?case by (simp add: last_by_def)
qed (simp add: last_by_def)

definition lookup_result :: "device_info option \<Rightarrow> goerr + device_info" where
  "lookup_result x = (case x of Some d \<Rightarrow> Inr d | None \<Rightarrow> Inl ErrNotFound)"

theorem register_refines_map:
  "reg_GetByIeee ctx (snd (reg_Set ds r)) k = lookup_result (last_by IeeeAddress ds k)
   \<and> reg_GetByFriendlyName ctx (snd (reg_Set ds r)) k = lookup_result (last_by FriendlyName ds k)
   \<and> reg_List ctx (snd (reg_Set ds r)) = Inr ds"
proof -
  let ?r = "snd (reg_Set ds r)"
  have "waitForInit ctx ?r = None" by (simp add: waitForInit_def)
  moreover have "byIeee ?r = index_by IeeeAddress ds []" "byFriendlyName ?r = index_by FriendlyName ds []"
    using reg_wf_Set [of ds r] by (simp_all add: reg_wf_def)
  ultimately show ?thesis
    by (simp add: reg_GetByIeee_def reg_GetByFriendlyName_def reg_List_def lookup_result_def last_by_find
        map_of_index_by split: option.split)
qed

text \<open>What a state message does once the device list is known.\<close>

lemma state_message:
  assumes "zclient_wf z" and "reg_init (zregister z)" and "msg_topic msg = ZigbeeMqttTopicPrefix cfg @ name"
    and "eventHandler cfg ctx msg z = (ups, z')"
  shows "if HasPrefix name ''bridge/'' \<or> name \<notin> FriendlyName ` set (reg_list (zregister z))
     then ups = [] \<and> z' = z
     else \<exists>d \<in> set (reg_list (zregister z)). FriendlyName d = name
       \<and> ups = (if msg_retained msg then [] else [StateObserved (IeeeAddress d) (msg_payload msg)])
                @ [EventReceived d (msg_payload msg)]
       \<and> z' = z\<lparr>zvalues := zvalues z'\<rparr>
       \<and> map_of (zvalues z') = (map_of (zvalues z))(IeeeAddress d \<mapsto> msg_payload msg)"
proof -
  have wf: "reg_wf (zregister z)" using assms(1) by (simp add: zclient_wf_def)
  have prefix: "HasPrefix (p @ name) (p @ q) = HasPrefix name q" for p q :: string
    by (simp add: HasPrefix_def)
  note bridge = prefix [of _ "''bridge/''"]
  show ?thesis
  proof (cases "HasPrefix name ''bridge/''")
    case True
    with assms(3,4) bridge [of "ZigbeeMqttTopicPrefix cfg"] show ?thesis by (simp add: eventHandler_def Let_def)
  next
    case False
    note nb = False
    let ?g = "reg_GetByFriendlyName ctx (zregister z) name"
    have h: "eventHandler cfg ctx msg z = (case ?g of Inl e \<Rightarrow> ([], z) | Inr d \<Rightarrow>
        ((if msg_retained msg then [] else [StateObserved (IeeeAddress d) (msg_payload msg)])
           @ [EventReceived d (msg_payload msg)],
         z\<lparr>zvalues := mput (IeeeAddress d) (msg_payload msg) (zvalues z)\<rparr>))"
      using False assms(3) bridge [of "ZigbeeMqttTopicPrefix cfg"] by (simp add: eventHandler_def Let_def)
    show ?thesis
    proof (cases ?g)
      case (Inl e)
      with friendly.get_ready_iff [OF wf assms(2), of ctx name] h assms(4) show ?thesis by auto
    next
      case (Inr d)
      from friendly.get_sound [OF wf Inr] have "d \<in> set (reg_list (zregister z))" "FriendlyName d = name" by auto
      moreover from h Inr assms(4) have
        "ups = (if msg_retained msg then [] else [StateObserved (IeeeAddress d) (msg_payload msg)]) @ [EventReceived d (msg_payload msg)]"
        "z' = z\<lparr>zvalues := mput (IeeeAddress d) (msg_payload msg) (zvalues z)\<rparr>" by auto
      ultimately show ?thesis using nb by auto
    qed
  qed
qed

text \<open>
  With a broker that accepts everything, a refresh requests the values of exactly the
  enabled, supported and interviewed devices, in the order of the list, with the message that
  names the readable properties.
\<close>

definition refreshable :: "device_info \<Rightarrow> bool" where
  "refreshable d \<longleftrightarrow> \<not> Disabled d \<and> Supported d \<and> InterviewCompleted d"

definition get_request :: "config \<Rightarrow> device_info \<Rightarrow> mqtt_msg" where
  "get_request cfg d = message_on (ZigbeeMqttTopicPrefix cfg @ FriendlyName d @ ''/get'') (enc_get_message d)"

lemma refresh_loop_reliable:
  "zmqtt_set z \<Longrightarrow> fst (refresh_loop cfg reliable ds z) = None
     \<and> accepted (ztrace (snd (refresh_loop cfg reliable ds z)))
         = accepted (ztrace z) @ map (get_request cfg) (filter refreshable ds)"
proof (induction ds arbitrary: z)
  case (Cons d ds)
  let ?z = "z\<lparr>ztrace := ztrace z @ [(Publish (get_request cfg d), None)]\<rparr>"
  have "z_RefreshDeviceEventValues cfg reliable d z = (None, ?z)"
    using Cons.prems by (simp add: z_RefreshDeviceEventValues_def z_send_def ask_def reliable_def get_request_def message_on_def)
  with Cons.IH [of z] Cons.IH [of ?z] Cons.prems show ?case by (simp add: refreshable_def)
qed simp

theorem refresh_requests:
  assumes "reg_init (zregister z)" and "zmqtt_set z"
  shows "fst (z_RefreshEventValues cfg reliable ctx z) = None
    \<and> accepted (ztrace (snd (z_RefreshEventValues cfg reliable ctx z)))
        = accepted (ztrace z) @ map (get_request cfg) (filter refreshable (reg_list (zregister z)))"
  using refresh_loop_reliable [OF assms(2)] assms(1)
  by (simp add: z_RefreshEventValues_def reg_List_def waitForInit_def)

theorem refresh_requests_witness:
  "map msg_topic (accepted (ztrace (snd (z_RefreshEventValues default_config reliable CtxDeadline lamp_client))))
     = [''zigbee2mqtt/lamp/get'']"
proof -
  have "reg_init (zregister lamp_client)" "zmqtt_set lamp_client"
    by (simp_all add: lamp_client_def new_zclient_def)
  from refresh_requests [OF this, of default_config CtxDeadline] show ?thesis
    by (simp add: lamp_client_def new_zclient_def refreshable_def lamp_def get_request_def message_on_def
        default_config_def)
qed

text \<open>
  C32. The message that requests the values has exactly the readable properties as its keys,
  once each, and every value is null; the example messages of a device have the keys of the
  features with the access asked for.
\<close>

theorem message_keys:
  "distinct (mkeys (getZigbeeGetMessage d))
   \<and> set (mkeys (getZigbeeGetMessage d)) = (\<Union>f \<in> set (Exposes (Definition d)). get_keys f)
   \<and> snd ` set (getZigbeeGetMessage d) \<subseteq> {VNil}
   \<and> distinct (mkeys (GetZigbeeMessageStruct d access))
   \<and> set (mkeys (GetZigbeeMessageStruct d access))
       = (\<Union>f \<in> set (Exposes (Definition d)). feature_keys access f)"
  using get_loop_keys [of "Exposes (Definition d)" "[]"] get_loop_nil [of "[]" "Exposes (Definition d)"]
    mwf_get_loop [of "[]" "Exposes (Definition d)"] mwf_struct_loop [of "[]" "Exposes (Definition d)" access]
    struct_loop_keys [of "Exposes (Definition d)" access "[]"]
  by (simp add: getZigbeeGetMessage_def GetZigbeeMessageStruct_def GetZigbeeMessageStructOfFeatureList_def)

end
