(* ===== verification/RuntimeInvariants.thy ===== *)
theory RuntimeInvariants
  imports Runtime
begin

section \<open>Invariants of the running connector\<close>

text \<open>
  The mutex of the values and what it is for, the well-formedness of the zigbee2mqtt client, and
  the wait group: the counter is the number of the goroutines that have joined and not left.
\<close>

subsection \<open>The stored values and the events\<close>

text \<open>The payload of the last event of a device.\<close>

definition last_payload :: "string \<Rightarrow> event_desc list \<Rightarrow> string option" where
  "last_payload ieee events =
     map_option ev_Payload (find (\<lambda>e. IeeeAddress (ev_Device e) = ieee) (rev events))"

lemma last_payload_simps [simp]:
  "last_payload i [] = None"
  "last_payload i (es @ [e]) = (if IeeeAddress (ev_Device e) = i then Some (ev_Payload e) else last_payload i es)"
  by (simp_all add: last_payload_def)

text \<open>In a callback each store is followed by its event; within the section only the event is left.\<close>

fun paired :: "outcall list \<Rightarrow> bool" where
  "paired [] \<longleftrightarrow> True"
| "paired (StoreValue d p # PostEvent e # cs) \<longleftrightarrow> e = \<lparr>ev_Device = d, ev_Payload = p\<rparr> \<and> paired cs"
| "paired (StoreValue d p # cs) \<longleftrightarrow> False"
| "paired (PostEvent e # cs) \<longleftrightarrow> False"
| "paired (p # cs) \<longleftrightarrow> paired cs"

fun in_section :: "outcall list \<Rightarrow> bool" where
  "in_section (PostEvent e # cs) \<longleftrightarrow> True"
| "in_section cs \<longleftrightarrow> False"

definition callback_ok :: "outcall list \<Rightarrow> bool" where
  "callback_ok cb \<longleftrightarrow> paired (if in_section cb then tl cb else cb)"

lemma paired_outside: "paired cb \<Longrightarrow> \<not> in_section cb"
  by (cases cb rule: paired.cases) auto

lemma paired_ok: "paired cb \<Longrightarrow> callback_ok cb"
  by (simp add: callback_ok_def paired_outside)

lemma paired_store: "paired (StoreValue d p # cs) \<Longrightarrow>
    \<exists>cs'. cs = PostEvent \<lparr>ev_Device = d, ev_Payload = p\<rparr> # cs' \<and> paired cs'"
  by (cases "StoreValue d p # cs" rule: paired.cases) auto

lemma outcalls_paired: "paired (outcalls ups)"
  by (induction ups) (auto simp: outcalls_def split: upcall.split)

lemma NotifyRefresh_paired: "paired (NotifyRefresh c)"
  by (simp add: NotifyRefresh_def split: sum.split)

definition mux_events :: "runtime \<Rightarrow> event_desc list" where
  "mux_events R = (case value_mux R of None \<Rightarrow> [] | Some e \<Rightarrow> [e])"

definition mux_inv :: "runtime \<Rightarrow> bool" where
  "mux_inv R \<longleftrightarrow> (\<forall>cb \<in> set (callbacks R). callback_ok cb)
     \<and> map hd (filter in_section (callbacks R)) = map PostEvent (mux_events R)
     \<and> (\<forall>i. map_of (zvalues (zigbee (the_con R))) i = last_payload i (handed R @ mux_events R))"

lemma mux_invI:
  assumes "mux_inv R" and "value_mux R' = value_mux R" and "handed R' = handed R"
    and "zvalues (zigbee (the_con R')) = zvalues (zigbee (the_con R))"
    and "callbacks R' = callbacks R @ cbs" and "\<forall>cb \<in> set cbs. paired cb"
  shows "mux_inv R'"
proof -
  have "filter in_section cbs = []" using assms(6) paired_outside by (auto simp: filter_empty_conv)
  with assms paired_ok show ?thesis by (auto simp: mux_inv_def mux_events_def)
qed

lemma mux_inv_same:
  assumes "mux_inv R" and "value_mux R' = value_mux R" and "handed R' = handed R"
    and "zvalues (zigbee (the_con R')) = zvalues (zigbee (the_con R))" and "callbacks R' = callbacks R"
  shows "mux_inv R'"
  using mux_invI [OF assms(1-4), of "[]"] assms(5) by simp

lemma mux_inv_callback:
  assumes inv: "mux_inv R" and cbs: "callbacks R = before @ (p # rest) # after" and p: "perform E p R = Some R1"
  shows "mux_inv (R1\<lparr>callbacks := before @ rest # after\<rparr>)"
proof -
  have ok: "callback_ok (p # rest)" and oks: "\<forall>cb \<in> set before \<union> set after. callback_ok cb"
    using inv cbs by (auto simp: mux_inv_def)
  have heads: "map hd (filter in_section before) @ (if in_section (p # rest) then [p] else [])
      @ map hd (filter in_section after) = map PostEvent (mux_events R)"
    using inv cbs by (auto simp: mux_inv_def)
  have vals: "map_of (zvalues (zigbee (the_con R))) i = last_payload i (handed R @ mux_events R)" for i
    using inv by (simp add: mux_inv_def)
  show ?thesis
  proof (cases p)
    case (StoreValue d pl)
    with ok obtain cs where rest: "rest = PostEvent \<lparr>ev_Device = d, ev_Payload = pl\<rparr> # cs" "paired cs"
      using paired_store [of d pl rest] by (auto simp: callback_ok_def)
    have free: "value_mux R = None" using p StoreValue by (auto simp: perform_simps split: option.splits)
    then have "filter in_section before = []" "filter in_section after = []"
      using heads StoreValue by (auto simp: mux_events_def)
    with p StoreValue rest oks vals free show ?thesis
      by (auto simp: perform_simps mux_inv_def mux_events_def callback_ok_def z_store_def)
  next
    case (PostEvent e)
    with heads have mux: "value_mux R = Some e" "filter in_section before = []" "filter in_section after = []"
      by (auto simp: mux_events_def append_eq_Cons_conv split: option.splits)
    have "paired rest" using ok PostEvent by (simp add: callback_ok_def)
    with p PostEvent oks vals mux paired_ok paired_outside show ?thesis
      by (auto simp: perform_simps mux_inv_def mux_events_def)
  next
    case RefreshAll
    have "zvalues (zigbee (the_con R1)) = zvalues (zigbee (the_con R))" "value_mux R1 = value_mux R" "handed R1 = handed R"
      using p RefreshAll by (auto simp: perform_simps)
    moreover have "paired rest" using ok RefreshAll by (simp add: callback_ok_def)
    ultimately show ?thesis using RefreshAll heads oks vals paired_ok paired_outside
      by (auto simp: mux_inv_def mux_events_def)
  qed (use p heads oks ok vals paired_ok paired_outside in
      \<open>auto simp: perform_simps mux_inv_def mux_events_def callback_ok_def\<close>)
qed

lemma internal_zigbee:
  "internal E s s' \<Longrightarrow> zregister (zigbee (con s')) = zregister (zigbee (con s))
     \<and> zvalues (zigbee (con s')) = zvalues (zigbee (con s))"
  by (erule internal.cases)
     (auto simp: answer_now_def set_reg_def Let_def set_publish_def c_SetByIeee_def frame_simps run_cancel_def
       elim!: set_decide_cases split: option.splits prod.splits)

lemma z_connect_frame [frame_simps]:
  "z_on_connect cfg b z = Some z' \<Longrightarrow> zregister z' = zregister z \<and> zvalues z' = zvalues z"
  by (auto simp: z_on_connect_def startListener_def startDeviceInfoListener_def startEventListener_def
      z_subscribe_def ask_def split: option.splits prod.splits)

lemma deviceInfoHandler_values: "deviceInfoHandler pl z = (ups, z') \<Longrightarrow> zvalues z' = zvalues z"
  by (auto simp: deviceInfoHandler_def split: option.splits prod.splits)

lemma begin_set_zigbee [simp]: "zigbee (con (begin_set ieee d ex l s)) = zigbee (con s)"
proof -
  obtain t c' where reg: "set_register_with (length (commands s)) ieee d
    (ackExpectation (Data (cd_Command d)) ex l) (con s) = (t, c')" by fastforce
  then have "zigbee c' = zigbee (con s)" by (cases rule: register_with_cases) simp_all
  with reg show ?thesis by (simp add: begin_set_def Let_def)
qed

lemma command_zigbee:
  "zregister (zigbee (con (finish_command E d i ex v s))) = zregister (zigbee (con s))"
  "zvalues (zigbee (con (finish_command E d i ex v s))) = zvalues (zigbee (con s))"
  "zregister (zigbee (con (direct_command E d s))) = zregister (zigbee (con s))"
  "zvalues (zigbee (con (direct_command E d s))) = zvalues (zigbee (con s))"
  using value_answer.is_quiet [of "con s" E d v] quiet_command [of E d "con s" 0]
  by (auto simp: finish_command_def direct_command_def quiet_def)

text \<open>All steps but those of the two handlers of device lists and states leave the client's data alone.\<close>

lemma round_values:
  "device_round E (st, L, c) (st', L', c') \<Longrightarrow> quiet c c'"
  "event_round E (est, c) (est', c') \<Longrightarrow> quiet c c'"
  using device_round_step [of E st L c st' L' c'] quiet_device event_round_step [of E est c est' c'] quiet_event
  by blast+

lemma mux_inv_step:
  assumes "mux_inv R" and "rt_step E R R'"
  shows "mux_inv R'"
  using assms(2)
proof (cases rule: rt_step.cases)
  case (device_list pl ups z')
  with mux_invI [OF assms(1), of R' "[outcalls ups]"] show ?thesis
    by (simp add: outcalls_paired deviceInfoHandler_values)
next
  case (device_state msg ups z')
  with mux_invI [OF assms(1), of R' "[outcalls ups]"] show ?thesis by (simp add: outcalls_paired)
next
  case (gateway_command msg x m')
  with mux_invI [OF assms(1), of R'] show ?thesis by (auto split: option.split)
next
  case gateway_refresh
  with mux_invI [OF assms(1), of R' "[NotifyRefresh (the_con R)]"] show ?thesis by (simp add: NotifyRefresh_paired)
next
  case (gateway_connected notify m')
  with mux_invI [OF assms(1), of R' "[if notify then NotifyRefresh (the_con R) else []]"] show ?thesis
    by (simp add: NotifyRefresh_paired)
next
  case (callback before p rest after R1)
  then show ?thesis using mux_inv_callback [OF assms(1)] by simp
next
  case (device_work st' L' c')
  then show ?thesis using mux_inv_same [OF assms(1), of R'] round_values(1) by (simp add: quiet_def)
next
  case (event_work st' c')
  then show ?thesis using mux_inv_same [OF assms(1), of R'] round_values(2) by (simp add: quiet_def)
next
  case (set_goroutines s')
  then show ?thesis using mux_inv_same [OF assms(1), of R'] internal_zigbee by simp
next
  case (refresh_request before device ds after ds' z')
  then show ?thesis using mux_inv_same [OF assms(1), of R'] refresh.keeps_values [of E device ds "the_con R"] by simp
next
  case recovered_request
  then show ?thesis using mux_inv_same [OF assms(1), of R'] by (simp add: frame_simps)
next
  case zigbee_connected
  then show ?thesis using mux_inv_same [OF assms(1), of R'] by (simp add: z_connect_frame)
qed (use mux_inv_same [OF assms(1), of R'] in \<open>simp_all add: command_zigbee set_reg_def\<close>)

lemma Start_zigbee:
  assumes "Start cfg zb mb = Started c"
  shows "zregister (zigbee c) = NewDeviceRegister" and "zvalues (zigbee c) = []"
  using assms
  by (auto simp: Start_def StartWithDependencies_def z_New_def new_zclient_def
      split: option.splits sum.splits start.splits prod.splits)

lemma rt_reachable_mux: "rt_reachable E R \<Longrightarrow> mux_inv R"
proof (induction rule: rt_reachable.induct)
  case (rt_begin c)
  then show ?case by (simp add: mux_inv_def mux_events_def rt_start_def sys_start_def Start_zigbee)
qed (rule mux_inv_step)

subsection \<open>The zigbee2mqtt client\<close>

lemma zclient_wf_same:
  "zclient_wf z \<Longrightarrow> zregister z' = zregister z \<Longrightarrow> zvalues z' = zvalues z \<Longrightarrow> zclient_wf z'"
  by (simp add: zclient_wf_def)

lemma zigbee_wf_step:
  assumes "zclient_wf (zigbee (the_con R))" and "rt_step E R R'"
  shows "zclient_wf (zigbee (the_con R'))"
  using assms(2)
proof (cases rule: rt_step.cases)
  case (device_list pl ups z')
  with zclient_wf_deviceInfoHandler [OF assms(1), of pl] show ?thesis by simp
next
  case (callback before p rest after R1)
  then show ?thesis using assms(1)
    by (cases p) (auto simp: perform_simps zclient_wf_def z_store_def frame_simps split: option.splits)
next
  case (device_work st' L' c')
  then show ?thesis using zclient_wf_same [OF assms(1)] round_values(1) by (simp add: quiet_def)
next
  case (event_work st' c')
  then show ?thesis using zclient_wf_same [OF assms(1)] round_values(2) by (simp add: quiet_def)
next
  case (set_goroutines s')
  then show ?thesis using zclient_wf_same [OF assms(1)] internal_zigbee by simp
next
  case (refresh_request before device ds after ds' z')
  then show ?thesis using assms(1) refresh.keeps_wf [of E device ds "the_con R"] by simp
next
  case zigbee_connected
  then show ?thesis using zclient_wf_same [OF assms(1)] by (simp add: z_connect_frame)
qed (use assms(1) zclient_wf_same [OF assms(1)] in \<open>simp_all add: command_zigbee set_reg_def frame_simps\<close>)

lemma rt_reachable_zigbee: "rt_reachable E R \<Longrightarrow> zclient_wf (zigbee (the_con R))"
proof (induction rule: rt_reachable.induct)
  case (rt_begin c)
  then show ?case using zclient_wf_same [OF zclient_wf_new, of "zigbee c"]
    by (simp add: rt_start_def sys_start_def Start_zigbee new_zclient_def)
qed (rule zigbee_wf_step)

subsection \<open>The wait group\<close>

text \<open>The goroutines outside the registry that have joined the wait group and not left it.\<close>

definition members :: "runtime \<Rightarrow> int" where
  "members R = of_bool (zigbee_up R) + of_bool (gateway_up R) + of_bool (dstage R \<noteq> DvEnd)
     + of_bool (cstage R \<noteq> CmdEnd) + of_bool (estage R \<noteq> EvEnd) + int (length (refreshing (dloop R)))"

lemma device_round_frame:
  assumes "device_round E (st, L, c) (st', L', c')"
  shows "st \<noteq> DvEnd" "st \<noteq> DvWait" "st' \<noteq> DvEnd"
proof -
  show "st \<noteq> DvEnd" "st \<noteq> DvWait" using assms by (auto simp: device_round_def)
  show "st' \<noteq> DvEnd"
    using assms by (cases "(E, st, L, c)" rule: device_step.cases)
      (auto simp: device_round_def Let_def type_looked_up_def type_created_def
        split: list.splits prod.splits sum.splits if_splits)
qed

lemma event_round_frame:
  assumes "event_round E (st, c) (st', c')"
  shows "st \<noteq> EvEnd" "st \<noteq> EvWait" "st' \<noteq> EvEnd"
proof -
  show "st \<noteq> EvEnd" "st \<noteq> EvWait" using assms by (auto simp: event_round_def)
  show "st' \<noteq> EvEnd"
    using assms by (cases "(E, st, c)" rule: event_work.cases)
      (auto simp: event_round_def Let_def split: prod.splits sum.splits if_splits)
qed

lemma command_lookup_alive [simp]: "command_lookup d ieee c \<noteq> CmdEnd"
  by (simp add: command_lookup_def Let_def split: sum.split)

lemma perform_frame:
  assumes "perform E p R = Some R'"
  shows "others R' = others R" "cancelled R' = cancelled R" "estage R' = estage R" "dstage R' = dstage R"
    "cstage R' = cstage R" "zigbee_up R' = zigbee_up R" "gateway_up R' = gateway_up R" "dloop R' = dloop R"
    "watcher (protocol R') = watcher (protocol R)" "wg (protocol R') = wg (protocol R)"
    "delivering (protocol R') = delivering (protocol R)" "acks (the_con R') = acks (the_con R)"
  using assms by (cases p; auto simp: perform_simps split: option.splits)+

lemma perform_members:
  assumes "perform E p R = Some R'"
  shows "members R' = members R" and "is_open (protocol R') = is_open (protocol R)"
  by (simp_all add: members_def is_open_def perform_frame [OF assms])

lemma others_step:
  assumes "others R = members R" and "rt_step E R R'"
  shows "others R' = members R'"
  using assms(2)
proof (cases rule: rt_step.cases)
  case (callback before p rest after R1)
  then show ?thesis using assms(1) perform_members perform_frame [OF callback(3)] by (simp add: members_def)
next
  case (device_work st' L' c')
  then show ?thesis using assms(1) device_round_frame [OF device_work(2)] by (simp add: members_def spawned_def)
next
  case (event_work st' c')
  then show ?thesis using assms(1) event_round_frame [OF event_work(2)] by (simp add: members_def)
qed (use assms(1) in \<open>simp_all add: members_def\<close>)

lemma rt_reachable_others: "rt_reachable E R \<Longrightarrow> others R = members R"
proof (induction rule: rt_reachable.induct)
  case (rt_begin c)
  show ?case by (simp add: members_def rt_start_def device_loop_start_def)
qed (rule others_step)

definition all_ended :: "runtime \<Rightarrow> bool" where
  "all_ended R \<longleftrightarrow> \<not> zigbee_up R \<and> \<not> gateway_up R \<and> dstage R = DvEnd \<and> cstage R = CmdEnd \<and> estage R = EvEnd
     \<and> refreshing (dloop R) = [] \<and> \<not> watcher (protocol R) \<and> delivering (protocol R) = []"

lemma wait_count_sum:
  assumes "rt_reachable E R"
  shows "wait_count R = members R + of_bool (watcher (protocol R)) + int (length (delivering (protocol R)))"
  using rt_reachable_others [OF assms] reachable_wg [OF rt_refines [OF assms]]
  by (simp add: wait_count_def wg_ok_def)

lemma sum_zero:
  fixes a b :: int
  assumes "0 \<le> a" and "0 \<le> b"
  shows "0 \<le> a + b" and "a + b = 0 \<longleftrightarrow> a = 0 \<and> b = 0"
  using assms by auto

lemma count_ended:
  assumes "rt_reachable E R"
  shows "0 \<le> wait_count R" and "wait_count R = 0 \<longleftrightarrow> all_ended R"
  unfolding wait_count_sum [OF assms] members_def by (simp_all add: sum_zero all_ended_def)

lemma internal_delivering:
  assumes "internal E s s'" and "wg_ok s" and "\<not> watcher s" and "delivering s = []"
  shows "\<not> watcher s' \<and> delivering s' = []"
  using assms(1)
proof (cases rule: internal.cases)
  case (observe_end ieee pl st r matched r')
  then have "matched = []" using assms(2,3) by (auto simp: wg_ok_def observe_match_def)
  with observe_end assms show ?thesis by simp
qed (use assms in simp_all)

lemma command_protocol_frame [simp]:
  "delivering (finish_command E d ieee ex v s) = delivering s" "delivering (direct_command E d s) = delivering s"
  by (simp_all add: finish_command_def direct_command_def)

lemma ended_step:
  assumes "wg_ok (protocol R)" and "all_ended R" and "rt_step E R R'"
  shows "all_ended R'"
  using assms(3)
proof (cases rule: rt_step.cases)
  case (callback before p rest after R1)
  then show ?thesis using assms(2) perform_frame [OF callback(3)] by (simp add: all_ended_def)
next
  case (set_goroutines s')
  then show ?thesis using assms(1,2) internal_delivering by (simp add: all_ended_def)
next
  case (device_work st' L' c')
  then show ?thesis using assms(2) device_round_frame [OF device_work(2)] by (simp add: all_ended_def)
next
  case (event_work st' c')
  then show ?thesis using assms(2) event_round_frame [OF event_work(2)] by (simp add: all_ended_def)
qed (use assms(2) in \<open>auto simp: all_ended_def\<close>)

subsection \<open>Before the shutdown\<close>

definition running :: "runtime \<Rightarrow> bool" where
  "running R \<longleftrightarrow> is_open (protocol R) \<and> zigbee_up R \<and> gateway_up R \<and> dstage R \<noteq> DvEnd
     \<and> cstage R \<noteq> CmdEnd \<and> estage R \<noteq> EvEnd"

lemma begin_set_open [simp]: "is_open (begin_set ieee d ex l s) = is_open s"
proof -
  obtain t c' where reg: "set_register_with (length (commands s)) ieee d
    (ackExpectation (Data (cd_Command d)) ex l) (con s) = (t, c')" by fastforce
  then have "is_open (s\<lparr>con := c'\<rparr>) = is_open s"
    by (cases rule: register_with_cases) (auto simp: is_open_def dest: Register_open(4))
  with reg show ?thesis by (simp add: begin_set_def Let_def is_open_def)
qed

lemma is_open_acks: "acks c = acks (con s) \<Longrightarrow> is_open (s\<lparr>con := c\<rparr>) = is_open s"
  by (simp add: is_open_def)

lemma command_open [simp]:
  "is_open (finish_command E d ieee ex v s) = is_open s" "is_open (direct_command E d s) = is_open s"
  using value_answer.is_quiet [of "con s" E d v] quiet_command [of E d "con s" 0]
  by (auto simp: finish_command_def direct_command_def quiet_def is_open_acks)

lemma running_step:
  assumes "sys_inv (protocol R)" and "\<not> cancelled R \<longrightarrow> running R" and "rt_step E R R'"
  shows "\<not> cancelled R' \<longrightarrow> running R'"
  using assms(3)
proof (cases rule: rt_step.cases)
  case (callback before p rest after R1)
  then show ?thesis using assms(2) perform_members(2) [OF callback(3)] perform_frame [OF callback(3)] by (simp add: running_def)
next
  case (set_goroutines s')
  then show ?thesis using assms(1,2) internal_open by (simp add: running_def)
next
  case (device_work st' L' c')
  then show ?thesis using assms(2) device_round_frame [OF device_work(2)] round_values(1)
    by (simp add: running_def quiet_def is_open_acks)
next
  case (event_work st' c')
  then show ?thesis using assms(2) event_round_frame [OF event_work(2)] round_values(2)
    by (simp add: running_def quiet_def is_open_acks)
qed (use assms(2) in \<open>auto simp: running_def is_open_acks\<close>)

lemma rt_reachable_running: "rt_reachable E R \<Longrightarrow> \<not> cancelled R \<Longrightarrow> running R"
proof (induction rule: rt_reachable.induct)
  case (rt_begin c)
  then show ?case using Start_acks [OF rt_begin(1)]
    by (auto simp: running_def rt_start_def sys_start_def is_open_def newAckRegistry_def)
next
  case (rt_more R R')
  then show ?case using running_step [OF reachable_inv [OF rt_refines [OF rt_more(1)]] _ rt_more(2)] by blast
qed

end
