(* ===== verification/RuntimeRuns.thy ===== *)
theory RuntimeRuns
  imports RuntimeInvariants
begin

section \<open>What the running connector can always do\<close>

text \<open>
  Runs that the goroutines can make on their own, without another message, tick or command:
  a round of a loop can be finished, the mutex of the values is released, a command is handled
  to its end, and after the end of the context every goroutine can return. The one obstacle is
  \<open>event_jam\<close>: a callback that holds the mutex, a full event channel, and an event loop that has
  returned already.
\<close>

definition own_step :: "env \<Rightarrow> runtime \<Rightarrow> runtime \<Rightarrow> bool" where
  "own_step E R R' \<longleftrightarrow> rt_step E R R' \<and> posted R' = posted R \<and> commandbuffer R' = commandbuffer R
     \<and> cancelled R' = cancelled R"

interpretation rt: execution "rt_step E" "rt_reachable E" for E
  by unfold_locales (rule rt_more)

interpretation own: sub_execution "rt_step E" "rt_reachable E" "own_step E" for E
  by unfold_locales (simp add: own_step_def)

lemmas own_run_rt = own.sub_run

lemma own_run_frame:
  "(own_step E)\<^sup>*\<^sup>* R R' \<Longrightarrow> posted R' = posted R \<and> commandbuffer R' = commandbuffer R \<and> cancelled R' = cancelled R"
  by (induction rule: rtranclp_induct) (auto simp: own_step_def)

subsection \<open>Rounds\<close>

lemma lift_internal: "(internal E)\<^sup>*\<^sup>* (protocol R) s' \<Longrightarrow> (own_step E)\<^sup>*\<^sup>* R (R\<lparr>protocol := s'\<rparr>)"
proof (induction rule: rtranclp_induct)
  case (step s1 s2)
  then have "own_step E (R\<lparr>protocol := s1\<rparr>) (R\<lparr>protocol := s2\<rparr>)"
    using rt_step.set_goroutines [of E "R\<lparr>protocol := s1\<rparr>" s2] by (simp add: own_step_def)
  with step.IH show ?case by (rule rtranclp.rtrancl_into_rtrancl)
qed simp

lemma lift_event:
  "(event_round E)\<^sup>*\<^sup>* (estage R, the_con R) (st', c') \<Longrightarrow> (own_step E)\<^sup>*\<^sup>* R ((put_con c' R)\<lparr>estage := st'\<rparr>)"
proof (induction "(st', c')" arbitrary: st' c' rule: rtranclp_induct)
  case base
  then show ?case by (simp add: put_con_def)
next
  case (step s)
  obtain st1 c1 where s: "s = (st1, c1)" by fastforce
  let ?R1 = "(put_con c1 R)\<lparr>estage := st1\<rparr>"
  have "rt_step E ?R1 ((put_con c' ?R1)\<lparr>estage := st'\<rparr>)"
    using rt_step.event_work [of E ?R1 st' c'] step(2) s by simp
  then have "own_step E ?R1 ((put_con c' R)\<lparr>estage := st'\<rparr>)" by (simp add: own_step_def put_con_def)
  with step(3) [OF s] show ?case by (rule rtranclp.rtrancl_into_rtrancl)
qed

lemma lift_device:
  "(device_round E)\<^sup>*\<^sup>* (dstage R, dloop R, the_con R) (st', L', c') \<Longrightarrow>
     (own_step E)\<^sup>*\<^sup>* R ((put_con c' R)\<lparr>dstage := st', dloop := L', others := others R + spawned (dloop R) L'\<rparr>)"
proof (induction "(st', L', c')" arbitrary: st' L' c' rule: rtranclp_induct)
  case base
  then show ?case by (simp add: put_con_def spawned_def)
next
  case (step s)
  obtain st1 L1 c1 where s: "s = (st1, L1, c1)" by (metis prod_cases3)
  let ?R1 = "(put_con c1 R)\<lparr>dstage := st1, dloop := L1, others := others R + spawned (dloop R) L1\<rparr>"
  have "rt_step E ?R1 ((put_con c' ?R1)\<lparr>dstage := st', dloop := L', others := others ?R1 + spawned L1 L'\<rparr>)"
    using rt_step.device_work [of E ?R1 st' L' c'] step(2) s by simp
  then have "own_step E ?R1 ((put_con c' R)\<lparr>dstage := st', dloop := L', others := others R + spawned (dloop R) L'\<rparr>)"
    by (simp add: own_step_def put_con_def spawned_def)
  with step(3) [OF s] show ?case by (rule rtranclp.rtrancl_into_rtrancl)
qed

lemma event_loop_free:
  assumes "estage R \<noteq> EvEnd"
  obtains c' where "(own_step E)\<^sup>*\<^sup>* R ((put_con c' R)\<lparr>estage := EvWait\<rparr>)"
  using lift_event [OF event_round_ends [OF assms]] by blast

lemma reach_protocol_idle:
  assumes "rt_reachable E R"
  obtains s' where "(own_step E)\<^sup>*\<^sup>* R (R\<lparr>protocol := s'\<rparr>)" "idle s'"
proof -
  from reach_idle [OF reachable_inv [OF rt_refines [OF assms]]] obtain s' where
    "(internal E)\<^sup>*\<^sup>* (protocol R) s'" "idle s'" by blast
  with lift_internal that show thesis by blast
qed

subsection \<open>The mutex of the values\<close>

definition event_jam :: "runtime \<Rightarrow> bool" where
  "event_jam R \<longleftrightarrow> value_mux R \<noteq> None \<and> estage R = EvEnd \<and> buffer_size \<le> length (eventbuffer R)"

text \<open>The holder posts its event, after the event loop has made room if there is none.\<close>

lemma holder_posts:
  assumes "rt_reachable E R" and "value_mux R = Some event" and "length (eventbuffer R) < buffer_size"
  obtains R' where "own_step E R R'" "value_mux R' = None" "cstage R' = cstage R" "dstage R' = dstage R"
proof -
  have "PostEvent event \<in> hd ` set (filter in_section (callbacks R))"
    using rt_reachable_mux [OF assms(1)] assms(2) unfolding mux_inv_def mux_events_def
    by (metis (no_types, lifting) list.set_intros(1) list.set_map list.simps(9) option.simps(5))
  then obtain cb where cb: "cb \<in> set (callbacks R)" "in_section cb" "hd cb = PostEvent event" by auto
  from cb(2,3) obtain rest where "cb = PostEvent event # rest" by (cases cb) auto
  with cb obtain before after where cbs: "callbacks R = before @ (PostEvent event # rest) # after"
    by (meson split_list)
  let ?R1 = "R\<lparr>eventbuffer := eventbuffer R @ [event], handed := handed R @ [event], value_mux := None\<rparr>"
  have "perform E (PostEvent event) R = Some ?R1"
    using assms(3) by (simp add: perform_simps chan_send_def)
  from rt_step.callback [OF cbs this] have "own_step E R (?R1\<lparr>callbacks := before @ rest # after\<rparr>)"
    by (simp add: own_step_def)
  from that [OF this] show thesis by simp
qed

lemma free_mutex:
  assumes "rt_reachable E R" and "\<not> event_jam R"
  shows "\<exists>R'. (own_step E)\<^sup>*\<^sup>* R R' \<and> value_mux R' = None \<and> cstage R' = cstage R \<and> dstage R' = dstage R"
proof (cases "value_mux R")
  case (Some event)
  show ?thesis
  proof (cases "length (eventbuffer R) < buffer_size")
    case True
    from holder_posts [OF assms(1) Some this] show ?thesis by (metis r_into_rtranclp)
  next
    case False
    then have "estage R \<noteq> EvEnd" using assms(2) Some by (auto simp: event_jam_def)
    from event_loop_free [OF this] obtain c where run: "(own_step E)\<^sup>*\<^sup>* R ((put_con c R)\<lparr>estage := EvWait\<rparr>)" .
    let ?R1 = "(put_con c R)\<lparr>estage := EvWait\<rparr>"
    from False obtain e buf where buf: "eventbuffer R = e # buf"
      by (cases "eventbuffer R") (auto simp: buffer_size_def)
    let ?R2 = "?R1\<lparr>estage := EvCheck e, eventbuffer := buf, seen := seen ?R1 @ [e]\<rparr>"
    have step: "own_step E ?R1 ?R2"
      using rt_step.event_take [of ?R1 e buf E] buf by (simp add: own_step_def)
    have reach: "rt_reachable E ?R2"
      using own.sub.reach_step own.sub.reach_run [OF run assms(1)] step by blast
    have "length (eventbuffer ?R2) < buffer_size"
      using rt_reachable_inv [OF assms(1)] buf by (simp add: rt_inv_def)
    from holder_posts [OF reach _ this] Some obtain R3 where
      "own_step E ?R2 R3" "value_mux R3 = None" "cstage R3 = cstage R" "dstage R3 = dstage R" by auto
    with run step show ?thesis by (meson rtranclp.rtrancl_into_rtrancl)
  qed
qed blast

subsection \<open>The command loop\<close>

text \<open>The command loop has nothing at hand: it waits for a command or has returned.\<close>

definition between_commands :: "runtime \<Rightarrow> bool" where
  "between_commands R \<longleftrightarrow> cstage R = CmdWait \<and> idle (protocol R)"

definition wants_value :: "command_stage \<Rightarrow> bool" where
  "wants_value st \<longleftrightarrow> (case st of CmdLookup d \<Rightarrow> True | CmdLock d ieee ex device \<Rightarrow> True | _ \<Rightarrow> False)"

lemma then_idle:
  assumes "rt_reachable E R" and "(own_step E)\<^sup>*\<^sup>* R R1" and "cstage R1 = CmdWait" and "dstage R1 = dstage R"
  shows "\<exists>R'. (own_step E)\<^sup>*\<^sup>* R R' \<and> between_commands R' \<and> dstage R' = dstage R"
proof -
  from reach_protocol_idle [OF own.sub.reach_run [OF assms(2,1)]] obtain s' where
    "(own_step E)\<^sup>*\<^sup>* R1 (R1\<lparr>protocol := s'\<rparr>)" "idle s'" .
  with assms(2-4) show ?thesis
    by (intro exI [of _ "R1\<lparr>protocol := s'\<rparr>"]) (auto simp: between_commands_def)
qed

lemma value_known:
  assumes "rt_reachable E R" and "(own_step E)\<^sup>*\<^sup>* R R1" and "cstage R1 = CmdValue d ieee ex v" and "dstage R1 = dstage R"
  shows "\<exists>R'. (own_step E)\<^sup>*\<^sup>* R R' \<and> between_commands R' \<and> dstage R' = dstage R"
proof -
  let ?R2 = "R1\<lparr>cstage := CmdWait, protocol := finish_command E d ieee ex v (protocol R1)\<rparr>"
  have "own_step E R1 ?R2" using rt_step.command_finish [OF assms(3), of E] by (simp add: own_step_def)
  with assms(2) have "(own_step E)\<^sup>*\<^sup>* R ?R2" by (rule rtranclp.rtrancl_into_rtrancl)
  from then_idle [OF assms(1) this] assms(4) show ?thesis by simp
qed

lemma lock_waits:
  assumes "rt_reachable E R" and "(own_step E)\<^sup>*\<^sup>* R R1" and "cstage R1 = CmdLock d ieee ex device"
    and "dstage R1 = dstage R" and "\<not> event_jam R1"
  shows "\<exists>R'. (own_step E)\<^sup>*\<^sup>* R R' \<and> between_commands R' \<and> dstage R' = dstage R"
proof -
  from free_mutex [OF own.sub.reach_run [OF assms(2,1)] assms(5)] obtain R2 where
    R2: "(own_step E)\<^sup>*\<^sup>* R1 R2" "value_mux R2 = None" "cstage R2 = cstage R1" "dstage R2 = dstage R1" by blast
  let ?R3 = "R2\<lparr>cstage := CmdValue d ieee ex (z_Get device (zigbee (the_con R2)))\<rparr>"
  have "own_step E R2 ?R3"
    using rt_step.command_read [of R2 d ieee ex device E] R2 assms(3) by (simp add: own_step_def)
  with assms(2) R2(1) have "(own_step E)\<^sup>*\<^sup>* R ?R3" by (meson rtranclp_trans rtranclp.rtrancl_into_rtrancl)
  from value_known [OF assms(1) this] R2(4) assms(4) show ?thesis by simp
qed

lemma command_loop_free:
  assumes reach: "rt_reachable E R" and "cstage R \<noteq> CmdEnd" and jam: "\<not> (event_jam R \<and> wants_value (cstage R))"
  shows "\<exists>R'. (own_step E)\<^sup>*\<^sup>* R R' \<and> between_commands R' \<and> dstage R' = dstage R"
proof (cases "cstage R")
  case CmdWait
  with then_idle [OF reach, of R] show ?thesis by simp
next
  case (CmdLookup d)
  show ?thesis
  proof (cases "needs_value E d (the_con R)")
    case None
    have "own_step E R (R\<lparr>cstage := CmdWait, protocol := direct_command E d (protocol R)\<rparr>)"
      using rt_step.command_direct [OF CmdLookup None] by (simp add: own_step_def)
    from then_idle [OF reach r_into_rtranclp [where r = "own_step E", OF this]] show ?thesis by simp
  next
    case (Some ieee)
    let ?R1 = "R\<lparr>cstage := command_lookup d ieee (the_con R)\<rparr>"
    have "own_step E R ?R1"
      using rt_step.command_lookup [OF CmdLookup Some] by (simp add: own_step_def)
    note run = r_into_rtranclp [where r = "own_step E", OF this]
    have "\<not> event_jam ?R1" using jam CmdLookup by (simp add: wants_value_def event_jam_def)
    with value_known [OF reach run] lock_waits [OF reach run] show ?thesis
      by (cases "command_lookup d ieee (the_con R)") (auto simp: command_lookup_def Let_def split: sum.splits)
  qed
next
  case (CmdLock d ieee ex device)
  with jam lock_waits [OF reach rtranclp.rtrancl_refl CmdLock] show ?thesis by (simp add: wants_value_def)
next
  case (CmdValue d ieee ex v)
  with value_known [OF reach rtranclp.rtrancl_refl] show ?thesis by blast
qed (use assms(2) in simp)

subsection \<open>Emptying the command channel\<close>

lemma no_jam_running:
  assumes "rt_reachable E R" and "\<not> cancelled R"
  shows "\<not> event_jam R" and "cstage R \<noteq> CmdEnd" and "is_open (protocol R)"
  using rt_reachable_running [OF assms] by (simp_all add: running_def event_jam_def)

lemma empty_commands:
  assumes "rt_reachable E R" and "\<not> cancelled R"
  shows "\<exists>R'. (rt_step E)\<^sup>*\<^sup>* R R' \<and> commandbuffer R' = [] \<and> posted R' = posted R \<and> between_commands R'
    \<and> \<not> cancelled R'"
  using assms
proof (induction "length (commandbuffer R)" arbitrary: R)
  case 0
  from command_loop_free [OF 0(2) no_jam_running(2) [OF 0(2,3)]] no_jam_running(1) [OF 0(2,3)] obtain R' where
    R': "(own_step E)\<^sup>*\<^sup>* R R'" "between_commands R'" by blast
  with own_run_frame [OF R'(1)] own_run_rt [OF R'(1)] 0 show ?case by auto
next
  case (Suc n)
  from command_loop_free [OF Suc(3) no_jam_running(2) [OF Suc(3,4)]] no_jam_running(1) [OF Suc(3,4)] obtain R1 where
    R1: "(own_step E)\<^sup>*\<^sup>* R R1" "between_commands R1" by blast
  note frame = own_run_frame [OF R1(1)]
  from Suc(2) frame obtain d buf where buf: "commandbuffer R1 = d # buf" "length buf = n"
    by (cases "commandbuffer R") auto
  let ?R2 = "R1\<lparr>cstage := CmdLookup d, commandbuffer := buf, taken := taken R1 @ [d]\<rparr>"
  have "rt_step E R1 ?R2"
    using rt_step.command_take [of R1 d buf E] buf R1(2) by (simp add: between_commands_def idle_def)
  with own_run_rt [OF R1(1)] have run: "(rt_step E)\<^sup>*\<^sup>* R ?R2" by (rule rtranclp.rtrancl_into_rtrancl)
  have "n = length (commandbuffer ?R2)" "\<not> cancelled ?R2" using buf frame Suc(4) by simp_all
  from Suc(1) [OF this(1) rt.reach_run [OF run Suc(3)] this(2)] obtain R' where
    R': "(rt_step E)\<^sup>*\<^sup>* ?R2 R'" "commandbuffer R' = []" "posted R' = posted R1" "between_commands R'" "\<not> cancelled R'"
    by auto
  from run R'(1) have "(rt_step E)\<^sup>*\<^sup>* R R'" by (rule rtranclp_trans)
  with R' frame show ?case by (intro exI [of _ R']) simp
qed

subsection \<open>The shutdown\<close>

text \<open>What has ended stays ended.\<close>

definition further :: "runtime \<Rightarrow> runtime \<Rightarrow> bool" where
  "further R R' \<longleftrightarrow> (cancelled R \<longrightarrow> cancelled R')
     \<and> (dstage R = DvEnd \<longrightarrow> dstage R' = DvEnd \<and> (refreshing (dloop R) = [] \<longrightarrow> refreshing (dloop R') = []))
     \<and> (cstage R = CmdEnd \<longrightarrow> cstage R' = CmdEnd) \<and> (estage R = EvEnd \<longrightarrow> estage R' = EvEnd)
     \<and> (\<not> zigbee_up R \<longrightarrow> \<not> zigbee_up R') \<and> (\<not> gateway_up R \<longrightarrow> \<not> gateway_up R')
     \<and> (\<not> watcher (protocol R) \<longrightarrow> \<not> watcher (protocol R'))"

lemma further_refl [simp]: "further R R"
  by (simp add: further_def)

lemma further_trans: "further R R' \<Longrightarrow> further R' R'' \<Longrightarrow> further R R''"
  by (simp add: further_def)

lemma internal_watcher: "internal E s s' \<Longrightarrow> watcher s' = watcher s"
  by (erule internal.cases) simp_all

lemma further_step:
  assumes "rt_step E R R'"
  shows "further R R'"
  using assms
proof (cases rule: rt_step.cases)
  case (callback before p rest after R1)
  then show ?thesis using perform_frame [OF callback(3)] by (simp add: further_def)
next
  case (device_work st' L' c')
  then show ?thesis using device_round_frame [OF device_work(2)] by (simp add: further_def)
next
  case (event_work st' c')
  then show ?thesis using event_round_frame [OF event_work(2)] by (simp add: further_def)
next
  case (set_goroutines s')
  then show ?thesis using internal_watcher by (simp add: further_def)
qed (auto simp: further_def)

lemma further_run: "(rt_step E)\<^sup>*\<^sup>* R R' \<Longrightarrow> further R R'"
  by (induction rule: rtranclp_induct) (auto intro: further_trans further_step)

text \<open>The parts of the shutdown, each from any state after the end of the context.\<close>

lemma end_commands:
  assumes "rt_reachable E R" and "cancelled R" and "\<not> (event_jam R \<and> wants_value (cstage R))"
  shows "\<exists>R'. (rt_step E)\<^sup>*\<^sup>* R R' \<and> cstage R' = CmdEnd"
proof (cases "cstage R = CmdEnd")
  case False
  from command_loop_free [OF assms(1) False assms(3)] obtain R1 where
    R1: "(own_step E)\<^sup>*\<^sup>* R R1" "between_commands R1" by blast
  have "rt_step E R1 (R1\<lparr>cstage := CmdEnd, others := others R1 - 1\<rparr>)"
    using rt_step.command_stop [of R1 E] R1(2) own_run_frame [OF R1(1)] assms(2)
    by (simp add: between_commands_def idle_def)
  with own_run_rt [OF R1(1)] have "(rt_step E)\<^sup>*\<^sup>* R (R1\<lparr>cstage := CmdEnd, others := others R1 - 1\<rparr>)"
    by (rule rtranclp.rtrancl_into_rtrancl)
  then show ?thesis by (intro exI [of _ "R1\<lparr>cstage := CmdEnd, others := others R1 - 1\<rparr>"]) simp
qed blast

lemma end_events:
  assumes "cancelled R"
  shows "\<exists>R'. (rt_step E)\<^sup>*\<^sup>* R R' \<and> estage R' = EvEnd"
proof (cases "estage R = EvEnd")
  case False
  from event_loop_free [OF this] obtain c where run: "(own_step E)\<^sup>*\<^sup>* R ((put_con c R)\<lparr>estage := EvWait\<rparr>)" .
  let ?R1 = "(put_con c R)\<lparr>estage := EvWait\<rparr>"
  have "rt_step E ?R1 (?R1\<lparr>estage := EvEnd, others := others ?R1 - 1\<rparr>)"
    using rt_step.event_stop [of ?R1 E] assms by simp
  with own_run_rt [OF run] have "(rt_step E)\<^sup>*\<^sup>* R (?R1\<lparr>estage := EvEnd, others := others ?R1 - 1\<rparr>)"
    by (rule rtranclp.rtrancl_into_rtrancl)
  then show ?thesis by (intro exI [of _ "?R1\<lparr>estage := EvEnd, others := others ?R1 - 1\<rparr>"]) simp
qed blast

text \<open>The device loop first: the other loops have not moved when it has returned.\<close>

lemma end_devices:
  assumes "cancelled R" and "device_rest E (dstage R) (dloop R) (the_con R) \<noteq> None"
  shows "\<exists>R'. (rt_step E)\<^sup>*\<^sup>* R R' \<and> dstage R' = DvEnd \<and> cstage R' = cstage R \<and> event_jam R' = event_jam R"
proof (cases "dstage R = DvEnd")
  case False
  from assms(2) obtain L' c' where *: "device_rest E (dstage R) (dloop R) (the_con R) = Some (L', c')" by auto
  let ?R1 = "(put_con c' R)\<lparr>dstage := DvWait, dloop := L', others := others R + spawned (dloop R) L'\<rparr>"
  have run: "(own_step E)\<^sup>*\<^sup>* R ?R1" by (rule lift_device [OF device_round_ends [OF False *]])
  have "rt_step E ?R1 (?R1\<lparr>dstage := DvEnd, others := others ?R1 - 1\<rparr>)"
    using rt_step.device_stop [of ?R1 E] assms(1) by simp
  with own_run_rt [OF run] have "(rt_step E)\<^sup>*\<^sup>* R (?R1\<lparr>dstage := DvEnd, others := others ?R1 - 1\<rparr>)"
    by (rule rtranclp.rtrancl_into_rtrancl)
  then show ?thesis
    by (intro exI [of _ "?R1\<lparr>dstage := DvEnd, others := others ?R1 - 1\<rparr>"]) (simp add: event_jam_def)
qed blast

lemma end_refreshes:
  assumes "rt_reachable E R"
  shows "\<exists>R'. (rt_step E)\<^sup>*\<^sup>* R R' \<and> refreshing (dloop R') = []"
proof -
  let ?w = "\<lambda>R. sum_list (map (\<lambda>l. Suc (length l)) (refreshing (dloop R)))"
  have "\<exists>R'. rt_step E R R' \<and> ?w R' < ?w R" if "refreshing (dloop R) \<noteq> []" for R
  proof -
    from that obtain l after where l: "refreshing (dloop R) = [] @ l # after" by (cases "refreshing (dloop R)") auto
    show ?thesis
    proof (cases l)
      case Nil
      with rt_step.recovered_done [of R "[]" after E] l show ?thesis by fastforce
    next
      case (Cons device ds)
      with rt_step.recovered_request [of R "[]" device ds after E] l show ?thesis by fastforce
    qed
  qed
  from rt.progress [OF assms, of "\<lambda>R. refreshing (dloop R) = []" ?w] this show ?thesis by blast
qed

lemma end_clients:
  assumes "cancelled R"
  shows "\<exists>R'. (rt_step E)\<^sup>*\<^sup>* R R' \<and> \<not> zigbee_up R' \<and> \<not> gateway_up R'"
proof -
  obtain R1 where R1: "(rt_step E)\<^sup>*\<^sup>* R R1" "\<not> zigbee_up R1"
  proof (cases "zigbee_up R")
    case True
    let ?R1 = "R\<lparr>zigbee_up := False, others := others R - 1\<rparr>"
    have "(rt_step E)\<^sup>*\<^sup>* R ?R1" by (rule r_into_rtranclp) (rule rt_step.zigbee_disconnect [OF assms True])
    with that [of ?R1] show thesis by simp
  qed (use that in blast)
  have "cancelled R1" using further_run [OF R1(1)] assms by (simp add: further_def)
  show ?thesis
  proof (cases "gateway_up R1")
    case True
    from R1(1) rt_step.gateway_disconnect [OF \<open>cancelled R1\<close> True] have
      "(rt_step E)\<^sup>*\<^sup>* R (R1\<lparr>gateway_up := False, others := others R1 - 1\<rparr>)" by (rule rtranclp.rtrancl_into_rtrancl)
    with R1(2) show ?thesis by (intro exI [of _ "R1\<lparr>gateway_up := False, others := others R1 - 1\<rparr>"]) simp
  qed (use R1 in blast)
qed

lemma watcher_registry: "reachable E s \<Longrightarrow> watcher s \<Longrightarrow> acks (con s) \<noteq> None"
proof (induction rule: reachable.induct)
  case (step s s')
  have "acks (con s') = None \<longleftrightarrow> acks (con s) = None"
    using sys_inv_step [OF step(2) reachable_inv [OF step(1)]] by (auto simp: closed_le_def)
  moreover have "watcher s"
    using step(2,4) internal_watcher by (auto simp: step_def elim: external.cases)
  ultimately show ?case using step.IH by simp
qed (simp add: sys_start_def)

lemma end_registry:
  assumes "rt_reachable E R" and "cancelled R"
  shows "\<exists>R'. (rt_step E)\<^sup>*\<^sup>* R R' \<and> \<not> watcher (protocol R')"
proof (cases "watcher (protocol R)")
  case True
  from watcher_registry [OF rt_refines [OF assms(1)] True] obtain r where r: "acks (the_con R) = Some r" by blast
  obtain R1 r1 where R1: "(rt_step E)\<^sup>*\<^sup>* R R1" "cancelled R1" "acks (the_con R1) = Some r1" "watcher (protocol R1)" "ack_closed r1"
  proof (cases "ack_closed r")
    case False
    from rt_step.registry_close [OF assms(2) r True False] have
      "(rt_step E)\<^sup>*\<^sup>* R (R\<lparr>protocol := set_reg (ack_close r) (protocol R)\<rparr>)" by (rule r_into_rtranclp)
    moreover have "ack_wf r" using reachable_inv [OF rt_refines [OF assms(1)]] r
      by (simp add: sys_inv_def reg_inv_Some)
    ultimately show thesis using that [of "R\<lparr>protocol := set_reg (ack_close r) (protocol R)\<rparr>" "ack_close r"]
        assms(2) True ack_close_result by simp
  qed (use that r True assms(2) in blast)
  from R1(1) rt_step.registry_done [OF R1(2-5)] have
    "(rt_step E)\<^sup>*\<^sup>* R (R1\<lparr>protocol := (protocol R1)\<lparr>watcher := False, wg := wg (protocol R1) - 1\<rparr>\<rparr>)"
    by (rule rtranclp.rtrancl_into_rtrancl)
  then show ?thesis
    by (intro exI [of _ "R1\<lparr>protocol := (protocol R1)\<lparr>watcher := False, wg := wg (protocol R1) - 1\<rparr>\<rparr>"]) simp
qed blast

lemma shutdown_ends:
  assumes "rt_reachable E R" and "cancelled R" and "device_rest E (dstage R) (dloop R) (the_con R) \<noteq> None"
    and "\<not> (event_jam R \<and> wants_value (cstage R))"
  shows "\<exists>R'. (rt_step E)\<^sup>*\<^sup>* R R' \<and> all_ended R'"
proof -
  note F = further_run [of E]
  from end_devices [OF assms(2,3)] obtain R1 where
    R1: "(rt_step E)\<^sup>*\<^sup>* R R1" "dstage R1 = DvEnd" "cstage R1 = cstage R" "event_jam R1 = event_jam R" by blast
  have r1: "rt_reachable E R1" "cancelled R1"
    using rt.reach_run [OF R1(1) assms(1)] F [OF R1(1)] assms(2) by (simp_all add: further_def)
  from end_commands [OF r1] R1(3,4) assms(4) obtain R2 where R2: "(rt_step E)\<^sup>*\<^sup>* R1 R2" "cstage R2 = CmdEnd" by auto
  have r2: "rt_reachable E R2" "cancelled R2" "dstage R2 = DvEnd"
    using rt.reach_run [OF R2(1) r1(1)] F [OF R2(1)] r1(2) R1(2) by (simp_all add: further_def)
  from end_events [OF r2(2)] obtain R3 where R3: "(rt_step E)\<^sup>*\<^sup>* R2 R3" "estage R3 = EvEnd" by blast
  note r3 = rt.reach_run [OF R3(1) r2(1)]
  from end_refreshes [OF r3] obtain R4 where R4: "(rt_step E)\<^sup>*\<^sup>* R3 R4" "refreshing (dloop R4) = []" by blast
  have "(rt_step E)\<^sup>*\<^sup>* R2 R4" using R3(1) R4(1) by (rule rtranclp_trans)
  from F [OF this] F [OF R4(1)] r2 R2(2) R3(2) have r4: "cancelled R4" "dstage R4 = DvEnd" "cstage R4 = CmdEnd" "estage R4 = EvEnd"
    by (simp_all add: further_def)
  from end_clients [OF r4(1)] obtain R5 where R5: "(rt_step E)\<^sup>*\<^sup>* R4 R5" "\<not> zigbee_up R5" "\<not> gateway_up R5" by blast
  from F [OF R5(1)] r4 R4(2) have r5: "cancelled R5" "dstage R5 = DvEnd" "cstage R5 = CmdEnd" "estage R5 = EvEnd"
    "refreshing (dloop R5) = []" by (simp_all add: further_def)
  have reach5: "rt_reachable E R5" using rt.reach_run [OF R5(1) rt.reach_run [OF R4(1) r3]] .
  from end_registry [OF this r5(1)] obtain R6 where R6: "(rt_step E)\<^sup>*\<^sup>* R5 R6" "\<not> watcher (protocol R6)" by blast
  from F [OF R6(1)] r5 R5(2,3) have r6: "dstage R6 = DvEnd" "cstage R6 = CmdEnd" "estage R6 = EvEnd"
    "refreshing (dloop R6) = []" "\<not> zigbee_up R6" "\<not> gateway_up R6" by (simp_all add: further_def)
  from reach_protocol_idle [OF rt.reach_run [OF R6(1) reach5]] obtain s' where
    R7: "(own_step E)\<^sup>*\<^sup>* R6 (R6\<lparr>protocol := s'\<rparr>)" "idle s'" .
  have "all_ended (R6\<lparr>protocol := s'\<rparr>)"
    using R7(2) r6 R6(2) F [OF own_run_rt [OF R7(1)]] by (simp add: all_ended_def idle_def further_def)
  moreover have "(rt_step E)\<^sup>*\<^sup>* R (R6\<lparr>protocol := s'\<rparr>)"
    using R1(1) R2(1) R3(1) R4(1) R5(1) R6(1) own_run_rt [OF R7(1)] by (meson rtranclp_trans)
  ultimately show ?thesis by blast
qed

text \<open>In the jam a command loop that waits for the mutex waits for ever.\<close>

lemma jam_step:
  assumes "event_jam R" and "cstage R = CmdLock d ieee ex device" and "rt_step E R R'"
  shows "event_jam R' \<and> cstage R' = CmdLock d ieee ex device"
  using assms(3)
proof (cases rule: rt_step.cases)
  case (callback before p rest after R1)
  then show ?thesis using assms(1,2)
    by (cases p) (auto simp: event_jam_def perform_simps chan_send_def split: option.splits if_splits)
qed (use assms(1,2) in \<open>auto simp: event_jam_def dest: event_round_frame(1)\<close>)

lemma jam_forever:
  assumes "(rt_step E)\<^sup>*\<^sup>* R R'" and "event_jam R" and "cstage R = CmdLock d ieee ex device"
  shows "event_jam R' \<and> cstage R' = CmdLock d ieee ex device"
  using assms by (induction rule: rtranclp_induct) (auto dest: jam_step)

end
