(* ===== verification/FairRuns.thy ===== *)
theory FairRuns
  imports Prelude
begin

section \<open>Fair runs\<close>

text \<open>
  What happens in every run in which no goroutine is neglected for ever. A run is an infinite
  sequence of states, each followed by the next one by a step or unchanged.
\<close>

definition run_of :: "('s \<Rightarrow> 's \<Rightarrow> bool) \<Rightarrow> (nat \<Rightarrow> 's) \<Rightarrow> bool" where
  "run_of step \<sigma> \<longleftrightarrow> (\<forall>i. \<sigma> (Suc i) = \<sigma> i \<or> step (\<sigma> i) (\<sigma> (Suc i)))"

definition leads_to :: "(nat \<Rightarrow> 's) \<Rightarrow> ('s \<Rightarrow> bool) \<Rightarrow> ('s \<Rightarrow> bool) \<Rightarrow> bool" where
  "leads_to \<sigma> P Q \<longleftrightarrow> (\<forall>i. P (\<sigma> i) \<longrightarrow> (\<exists>j\<ge>i. Q (\<sigma> j)))"

text \<open>
  Weak fairness: what can be done from some time on without interruption is done. Strong
  fairness: what can be done again and again is done.
\<close>

definition weakly_fair :: "('s \<Rightarrow> 's \<Rightarrow> bool) \<Rightarrow> (nat \<Rightarrow> 's) \<Rightarrow> bool" where
  "weakly_fair act \<sigma> \<longleftrightarrow> (\<forall>i. (\<forall>j\<ge>i. \<exists>s. act (\<sigma> j) s) \<longrightarrow> (\<exists>j\<ge>i. act (\<sigma> j) (\<sigma> (Suc j))))"

definition strongly_fair :: "('s \<Rightarrow> 's \<Rightarrow> bool) \<Rightarrow> (nat \<Rightarrow> 's) \<Rightarrow> bool" where
  "strongly_fair act \<sigma> \<longleftrightarrow>
     (\<forall>i. (\<forall>j\<ge>i. \<exists>k\<ge>j. \<exists>s. act (\<sigma> k) s) \<longrightarrow> (\<exists>j\<ge>i. act (\<sigma> j) (\<sigma> (Suc j))))"

lemma leads_toI: "(\<And>i. P (\<sigma> i) \<Longrightarrow> \<exists>j\<ge>i. Q (\<sigma> j)) \<Longrightarrow> leads_to \<sigma> P Q"
  by (simp add: leads_to_def)

lemma leads_toD: "leads_to \<sigma> P Q \<Longrightarrow> P (\<sigma> i) \<Longrightarrow> \<exists>j\<ge>i. Q (\<sigma> j)"
  by (simp add: leads_to_def)

lemma leads_to_trans:
  assumes "leads_to \<sigma> P Q" and "leads_to \<sigma> Q S"
  shows "leads_to \<sigma> P S"
  using assms unfolding leads_to_def by (meson order_trans)

lemma strongly_weakly_fair: "strongly_fair act \<sigma> \<Longrightarrow> weakly_fair act \<sigma>"
  unfolding strongly_fair_def weakly_fair_def by (meson order_refl order_trans)

text \<open>If the measure can always be decreased or the goal be reached, the goal is reached.\<close>

lemma leads_to_measure:
  fixes m :: "'s \<Rightarrow> nat"
  assumes "\<And>k. leads_to \<sigma> (\<lambda>s. P s \<and> m s = k) (\<lambda>s. Q s \<or> P s \<and> m s < k)"
  shows "leads_to \<sigma> P Q"
proof (rule leads_toI)
  fix i assume "P (\<sigma> i)"
  then show "\<exists>j\<ge>i. Q (\<sigma> j)"
  proof (induction "m (\<sigma> i)" arbitrary: i rule: less_induct)
    case less
    from leads_toD [OF assms [of "m (\<sigma> i)"], of i] less.prems obtain j where
      j: "j \<ge> i" "Q (\<sigma> j) \<or> P (\<sigma> j) \<and> m (\<sigma> j) < m (\<sigma> i)" by auto
    show ?case
    proof (cases "Q (\<sigma> j)")
      case False
      with j less.hyps [of j] obtain k where "k \<ge> j" "Q (\<sigma> k)" by blast
      with j(1) show ?thesis by (meson order_trans)
    qed (use j(1) in blast)
  qed
qed

text \<open>Goroutines as labels of steps, and the two rules of progress under fairness.\<close>

locale scheduled = execution +
  fixes acts :: "'g \<Rightarrow> 's \<Rightarrow> 's \<Rightarrow> bool"
  assumes acts_step: "acts g s s' \<Longrightarrow> step s s'"
begin

lemma run_reach: "run_of step \<sigma> \<Longrightarrow> reach (\<sigma> 0) \<Longrightarrow> reach (\<sigma> i)"
proof (induction i)
  case (Suc i)
  then show ?case using reach_step [of "\<sigma> i" "\<sigma> (Suc i)"] by (auto simp: run_of_def dest: spec [of _ i])
qed simp

lemma run_later:
  assumes run: "run_of step \<sigma>" "reach (\<sigma> 0)" and "i \<le> j" and "\<And>s. T s s"
    and "\<And>s s' s''. T s s' \<Longrightarrow> reach s' \<Longrightarrow> step s' s'' \<Longrightarrow> T s s''"
  shows "T (\<sigma> i) (\<sigma> j)"
  using assms(3)
proof (induction j rule: dec_induct)
  case (step j)
  then show ?case using run(1) assms(5) run_reach [OF run, of j] by (metis run_of_def)
qed (rule assms(4))

lemma run_stays:
  assumes run: "run_of step \<sigma>" and inv: "\<And>i. I (\<sigma> i)"
    and keeps: "\<And>s s'. I s \<Longrightarrow> I s' \<Longrightarrow> P s \<Longrightarrow> step s s' \<Longrightarrow> P s' \<or> Q s'"
    and "P (\<sigma> i)" and "\<And>j. j \<ge> i \<Longrightarrow> \<not> Q (\<sigma> j)" and "i \<le> j"
  shows "P (\<sigma> j)"
  using assms(6)
proof (induction j rule: dec_induct)
  case (step j)
  then show ?case using run keeps inv assms(5) [of "Suc j"] by (metis run_of_def le_SucI)
qed (rule assms(4))

text \<open>\<open>I\<close> holds in the whole run.\<close>

lemma strong_progress:
  assumes run: "run_of step \<sigma>" and inv: "\<And>i. I (\<sigma> i)" and fair: "strongly_fair (acts g) \<sigma>"
    and keeps: "\<And>s s'. I s \<Longrightarrow> I s' \<Longrightarrow> P s \<Longrightarrow> step s s' \<Longrightarrow> P s' \<or> Q s'"
    and helps: "\<And>s s'. I s \<Longrightarrow> I s' \<Longrightarrow> P s \<Longrightarrow> acts g s s' \<Longrightarrow> Q s'"
    and enabled: "leads_to \<sigma> P (\<lambda>s. P s \<longrightarrow> (\<exists>s'. acts g s s'))"
  shows "leads_to \<sigma> P Q"
proof (rule leads_toI, rule ccontr)
  fix i assume i: "P (\<sigma> i)" and never: "\<not> (\<exists>j\<ge>i. Q (\<sigma> j))"
  then have stays: "P (\<sigma> j)" if "j \<ge> i" for j
    using run_stays [of \<sigma> I P Q i j] run inv keeps that by blast
  have "\<exists>k\<ge>j. \<exists>s. acts g (\<sigma> k) s" if "j \<ge> i" for j
    using leads_toD [OF enabled stays [OF that]] stays that by (meson order_trans)
  with fair obtain j where "j \<ge> i" "acts g (\<sigma> j) (\<sigma> (Suc j))"
    unfolding strongly_fair_def by meson
  with helps stays inv never show False by (meson le_SucI)
qed

lemma weak_progress:
  assumes run: "run_of step \<sigma>" and inv: "\<And>i. I (\<sigma> i)" and fair: "weakly_fair (acts g) \<sigma>"
    and keeps: "\<And>s s'. I s \<Longrightarrow> I s' \<Longrightarrow> P s \<Longrightarrow> step s s' \<Longrightarrow> P s' \<or> Q s'"
    and helps: "\<And>s s'. I s \<Longrightarrow> I s' \<Longrightarrow> P s \<Longrightarrow> acts g s s' \<Longrightarrow> Q s'"
    and enabled: "\<And>s. I s \<Longrightarrow> P s \<Longrightarrow> \<exists>s'. acts g s s'"
  shows "leads_to \<sigma> P Q"
proof (rule leads_toI, rule ccontr)
  fix i assume i: "P (\<sigma> i)" and never: "\<not> (\<exists>j\<ge>i. Q (\<sigma> j))"
  then have stays: "P (\<sigma> j)" if "j \<ge> i" for j
    using run_stays [of \<sigma> I P Q i j] run inv keeps that by blast
  then have "\<forall>j\<ge>i. \<exists>s. acts g (\<sigma> j) s" using enabled inv by blast
  with fair obtain j where "j \<ge> i" "acts g (\<sigma> j) (\<sigma> (Suc j))"
    unfolding weakly_fair_def by meson
  with helps stays inv never show False by (meson le_SucI)
qed

end

end
