(* ===== verification/ProtocolFairness.thy ===== *)
theory ProtocolFairness
  imports SetProtocol
begin

section \<open>The way of a command through the goroutines\<close>

text \<open>
  Once the command loop has let go of a command, its number is with an entry of the registry, with
  one of the goroutines that take an entry, or with an answer, and each step leaves it there or
  moves it on.
\<close>

definition waiting :: "pendingAck \<Rightarrow> sys \<Rightarrow> bool" where
  "waiting e s \<longleftrightarrow> (\<exists>r. acks (con s) = Some r \<and> e \<in> set (entries r))"

definition timed :: "pendingAck \<Rightarrow> sys \<Rightarrow> bool" where
  "timed e s \<longleftrightarrow> (\<exists>r. acks (con s) = Some r \<and> e \<in> set (armed r))"

definition settled :: "nat \<Rightarrow> sys \<Rightarrow> bool" where
  "settled n s \<longleftrightarrow> n < length (commands s) \<and> (\<forall>h. handling s = Some h \<longrightarrow> fst h \<noteq> n)"

definition is_answered :: "nat \<Rightarrow> sys \<Rightarrow> bool" where
  "is_answered n s \<longleftrightarrow> n \<in> set (map fst (answered s))"

text \<open>The command is with a goroutine that is about to answer.\<close>

definition taken_out :: "nat \<Rightarrow> sys \<Rightarrow> bool" where
  "taken_out n s \<longleftrightarrow> n \<in> pa_ptr ` set (failing s) \<or> n \<in> (\<lambda>x. pa_ptr (fst x)) ` set (delivering s)"

lemma stage_tokens_self: "x \<in># stage_tokens n st \<Longrightarrow> x = n"
  by (cases "(n, st)" rule: stage_tokens.cases) auto

lemma settled_where:
  assumes "tokens_ok s" and "is_open s" and "settled n s"
  shows "(\<exists>e. waiting e s \<and> pa_ptr e = n) \<or> taken_out n s \<or> is_answered n s"
proof -
  have "n \<in># tokens s" using assms by (simp add: tokens_ok_def settled_def)
  moreover have "n \<notin># handler_tokens (handling s)"
    using assms(3) by (auto simp: settled_def handler_tokens_def dest: stage_tokens_self split: option.split)
  ultimately show ?thesis
    by (auto simp: tokens_unfold reg_tokens_def waiting_def taken_out_def is_answered_def split: option.splits)
qed

lemma settled_step:
  assumes "step E s s'" and "settled n s"
  shows "settled n s'"
proof (cases "internal E s s'")
  case True
  then show ?thesis using assms(2) by cases (auto simp: settled_def)
next
  case False
  with assms(1) have "external E s s'" by (simp add: step_def)
  then show ?thesis using assms(2) by cases (auto simp: settled_def)
qed

lemma is_answered_step: "step E s s' \<Longrightarrow> is_answered n s \<Longrightarrow> is_answered n s'"
  unfolding step_def
  by (auto elim!: internal.cases external.cases simp: is_answered_def answer_now_def Let_def)

lemma waiting_timed: "sys_inv s \<Longrightarrow> waiting e s \<Longrightarrow> timed e s \<or> e \<in> set (firing s)"
  by (auto simp: waiting_def timed_def sys_inv_def reg_inv_Some)

lemma waiting_unique: "sys_inv s \<Longrightarrow> waiting e s \<Longrightarrow> waiting e' s \<Longrightarrow> pa_ptr e = pa_ptr e' \<Longrightarrow> e = e'"
  by (auto simp: waiting_def sys_inv_def reg_inv_Some ack_wf_def dest: ptr_inj)

text \<open>Only a new command registers an entry, and its number is new.\<close>

lemma waiting_back:
  assumes "step E s s'" and inv: "sys_inv s" and "waiting e s'"
  shows "waiting e s \<or> pa_ptr e = length (commands s)"
proof -
  have pw: "pend_wf r" "ack_wf r" if "acks (con s) = Some r" for r
    using inv that by (simp_all add: sys_inv_def reg_inv_Some ack_wf_def)
  show ?thesis
  proof (cases "internal E s s'")
    case True
    then show ?thesis
    proof (cases rule: internal.cases)
      case (publish n ieee t err c')
      then show ?thesis using set_publish_acks [OF publish(3)] assms(3) by (simp add: waiting_def)
    next
      case (decide_answer n ieee t err a c')
      then obtain r' where "acks c' = Some r'" "e \<in> set (entries r')" using assms(3) by (auto simp: waiting_def)
      with decide_entries [OF decide_answer(3) this(1) pw(1)] show ?thesis by (auto simp: waiting_def)
    next
      case (decide_return n ieee t err c')
      then obtain r' where "acks c' = Some r'" "e \<in> set (entries r')" using assms(3) by (auto simp: waiting_def)
      with decide_entries [OF decide_return(3) this(1) pw(1)] show ?thesis by (auto simp: waiting_def)
    next
      case (observe_end ieee pl st r matched r')
      have "set (entries r') \<subseteq> set (entries r)"
        using observe_match_result(2) [OF pw(2) [OF observe_end(3)] observe_end(4)]
        by (metis set_mset_mset set_mset_union sup_ge2)
      with observe_end assms(3) show ?thesis by (auto simp: waiting_def)
    next
      case (expire_gone e1 r r')
      with removal_subset [OF pw(1) [OF expire_gone(3)] expire_gone(4)] assms(3) show ?thesis by (auto simp: waiting_def)
    next
      case (expire_take e1 r r')
      with removal_subset [OF pw(1) [OF expire_take(3)] expire_take(4)] assms(3) show ?thesis by (auto simp: waiting_def)
    qed (use assms(3) in \<open>auto simp: waiting_def\<close>)
  next
    case False
    with assms(1) have "external E s s'" by (simp add: step_def)
    then show ?thesis
    proof (cases rule: external.cases)
      case (take_set d ieee expectation exposes lastState t c')
      from take_set(6) show ?thesis
      proof (cases rule: register_with_cases)
        case (registered r r' e1)
        then have "set (entries r') = insert e1 (set (entries r))"
          using mset_eq_setD [of "entries r'" "e1 # entries r"] Register_open(2) [OF registered(2,4)] by simp
        with registered take_set assms(3) show ?thesis by (auto simp: waiting_def)
      qed (use take_set assms(3) in \<open>auto simp: waiting_def\<close>)
    next
      case (close r)
      with ack_close_result [OF pw(2) [OF close(2)]] assms(3) show ?thesis by (auto simp: waiting_def)
    qed (use assms(3) in \<open>auto simp: waiting_def\<close>)
  qed
qed

lemma waiting_step:
  assumes "step E s s'" and inv: "sys_inv s" and "waiting e s"
  shows "waiting e s' \<or> (\<forall>e'. waiting e' s' \<longrightarrow> pa_ptr e' \<noteq> pa_ptr e)"
proof -
  have "pa_ptr e < length (commands s)" using inv assms(3) by (auto simp: waiting_def sys_inv_def reg_inv_Some)
  with waiting_back [OF assms(1,2)] waiting_unique [OF inv _ assms(3)] show ?thesis by (metis nat_neq_iff)
qed

lemma removal_gone:
  assumes pw: "pend_wf r" and "removeLocked e r = (ok, r')"
  shows "e \<notin> set (entries r')"
proof (cases ok)
  case True
  with assms(2) have "removeLocked e r = (True, r')" by simp
  with pw obtain x where "pa_ptr x = pa_ptr e" "mset (entries r) = add_mset x (mset (entries r'))"
    by (rule removeLocked_True)
  then show ?thesis using entries_after_removal [OF pw] by auto
next
  case False
  with assms(2) have "removeLocked e r = (False, r')" by simp
  note facts = removeLocked_False [OF this]
  then have "e \<notin> set (pending_of (pa_ieee e) r)" by auto
  with pending_of_iff [OF pw, of e "pa_ieee e"] facts show ?thesis by simp
qed

subsection \<open>Lists of goroutines\<close>

lemma remove1_inj:
  assumes "x \<in> set xs" and "y \<in> set xs" and "remove1 x xs = remove1 y xs"
  shows "x = y"
proof -
  have "mset xs = add_mset z (mset (remove1 z xs))" if "z \<in> set xs" for z
    using mset_remove1_add [OF that, of "\<lambda>x. x"] by (simp del: mset_remove1)
  from this [OF assms(1)] this [OF assms(2)] assms(3)
  have "add_mset x (mset (remove1 y xs)) = add_mset y (mset (remove1 y xs))" by (simp only:)
  from arg_cong [OF this, of "\<lambda>M. count M x"] show ?thesis by (simp split: if_splits)
qed

lemma remove1_no_append: "x \<in> set xs \<Longrightarrow> remove1 x xs \<noteq> xs @ ys"
  using length_remove1_less [of x xs] by (metis length_append less_add_Suc1 less_irrefl)

text \<open>A goroutine ends only by its own step, and what it has done then.\<close>

lemma goroutine_lists:
  assumes "step E s s'" and inv: "sys_inv s"
  shows "(\<exists>l. firing s' = firing s @ l)
      \<or> (\<exists>e \<in> set (firing s). firing s' = remove1 e (firing s) \<and> \<not> waiting e s')"
    and "(\<exists>l. failing s' = failing s @ l)
      \<or> (\<exists>e \<in> set (failing s). failing s' = remove1 e (failing s) \<and> is_answered (pa_ptr e) s')"
    and "(\<exists>l. delivering s' = delivering s @ l)
      \<or> (\<exists>x \<in> set (delivering s). delivering s' = remove1 x (delivering s) \<and> is_answered (pa_ptr (fst x)) s')"
proof -
  have gone: "e \<notin> set (entries r')" if "acks (con s) = Some r" "removeLocked e r = (ok, r')" for e r ok r'
    using that inv removal_gone by (auto simp: sys_inv_def reg_inv_Some ack_wf_def)
  show "(\<exists>l. firing s' = firing s @ l)
      \<or> (\<exists>e \<in> set (firing s). firing s' = remove1 e (firing s) \<and> \<not> waiting e s')"
    using assms(1) unfolding step_def
    by (auto elim!: internal.cases external.cases simp: waiting_def) (metis gone)+
  show "(\<exists>l. failing s' = failing s @ l)
      \<or> (\<exists>e \<in> set (failing s). failing s' = remove1 e (failing s) \<and> is_answered (pa_ptr e) s')"
    using assms(1) unfolding step_def
    by (auto elim!: internal.cases external.cases simp: is_answered_def answer_now_def Let_def)
  show "(\<exists>l. delivering s' = delivering s @ l)
      \<or> (\<exists>x \<in> set (delivering s). delivering s' = remove1 x (delivering s) \<and> is_answered (pa_ptr (fst x)) s')"
    using assms(1) unfolding step_def
    by (auto elim!: internal.cases external.cases simp: is_answered_def answer_now_def Let_def) (metis fst_conv)?
qed

lemma firing_step:
  assumes "step E s s'" and "sys_inv s" and "e \<in> set (firing s)"
  shows "waiting e s' \<Longrightarrow> e \<in> set (firing s')" and "firing s' = remove1 e (firing s) \<Longrightarrow> \<not> waiting e s'"
  using goroutine_lists(1) [OF assms(1,2)] assms(3) remove1_inj remove1_no_append in_remove1 by (metis Un_iff set_append)+

lemma failing_step:
  assumes "step E s s'" and "sys_inv s" and "e \<in> set (failing s)"
  shows "e \<in> set (failing s') \<or> is_answered (pa_ptr e) s'"
    and "failing s' = remove1 e (failing s) \<Longrightarrow> is_answered (pa_ptr e) s'"
  using goroutine_lists(2) [OF assms(1,2)] assms(3) remove1_inj remove1_no_append in_remove1 by (metis Un_iff set_append)+

lemma delivering_step:
  assumes "step E s s'" and "sys_inv s" and "x \<in> set (delivering s)"
  shows "x \<in> set (delivering s') \<or> is_answered (pa_ptr (fst x)) s'"
    and "delivering s' = remove1 x (delivering s) \<Longrightarrow> is_answered (pa_ptr (fst x)) s'"
  using goroutine_lists(3) [OF assms(1,2)] assms(3) remove1_inj remove1_no_append in_remove1 by (metis Un_iff set_append)+

end
