(* ===== verification/Fairness.thy ===== *)
theory Fairness
  imports RuntimeRuns FairRuns ProtocolFairness
begin

section \<open>Fair runs of the connector\<close>

text \<open>
  The scheduler of Go neglects no goroutine that can go on, and a timer that is not stopped
  fires: every goroutine is treated weakly fairly. Two things ask for more. A goroutine that
  waits for a mutex of Go gets it at some time if it is unlocked again and again, and a
  \<^verbatim>\<open>select\<close>, which chooses at random among the cases that are ready, does not pass over the end of the context for
  ever: the command loop and the stops of the three loops are treated strongly fairly.
\<close>

datatype goroutine =
    CommandLoop
  | EventLoop
  | DeviceLoop
  | Callback nat
  | Timer pendingAck
  | Expiry pendingAck
  | Failing pendingAck
  | Delivering pendingAck string
  | Refreshers
  | CommandStop
  | EventStop
  | DeviceStop
  | ZigbeeStop
  | GatewayStop
  | Watcher

text \<open>Who has moved is seen from what only he changes.\<close>

definition requests_left :: "runtime \<Rightarrow> nat" where
  "requests_left R = sum_list (map (\<lambda>l. Suc (length l)) (refreshing (dloop R)))"

fun moves :: "goroutine \<Rightarrow> runtime \<Rightarrow> runtime \<Rightarrow> bool" where
  "moves CommandLoop R R' \<longleftrightarrow> cstage R' \<noteq> cstage R \<or> handling (protocol R') \<noteq> handling (protocol R)"
| "moves EventLoop R R' \<longleftrightarrow> estage R' \<noteq> estage R"
| "moves DeviceLoop R R' \<longleftrightarrow> dstage R' \<noteq> dstage R"
| "moves (Callback k) R R' \<longleftrightarrow> k < length (callbacks R) \<and> callbacks R' ! k \<noteq> callbacks R ! k"
| "moves (Timer e) R R' \<longleftrightarrow> firing (protocol R') = firing (protocol R) @ [e]"
| "moves (Expiry e) R R' \<longleftrightarrow> e \<in> set (firing (protocol R))
     \<and> firing (protocol R') = remove1 e (firing (protocol R))"
| "moves (Failing e) R R' \<longleftrightarrow> e \<in> set (failing (protocol R))
     \<and> failing (protocol R') = remove1 e (failing (protocol R))"
| "moves (Delivering e pl) R R' \<longleftrightarrow> (e, pl) \<in> set (delivering (protocol R))
     \<and> delivering (protocol R') = remove1 (e, pl) (delivering (protocol R))"
| "moves Refreshers R R' \<longleftrightarrow> requests_left R' < requests_left R"
| "moves CommandStop R R' \<longleftrightarrow> cstage R \<noteq> CmdEnd \<and> cstage R' = CmdEnd"
| "moves EventStop R R' \<longleftrightarrow> estage R \<noteq> EvEnd \<and> estage R' = EvEnd"
| "moves DeviceStop R R' \<longleftrightarrow> dstage R \<noteq> DvEnd \<and> dstage R' = DvEnd"
| "moves ZigbeeStop R R' \<longleftrightarrow> zigbee_up R \<and> \<not> zigbee_up R'"
| "moves GatewayStop R R' \<longleftrightarrow> gateway_up R \<and> \<not> gateway_up R'"
| "moves Watcher R R' \<longleftrightarrow> watcher (protocol R)
     \<and> (\<not> watcher (protocol R') \<or> is_open (protocol R) \<and> \<not> is_open (protocol R'))"

definition acts :: "env \<Rightarrow> goroutine \<Rightarrow> runtime \<Rightarrow> runtime \<Rightarrow> bool" where
  "acts E g R R' \<longleftrightarrow> rt_step E R R' \<and> moves g R R'"

interpretation sched: scheduled "rt_step E" "rt_reachable E" "acts E" for E
  by unfold_locales (simp add: acts_def)

definition fair_run :: "env \<Rightarrow> (nat \<Rightarrow> runtime) \<Rightarrow> bool" where
  "fair_run E \<sigma> \<longleftrightarrow> rt_reachable E (\<sigma> 0) \<and> run_of (rt_step E) \<sigma> \<and> (\<forall>g. weakly_fair (acts E g) \<sigma>)
     \<and> (\<forall>g \<in> {CommandLoop, CommandStop, EventStop, DeviceStop}. strongly_fair (acts E g) \<sigma>)"

lemma fair_runD:
  assumes "fair_run E \<sigma>"
  shows "run_of (rt_step E) \<sigma>" "rt_reachable E (\<sigma> i)" "weakly_fair (acts E g) \<sigma>"
    "strongly_fair (acts E CommandLoop) \<sigma>" "strongly_fair (acts E CommandStop) \<sigma>"
    "strongly_fair (acts E EventStop) \<sigma>" "strongly_fair (acts E DeviceStop) \<sigma>"
  using assms sched.run_reach [of E \<sigma> i] by (simp_all add: fair_run_def)

lemma fair_weak:
  assumes fair: "fair_run E \<sigma>"
    and "\<And>R R'. rt_reachable E R \<Longrightarrow> P R \<Longrightarrow> rt_step E R R' \<Longrightarrow> P R' \<or> Q R'"
    and "\<And>R R'. rt_reachable E R \<Longrightarrow> P R \<Longrightarrow> acts E g R R' \<Longrightarrow> Q R'"
    and "\<And>R. rt_reachable E R \<Longrightarrow> P R \<Longrightarrow> \<exists>R'. acts E g R R'"
  shows "leads_to \<sigma> P Q"
  using sched.weak_progress [OF fair_runD(1) [OF fair], where I = "rt_reachable E" and g = g and P = P and Q = Q]
    assms fair_runD(2,3) [OF fair] by blast

lemma fair_strong:
  assumes fair: "fair_run E \<sigma>" and "strongly_fair (acts E g) \<sigma>"
    and "\<And>R R'. rt_reachable E R \<Longrightarrow> P R \<Longrightarrow> rt_step E R R' \<Longrightarrow> P R' \<or> Q R'"
    and "\<And>R R'. rt_reachable E R \<Longrightarrow> P R \<Longrightarrow> acts E g R R' \<Longrightarrow> Q R'"
    and "leads_to \<sigma> P (\<lambda>R. P R \<longrightarrow> (\<exists>R'. acts E g R R'))"
  shows "leads_to \<sigma> P Q"
  using sched.strong_progress [OF fair_runD(1) [OF fair], where I = "rt_reachable E" and g = g and P = P and Q = Q]
    assms fair_runD(2) [OF fair] by blast

lemma reachable_facts:
  assumes "rt_reachable E R"
  shows "rt_inv E R" "mux_inv R" "sys_inv (protocol R)" "tokens_ok (protocol R)"
  using rt_reachable_inv rt_reachable_mux reachable_inv reachable_tokens rt_refines assms by blast+

text \<open>Before the shutdown.\<close>

definition live :: "env \<Rightarrow> runtime \<Rightarrow> bool" where
  "live E R \<longleftrightarrow> rt_reachable E R \<and> \<not> cancelled R"

lemma live_facts:
  assumes "live E R"
  shows "rt_reachable E R" "\<not> cancelled R" "is_open (protocol R)" "cstage R \<noteq> CmdEnd" "estage R \<noteq> EvEnd" "\<not> event_jam R"
  using assms rt_reachable_running [of E R] no_jam_running(1) [of E R] by (simp_all add: live_def running_def)

lemma acts_intro: "rt_step E R R' \<Longrightarrow> moves g R R' \<Longrightarrow> acts E g R R'"
  by (simp add: acts_def)

subsection \<open>The event loop\<close>

lemma section_moves: "n r \<noteq> Section u n"
proof -
  have "\<forall>u n. p = Section u n \<longrightarrow> n r \<noteq> p" for p :: "'a sections"
    by (induction p) auto
  then show ?thesis by blast
qed

lemma event_work_moves:
  "event_work E st c = (st', c') \<Longrightarrow> st \<noteq> EvWait \<Longrightarrow> st \<noteq> EvEnd \<Longrightarrow> st' \<noteq> st"
  by (cases "(E, st, c)" rule: event_work.cases) (auto simp: section_moves split: if_splits)

lemma perform_grows: "perform E p R = Some R' \<Longrightarrow> length (eventbuffer R) \<le> length (eventbuffer R')"
  by (cases p) (auto simp: perform_simps dest!: chan_send_length split: option.splits)

lemma estage_step:
  assumes "rt_step E R R'"
  shows "estage R' = estage R \<and> length (eventbuffer R) \<le> length (eventbuffer R')
    \<or> estage R = EvWait \<and> (Suc (length (eventbuffer R')) = length (eventbuffer R) \<or> estage R' = EvEnd)
    \<or> estage R \<noteq> EvWait \<and> estage R \<noteq> EvEnd \<and> estage R' = fst (event_work E (estage R) (the_con R))"
  using assms
proof (cases rule: rt_step.cases)
  case (callback before p rest after R1)
  then show ?thesis using perform_grows [OF callback(3)] perform_frame(3) [OF callback(3)] by simp
next
  case (event_work st' c')
  then show ?thesis using event_round_step [OF event_work(2)] by auto
qed auto

lemma event_loop_moves:
  assumes fair: "fair_run E \<sigma>" and st: "st \<noteq> EvWait" "st \<noteq> EvEnd"
  shows "leads_to \<sigma> (\<lambda>R. estage R = st) (\<lambda>R. \<exists>c. estage R = fst (event_work E st c))"
proof (rule fair_weak [OF fair, where g = EventLoop])
  fix R R' :: runtime assume "estage R = st" "rt_step E R R'"
  with st show "estage R' = st \<or> (\<exists>c. estage R' = fst (event_work E st c))"
    using estage_step [of E R R'] by auto
next
  fix R R' :: runtime assume "estage R = st" "acts E EventLoop R R'"
  with st show "\<exists>c. estage R' = fst (event_work E st c)"
    using estage_step [of E R R'] by (auto simp: acts_def)
next
  fix R :: runtime assume R: "estage R = st"
  obtain st' c' where w: "event_work E st (the_con R) = (st', c')" by fastforce
  with st R have "event_round E (estage R, the_con R) (st', c')" by (simp add: event_round_def)
  from rt_step.event_work [OF this] event_work_moves [OF w st] R
  show "\<exists>R'. acts E EventLoop R R'" by (intro exI acts_intro) auto
qed

abbreviation event_ready :: "runtime \<Rightarrow> bool" where
  "event_ready R \<equiv> estage R = EvWait \<or> estage R = EvEnd"

lemma event_waits:
  assumes fair: "fair_run E \<sigma>"
  shows "leads_to \<sigma> (\<lambda>R. True) event_ready"
proof -
  have stage: "leads_to \<sigma> (\<lambda>R. estage R = st) event_ready" for st
  proof (induction st rule: event_stage_induct [of _ E])
    case (stage st)
    show ?case
    proof (cases "st = EvWait \<or> st = EvEnd")
      case False
      with stage have "leads_to \<sigma> (\<lambda>R. \<exists>c. estage R = fst (event_work E st c)) event_ready"
        unfolding leads_to_def by blast
      with event_loop_moves [OF fair, of st] False show ?thesis by (meson leads_to_trans)
    qed (auto simp: leads_to_def)
  qed
  then show ?thesis by (simp add: leads_to_def)
qed

text \<open>The loop makes room in its channel, unless it returns first.\<close>

lemma event_room:
  assumes fair: "fair_run E \<sigma>"
  shows "leads_to \<sigma> (\<lambda>R. True) (\<lambda>R. length (eventbuffer R) < buffer_size \<or> estage R = EvEnd)"
proof -
  let ?P = "\<lambda>R. estage R = EvWait \<and> buffer_size \<le> length (eventbuffer R)"
  let ?Q = "\<lambda>R. length (eventbuffer R) < buffer_size \<or> estage R = EvEnd"
  have taken: "?Q R'" if "rt_reachable E R" "?P R" "rt_step E R R'"
    "\<not> (estage R' = EvWait \<and> length (eventbuffer R) \<le> length (eventbuffer R'))" for R R'
    using estage_step [OF that(3)] rt_reachable_inv [OF that(1)] that(2,4) by (auto simp: rt_inv_def)
  have "leads_to \<sigma> ?P ?Q"
  proof (rule fair_weak [OF fair, where g = EventLoop])
    fix R R' assume "rt_reachable E R" "?P R" "rt_step E R R'"
    then show "?P R' \<or> ?Q R'" using taken [of R R'] by fastforce
  next
    fix R R' assume "rt_reachable E R" "?P R" "acts E EventLoop R R'"
    then show "?Q R'" using taken [of R R'] unfolding acts_def by fastforce
  next
    fix R :: runtime assume R: "?P R"
    then obtain e buf where "eventbuffer R = e # buf" by (cases "eventbuffer R") (auto simp: buffer_size_def)
    with R rt_step.event_take [of R e buf E] show "\<exists>R'. acts E EventLoop R R'"
      by (intro exI acts_intro) auto
  qed
  then have "leads_to \<sigma> event_ready ?Q"
    unfolding leads_to_def by (metis linorder_not_le order_refl)
  with event_waits [OF fair] show ?thesis by (rule leads_to_trans)
qed

subsection \<open>The mutex of the values\<close>

definition holder :: "nat \<Rightarrow> event_desc \<Rightarrow> runtime \<Rightarrow> bool" where
  "holder k e R \<longleftrightarrow> value_mux R = Some e \<and> k < length (callbacks R) \<and> (\<exists>rest. callbacks R ! k = PostEvent e # rest)"

lemma holder_exists:
  assumes "mux_inv R" and "value_mux R = Some e"
  shows "\<exists>k. holder k e R"
proof -
  have "map hd (filter in_section (callbacks R)) = [PostEvent e]" using assms by (simp add: mux_inv_def mux_events_def)
  then have "PostEvent e \<in> hd ` {cb \<in> set (callbacks R). in_section cb}" by (metis list.set_intros(1) set_filter set_map)
  then obtain cb where cb: "cb \<in> set (callbacks R)" "in_section cb" "hd cb = PostEvent e" by auto
  from cb(2,3) obtain rest where "cb = PostEvent e # rest" by (cases cb) auto
  moreover from cb(1) obtain k where "k < length (callbacks R)" "callbacks R ! k = cb" by (auto simp: in_set_conv_nth)
  ultimately show ?thesis using assms(2) by (auto simp: holder_def)
qed

text \<open>Only the holder has an event to send.\<close>

lemma only_holder:
  assumes "mux_inv R" and "holder k e R" and cbs: "callbacks R = before @ (PostEvent e' # rest) # after"
  shows "k = length before \<and> e' = e"
proof -
  have "map hd (filter in_section (callbacks R)) = [PostEvent e]"
    using assms(1,2) by (simp add: mux_inv_def mux_events_def holder_def)
  with cbs have none: "filter in_section before = []" "filter in_section after = []" and "e' = e"
    by (auto simp: append_eq_Cons_conv)
  moreover have "k = length before"
  proof (rule ccontr)
    assume "k \<noteq> length before"
    moreover have "k < Suc (length before + length after)" using assms(2) cbs by (simp add: holder_def)
    ultimately have "callbacks R ! k \<in> set before \<union> set after"
      unfolding cbs by (cases "k < length before") (simp_all add: nth_append nth_Cons')
    with none assms(2) show False by (auto simp: holder_def filter_empty_conv)
  qed
  ultimately show ?thesis by simp
qed

lemma holder_step:
  assumes inv: "mux_inv R" and k: "holder k e R" and "rt_step E R R'"
  shows "value_mux R' = None \<or> value_mux R' = Some e \<and> k < length (callbacks R') \<and> callbacks R' ! k = callbacks R ! k
    \<and> length (eventbuffer R') \<le> length (eventbuffer R)"
  using assms(3)
proof (cases rule: rt_step.cases)
  case (callback before p rest after R1)
  show ?thesis
  proof (cases "\<exists>e'. p = PostEvent e'")
    case True
    with callback show ?thesis by (auto simp: perform_simps)
  next
    case False
    have "k \<noteq> length before"
      using k callback(2) False by (auto simp: holder_def)
    then have "(before @ rest # after) ! k = callbacks R ! k" "k < length (before @ rest # after)"
      using callback(2) k by (auto simp: nth_append nth_Cons' holder_def)
    moreover have "value_mux R1 = value_mux R \<and> eventbuffer R1 = eventbuffer R"
      using callback(3) False k by (cases p) (auto simp: perform_simps holder_def split: option.splits)
    ultimately show ?thesis using k callback(1) by (simp add: holder_def)
  qed
qed (use k in \<open>auto simp: holder_def nth_append\<close>)

lemma mutex_released:
  assumes fair: "fair_run E \<sigma>"
  shows "leads_to \<sigma> (\<lambda>R. True) (\<lambda>R. value_mux R = None \<or> event_jam R)"
proof -
  have post: "leads_to \<sigma> (\<lambda>R. holder k e R \<and> length (eventbuffer R) < buffer_size) (\<lambda>R. value_mux R = None)" for k e
  proof (rule fair_weak [OF fair, where g = "Callback k"])
    fix R R' assume R: "rt_reachable E R" "holder k e R \<and> length (eventbuffer R) < buffer_size" "rt_step E R R'"
    then show "(holder k e R' \<and> length (eventbuffer R') < buffer_size) \<or> value_mux R' = None"
      using holder_step [OF rt_reachable_mux [OF R(1)], of k e E R'] by (auto simp: holder_def)
  next
    fix R R' assume R: "rt_reachable E R" "holder k e R \<and> length (eventbuffer R) < buffer_size" "acts E (Callback k) R R'"
    then show "value_mux R' = None"
      using holder_step [OF rt_reachable_mux [OF R(1)], of k e E R'] by (auto simp: acts_def)
  next
    fix R assume R: "holder k e R \<and> length (eventbuffer R) < buffer_size"
    then obtain rest where k: "k < length (callbacks R)" "callbacks R ! k = PostEvent e # rest" by (auto simp: holder_def)
    let ?b = "take k (callbacks R)" and ?a = "drop (Suc k) (callbacks R)"
    let ?R1 = "R\<lparr>eventbuffer := eventbuffer R @ [e], handed := handed R @ [e], value_mux := None\<rparr>"
    have "callbacks R = ?b @ (PostEvent e # rest) # ?a" using id_take_nth_drop [OF k(1)] k(2) by simp
    moreover have "perform E (PostEvent e) R = Some ?R1" using R by (simp add: perform_simps chan_send_def)
    ultimately have "rt_step E R (?R1\<lparr>callbacks := ?b @ rest # ?a\<rparr>)" by (rule rt_step.callback)
    from acts_intro [OF this, of "Callback k"] k show "\<exists>R'. acts E (Callback k) R R'" by (auto simp: nth_append)
  qed
  show ?thesis
  proof (rule leads_toI)
    fix i
    from leads_toD [OF event_room [OF fair], of i] obtain j where
      j: "j \<ge> i" "length (eventbuffer (\<sigma> j)) < buffer_size \<or> estage (\<sigma> j) = EvEnd" by auto
    show "\<exists>j\<ge>i. value_mux (\<sigma> j) = None \<or> event_jam (\<sigma> j)"
    proof (cases "value_mux (\<sigma> j)")
      case (Some e)
      from holder_exists [OF rt_reachable_mux [OF fair_runD(2) [OF fair]] this] obtain k where k: "holder k e (\<sigma> j)" by blast
      show ?thesis
      proof (cases "length (eventbuffer (\<sigma> j)) < buffer_size")
        case True
        with k j(1) leads_toD [OF post] show ?thesis by (meson order_trans)
      next
        case False
        with j Some have "event_jam (\<sigma> j)" by (simp add: event_jam_def)
        with j(1) show ?thesis by blast
      qed
    qed (use j(1) in blast)
  qed
qed

subsection \<open>The command loop\<close>

definition handler_rank :: "(nat \<times> string \<times> stage) option \<Rightarrow> nat" where
  "handler_rank h = (case h of None \<Rightarrow> 0 | Some (n, ieee, st) \<Rightarrow> stage_weight st)"

definition command_rank :: "runtime \<Rightarrow> nat" where
  "command_rank R =
     (case cstage R of
        CmdLookup d \<Rightarrow> 6
      | CmdLock d ieee ex device \<Rightarrow> 5
      | CmdValue d ieee ex v \<Rightarrow> 4
      | _ \<Rightarrow> handler_rank (handling (protocol R)))"

lemma handler_rank_simps [simp]: "handler_rank None = 0" "handler_rank (Some (n, i, st)) = stage_weight st"
  by (simp_all add: handler_rank_def)

lemma handler_rank_0 [simp]: "handler_rank h = 0 \<longleftrightarrow> h = None"
proof -
  have "0 < stage_weight st" for st by (cases st) simp_all
  then show ?thesis by (auto simp: handler_rank_def split: option.split)
qed

lemma command_rank_same:
  "cstage R' = cstage R \<Longrightarrow> handling (protocol R') = handling (protocol R) \<Longrightarrow> command_rank R' = command_rank R"
  unfolding command_rank_def by (simp only:)

lemma command_rank_0:
  "rt_inv E R \<Longrightarrow> command_rank R = 0 \<longleftrightarrow> (cstage R = CmdWait \<or> cstage R = CmdEnd) \<and> handling (protocol R) = None"
  by (cases "cstage R") (auto simp: command_rank_def rt_inv_def)

lemma begin_set_rank [simp]: "handler_rank (handling (begin_set ieee d ex l s)) = 3"
  by (simp add: begin_set_def Let_def split: prod.split)

lemma command_handler_rank:
  assumes "handling s = None"
  shows "handler_rank (handling (direct_command E d s)) \<le> 3" "handler_rank (handling (finish_command E d ieee ex v s)) \<le> 3"
  using assms by (simp_all add: direct_command_def finish_command_def)

lemma internal_rank:
  "internal E s s' \<Longrightarrow> handling s' = handling s \<or> handler_rank (handling s') < handler_rank (handling s)"
  by (erule internal.cases) simp_all

lemma perform_command:
  "perform E p R = Some R' \<Longrightarrow> handling (protocol R') = handling (protocol R) \<and> taken R' = taken R
     \<and> commands (protocol R') = commands (protocol R) \<and> (\<exists>l. posted R' = posted R @ l)"
  by (cases p) (auto simp: perform_simps split: option.splits)

lemma command_step:
  assumes "rt_inv E R" and "rt_step E R R'"
  shows "cstage R' = cstage R \<and> handling (protocol R') = handling (protocol R) \<and> taken R' = taken R
    \<or> taken R' = taken R \<and> command_rank R' < command_rank R
    \<or> command_rank R = 0 \<and> (length (taken R') = Suc (length (taken R)) \<or> cancelled R')"
proof -
  have free: "handling (protocol R) = None" if "cstage R \<noteq> CmdWait"
    using that assms(1) by (simp add: rt_inv_def)
  show ?thesis
    using assms(2)
  proof (cases rule: rt_step.cases)
    case (callback before p rest after R1)
    then show ?thesis using perform_frame(5) [OF callback(3)] perform_command [OF callback(3)] by simp
  next
    case (set_goroutines s')
    then show ?thesis using internal_rank [OF set_goroutines(2)] free
      by (cases "cstage R") (auto simp: command_rank_def)
  next
    case (command_direct d)
    then show ?thesis using command_handler_rank(1) [of "protocol R" E d] free by (simp add: command_rank_def)
  next
    case (command_finish d ieee ex v)
    then show ?thesis using command_handler_rank(2) [of "protocol R" E d ieee ex v] free by (simp add: command_rank_def)
  next
    case (command_lookup d ieee)
    then show ?thesis by (simp add: command_rank_def command_lookup_def Let_def split: sum.split)
  qed (use free in \<open>simp_all add: command_rank_def\<close>)
qed

text \<open>The loop can move on, unless it waits for the mutex.\<close>

lemma command_can:
  assumes inv: "rt_inv E R" and rank: "command_rank R \<noteq> 0"
    and mux: "value_mux R = None \<or> \<not> wants_value (cstage R)"
  shows "\<exists>R'. acts E CommandLoop R R'"
proof (cases "cstage R")
  case (CmdLookup d)
  show ?thesis
  proof (cases "needs_value E d (the_con R)")
    case None
    from acts_intro [OF rt_step.command_direct [OF CmdLookup None], of CommandLoop] CmdLookup show ?thesis by auto
  next
    case (Some ieee)
    have "command_lookup d ieee (the_con R) \<noteq> CmdLookup d"
      by (simp add: command_lookup_def Let_def split: sum.split)
    with acts_intro [OF rt_step.command_lookup [OF CmdLookup Some], of CommandLoop] CmdLookup show ?thesis by auto
  qed
next
  case (CmdLock d ieee ex device)
  with mux have "value_mux R = None" by (simp add: wants_value_def)
  from acts_intro [OF rt_step.command_read [OF CmdLock this], where E = E and g = CommandLoop] CmdLock show ?thesis by auto
next
  case (CmdValue d ieee ex v)
  from acts_intro [OF rt_step.command_finish [OF CmdValue], where E = E and g = CommandLoop] CmdValue show ?thesis by auto
next
  case CmdWait
  with rank obtain h where "handling (protocol R) = Some h" by (auto simp: command_rank_def)
  from handler_progress [OF this] obtain s' where s': "internal E (protocol R) s'"
    "handling s' \<noteq> handling (protocol R)" by blast
  from acts_intro [OF rt_step.set_goroutines [OF s'(1)], of CommandLoop] s'(2) show ?thesis by auto
next
  case CmdEnd
  with rank command_rank_0 [OF inv] inv show ?thesis by (simp add: rt_inv_def)
qed

text \<open>The jam of the event channel is the one thing that can keep the loop from its next command.\<close>

definition never_jams :: "(nat \<Rightarrow> runtime) \<Rightarrow> bool" where
  "never_jams \<sigma> \<longleftrightarrow> (\<forall>i. \<not> (event_jam (\<sigma> i) \<and> wants_value (cstage (\<sigma> i))))"

lemma command_loop_returns:
  assumes fair: "fair_run E \<sigma>" and free: "never_jams \<sigma>"
  shows "leads_to \<sigma> (\<lambda>R. True) (\<lambda>R. command_rank R = 0)"
proof (rule leads_to_measure)
  fix k
  let ?P = "\<lambda>R. command_rank R = k \<and> k \<noteq> 0" and ?Q = "\<lambda>R. command_rank R < k"
  have keeps: "?P R' \<or> ?Q R'" if "rt_reachable E R" "?P R" "rt_step E R R'" for R R'
    using command_step [OF rt_reachable_inv [OF that(1)] that(3)] command_rank_same [of R' R] that(2) by auto
  have helps: "?Q R'" if "rt_reachable E R" "?P R" "acts E CommandLoop R R'" for R R'
    using command_step [OF rt_reachable_inv [OF that(1)], of R'] that(2,3) by (auto simp: acts_def)
  have "leads_to \<sigma> ?P ?Q"
  proof (rule fair_strong [OF fair fair_runD(4) [OF fair]])
    show "leads_to \<sigma> ?P (\<lambda>R. ?P R \<longrightarrow> (\<exists>R'. acts E CommandLoop R R'))"
    proof (rule leads_toI)
      fix i
      from leads_toD [OF mutex_released [OF fair], of i] obtain j where
        j: "j \<ge> i" "value_mux (\<sigma> j) = None \<or> event_jam (\<sigma> j)" by auto
      with free have "value_mux (\<sigma> j) = None \<or> \<not> wants_value (cstage (\<sigma> j))" by (auto simp: never_jams_def)
      with command_can [OF rt_reachable_inv [OF fair_runD(2) [OF fair]], of j] j(1)
      show "\<exists>j\<ge>i. ?P (\<sigma> j) \<longrightarrow> (\<exists>R'. acts E CommandLoop (\<sigma> j) R')" by blast
    qed
  qed (use keeps helps in blast)+
  then show "leads_to \<sigma> (\<lambda>R. True \<and> command_rank R = k) (\<lambda>R. command_rank R = 0 \<or> True \<and> command_rank R < k)"
    unfolding leads_to_def by (metis order_refl)
qed

end
