(* ===== verification/FairAnswers.thy ===== *)
theory FairAnswers
  imports Fairness
begin

section \<open>Every set command is answered\<close>

text \<open>
  In a fair run in which the context does not end, a posted command is taken by the loop, which lets go of it;
  its entry is taken out by a delivery, or at last by the goroutine of its timer, and whoever has
  taken it answers.
\<close>

definition live_run :: "env \<Rightarrow> (nat \<Rightarrow> runtime) \<Rightarrow> bool" where
  "live_run E \<sigma> \<longleftrightarrow> fair_run E \<sigma> \<and> (\<forall>i. \<not> cancelled (\<sigma> i))"

lemma live_runD:
  assumes "live_run E \<sigma>"
  shows "fair_run E \<sigma>" "live E (\<sigma> i)" "never_jams \<sigma>"
proof -
  show f: "fair_run E \<sigma>" and l: "live E (\<sigma> i)" for i
    using assms fair_runD(2) [of E \<sigma> i] by (simp_all add: live_run_def live_def)
  show "never_jams \<sigma>" using live_facts(6) [OF l] by (simp add: never_jams_def)
qed

lemma live_reachable [dest]: "live E R \<Longrightarrow> rt_reachable E R"
  by (simp add: live_def)

lemma live_weak:
  assumes run: "live_run E \<sigma>"
    and "\<And>R R'. live E R \<Longrightarrow> live E R' \<Longrightarrow> P R \<Longrightarrow> rt_step E R R' \<Longrightarrow> P R' \<or> Q R'"
    and "\<And>R R'. live E R \<Longrightarrow> live E R' \<Longrightarrow> P R \<Longrightarrow> rt_step E R R' \<Longrightarrow> moves g R R' \<Longrightarrow> Q R'"
    and "\<And>R. live E R \<Longrightarrow> P R \<Longrightarrow> \<exists>R'. acts E g R R'"
  shows "leads_to \<sigma> P Q"
proof -
  note fair = live_runD(1) [OF run]
  show ?thesis
    using sched.weak_progress [OF fair_runD(1) [OF fair], where I = "live E" and g = g and P = P and Q = Q]
      assms(2-) live_runD(2) [OF run] fair_runD(3) [OF fair] unfolding acts_def by blast
qed

lemma one_protocol_step:
  assumes "rt_reachable E R" and "rt_step E R R'"
  shows "protocol R' = protocol R \<or> step E (protocol R) (protocol R')"
  by (rule rt_step_refines [OF rt_reachable_inv [OF assms(1)] assms(2)])

subsection \<open>The way of a command to its goroutines\<close>

lemma histories_grow:
  assumes "rt_step E R R'"
  shows "(\<exists>l. posted R' = posted R @ l) \<and> (\<exists>l. taken R' = taken R @ l)"
  using assms
proof (cases rule: rt_step.cases)
  case (callback before p rest after R1)
  then show ?thesis using perform_command [OF callback(3)] by simp
qed auto

lemma histories_later:
  assumes fair: "fair_run E \<sigma>" and "i \<le> j"
  shows "\<exists>l. posted (\<sigma> j) = posted (\<sigma> i) @ l" and "length (taken (\<sigma> i)) \<le> length (taken (\<sigma> j))"
proof -
  let ?T = "\<lambda>R R'. (\<exists>l. posted R' = posted R @ l) \<and> (\<exists>l. taken R' = taken R @ l)"
  have "?T (\<sigma> i) (\<sigma> j)"
  proof (rule sched.run_later [OF fair_runD(1,2) [OF fair] assms(2)])
    fix R R1 R2 assume "?T R R1" "rt_step E R1 R2"
    then show "?T R R2" using histories_grow [of E R1 R2] by auto
  qed simp
  then show "\<exists>l. posted (\<sigma> j) = posted (\<sigma> i) @ l" and "length (taken (\<sigma> i)) \<le> length (taken (\<sigma> j))" by auto
qed

lemma takes_next:
  assumes run: "live_run E \<sigma>"
  shows "leads_to \<sigma> (\<lambda>R. command_rank R = 0 \<and> length (taken R) = k \<and> k < length (posted R)) (\<lambda>R. k < length (taken R))"
    (is "leads_to \<sigma> ?P ?Q")
proof (rule live_weak [OF run, where g = CommandLoop])
  fix R R' assume R: "live E R" "live E R'" "?P R" "rt_step E R R'"
  obtain l where "posted R' = posted R @ l" using histories_grow [OF R(4)] by auto
  then show "?P R' \<or> ?Q R'"
    using command_step [OF rt_reachable_inv [OF live_facts(1) [OF R(1)]] R(4)] command_rank_same [of R' R] R(3)
      live_facts(2) [OF R(2)] by auto
next
  fix R R' assume R: "live E R" "live E R'" "?P R" "rt_step E R R'" "moves CommandLoop R R'"
  then show "?Q R'"
    using command_step [OF rt_reachable_inv [OF live_facts(1) [OF R(1)]] R(4)] live_facts(2) [OF R(2)] by auto
next
  fix R assume R: "live E R" "?P R"
  note inv = rt_reachable_inv [OF live_facts(1) [OF R(1)]]
  from R(2) have wait: "cstage R = CmdWait" "handling (protocol R) = None"
    using command_rank_0 [OF inv] live_facts(4) [OF R(1)] by simp_all
  have "posted R = taken R @ commandbuffer R" using inv by (simp add: rt_inv_def)
  with R(2) obtain d buf where "commandbuffer R = d # buf" by (cases "commandbuffer R") auto
  from acts_intro [OF rt_step.command_take [OF wait this], where E = E and g = CommandLoop] wait
  show "\<exists>R'. acts E CommandLoop R R'" by auto
qed

lemma all_taken:
  assumes run: "live_run E \<sigma>"
  shows "leads_to \<sigma> (\<lambda>R. k \<le> length (posted R)) (\<lambda>R. k \<le> length (taken R))"
proof (induction k)
  case (Suc k)
  note fair = live_runD(1) [OF run]
  show ?case
  proof (rule leads_toI)
    fix i assume i: "Suc k \<le> length (posted (\<sigma> i))"
    then have "k \<le> length (posted (\<sigma> i))" by simp
    from leads_toD [OF Suc this] obtain j where j: "j \<ge> i" "k \<le> length (taken (\<sigma> j))" by blast
    from leads_toD [OF command_loop_returns [OF fair live_runD(3) [OF run]], of j] obtain m where m: "m \<ge> j" "command_rank (\<sigma> m) = 0" by auto
    have "Suc k \<le> length (posted (\<sigma> m))" "k \<le> length (taken (\<sigma> m))"
      using histories_later [OF fair order_trans [OF j(1) m(1)]] histories_later [OF fair m(1)] i j(2) by auto
    then consider "Suc k \<le> length (taken (\<sigma> m))" | "length (taken (\<sigma> m)) = k" "k < length (posted (\<sigma> m))" by linarith
    then show "\<exists>j\<ge>i. Suc k \<le> length (taken (\<sigma> j))"
    proof cases
      case 2
      with leads_toD [OF takes_next [OF run, of k], of m] m(2) obtain m' where "m' \<ge> m" "k < length (taken (\<sigma> m'))" by auto
      with j(1) m(1) show ?thesis by (intro exI [of _ m']) simp
    qed (use j(1) m(1) order_trans in blast)
  qed
qed (simp add: leads_to_def, blast)

lemma let_go:
  assumes run: "live_run E \<sigma>"
  shows "leads_to \<sigma> (\<lambda>R. n < length (filter (is_set E) (posted R))) (\<lambda>R. settled n (protocol R))"
proof (rule leads_toI)
  note fair = live_runD(1) [OF run]
  fix i assume n: "n < length (filter (is_set E) (posted (\<sigma> i)))"
  from leads_toD [OF all_taken [OF run], of "length (posted (\<sigma> i))" i] obtain j where
    j: "j \<ge> i" "length (posted (\<sigma> i)) \<le> length (taken (\<sigma> j))" by auto
  from leads_toD [OF command_loop_returns [OF fair live_runD(3) [OF run]], of j] obtain m where m: "m \<ge> j" "command_rank (\<sigma> m) = 0" by auto
  note R = live_facts [OF live_runD(2) [OF run, of m]]
  note rt_inv = rt_reachable_inv [OF R(1)]
  from command_rank_0 [OF rt_inv] m(2) R(4) have wait: "cstage (\<sigma> m) = CmdWait" "handling (protocol (\<sigma> m)) = None"
    by simp_all
  then have inv: "posted (\<sigma> m) = taken (\<sigma> m) @ commandbuffer (\<sigma> m)" "commands (protocol (\<sigma> m)) = filter (is_set E) (taken (\<sigma> m))"
    using rt_inv by (simp_all add: rt_inv_def)
  obtain l where l: "posted (\<sigma> m) = posted (\<sigma> i) @ l" using histories_later(1) [OF fair, of i m] j(1) m(1) by auto
  have "length (posted (\<sigma> i)) \<le> length (taken (\<sigma> m))" using histories_later(2) [OF fair m(1)] j(2) by simp
  with l inv(1) obtain l' where "taken (\<sigma> m) = posted (\<sigma> i) @ l'" by (metis append_eq_append_conv_if append_take_drop_id)
  with n inv(2) wait have "settled n (protocol (\<sigma> m))" by (simp add: settled_def)
  then show "\<exists>j\<ge>i. settled n (protocol (\<sigma> j))" using j(1) m(1) order_trans by blast
qed

subsection \<open>From the registry to the answer\<close>

lemma failing_answers:
  assumes fair: "fair_run E \<sigma>"
  shows "leads_to \<sigma> (\<lambda>R. e \<in> set (failing (protocol R))) (\<lambda>R. is_answered (pa_ptr e) (protocol R))"
proof (rule fair_weak [OF fair, where g = "Failing e"])
  fix R R' assume R: "rt_reachable E R" "e \<in> set (failing (protocol R))" "rt_step E R R'"
  then show "e \<in> set (failing (protocol R')) \<or> is_answered (pa_ptr e) (protocol R')"
    using one_protocol_step [OF R(1,3)] failing_step(1) [OF _ reachable_facts(3) [OF R(1)] R(2)] by metis
next
  fix R R' assume R: "rt_reachable E R" "e \<in> set (failing (protocol R))" "acts E (Failing e) R R'"
  then have m: "failing (protocol R') = remove1 e (failing (protocol R))" "rt_step E R R'" by (simp_all add: acts_def)
  with R(2) remove1_no_append [of e "failing (protocol R)" "[]"] have "protocol R' \<noteq> protocol R" by auto
  then show "is_answered (pa_ptr e) (protocol R')"
    using one_protocol_step [OF R(1) m(2)] failing_step(2) [OF _ reachable_facts(3) [OF R(1)] R(2) m(1)] by blast
next
  fix R assume R: "rt_reachable E R" "e \<in> set (failing (protocol R))"
  then obtain r where "acks (the_con R) = Some r"
    using reachable_facts(3) [OF R(1)] by (cases "acks (the_con R)") (auto simp: sys_inv_def)
  from acts_intro [OF rt_step.set_goroutines [OF internal.fail [OF R(2) this]], where E = E and g = "Failing e"] R(2)
  show "\<exists>R'. acts E (Failing e) R R'" by auto
qed

lemma delivering_answers:
  assumes fair: "fair_run E \<sigma>"
  shows "leads_to \<sigma> (\<lambda>R. (e, pl) \<in> set (delivering (protocol R))) (\<lambda>R. is_answered (pa_ptr e) (protocol R))"
proof (rule fair_weak [OF fair, where g = "Delivering e pl"])
  fix R R' assume R: "rt_reachable E R" "(e, pl) \<in> set (delivering (protocol R))" "rt_step E R R'"
  then show "(e, pl) \<in> set (delivering (protocol R')) \<or> is_answered (pa_ptr e) (protocol R')"
    using one_protocol_step [OF R(1,3)] delivering_step(1) [OF _ reachable_facts(3) [OF R(1)] R(2)] by (metis fst_conv)
next
  fix R R' assume R: "rt_reachable E R" "(e, pl) \<in> set (delivering (protocol R))" "acts E (Delivering e pl) R R'"
  then have m: "delivering (protocol R') = remove1 (e, pl) (delivering (protocol R))" "rt_step E R R'" by (simp_all add: acts_def)
  with R(2) remove1_no_append [of "(e, pl)" "delivering (protocol R)" "[]"] have "protocol R' \<noteq> protocol R" by auto
  then show "is_answered (pa_ptr e) (protocol R')"
    using one_protocol_step [OF R(1) m(2)] delivering_step(2) [OF _ reachable_facts(3) [OF R(1)] R(2) m(1)] by auto
next
  fix R :: runtime assume R: "(e, pl) \<in> set (delivering (protocol R))"
  from acts_intro [OF rt_step.set_goroutines [OF internal.deliver [OF R]], where E = E and g = "Delivering e pl"] R
  show "\<exists>R'. acts E (Delivering e pl) R R'" by auto
qed

text \<open>An entry waits until its timer fires; then the timer's goroutine takes it, if nobody has done so before.\<close>

definition gone :: "nat \<Rightarrow> sys \<Rightarrow> bool" where
  "gone n s \<longleftrightarrow> settled n s \<and> (\<forall>e. waiting e s \<longrightarrow> pa_ptr e \<noteq> n)"

definition settled_entry :: "pendingAck \<Rightarrow> sys \<Rightarrow> bool" where
  "settled_entry e s \<longleftrightarrow> settled (pa_ptr e) s \<and> waiting e s"

lemma settled_entry_step:
  assumes "rt_reachable E R" and "rt_step E R R'" and "settled_entry e (protocol R)"
  shows "settled_entry e (protocol R') \<or> gone (pa_ptr e) (protocol R')"
  using one_protocol_step [OF assms(1,2)] assms(3) settled_step [of E "protocol R" "protocol R'" "pa_ptr e"]
    waiting_step [OF _ reachable_facts(3) [OF assms(1)], of E "protocol R'" e]
  unfolding settled_entry_def gone_def by metis

lemma timer_fires:
  assumes fair: "fair_run E \<sigma>"
  shows "leads_to \<sigma> (\<lambda>R. settled_entry e (protocol R))
    (\<lambda>R. gone (pa_ptr e) (protocol R) \<or> settled_entry e (protocol R) \<and> e \<in> set (firing (protocol R)))"
    (is "leads_to \<sigma> ?W ?Q")
proof -
  let ?P = "\<lambda>R. settled_entry e (protocol R) \<and> timed e (protocol R)"
  have timed: "?P R \<or> ?Q R" if "rt_reachable E R" "?W R" for R
    using waiting_timed [OF reachable_facts(3) [OF that(1)], of e] that(2) by (auto simp: settled_entry_def)
  have "leads_to \<sigma> ?P ?Q"
  proof (rule fair_weak [OF fair, where g = "Timer e"])
    fix R R' assume R: "rt_reachable E R" "?P R" "rt_step E R R'"
    then show "?P R' \<or> ?Q R'"
      using settled_entry_step [of E R R' e] timed [of R'] rt_more [OF R(1,3)] by blast
  next
    fix R R' assume R: "rt_reachable E R" "?P R" "acts E (Timer e) R R'"
    then have "rt_step E R R'" "e \<in> set (firing (protocol R'))" by (simp_all add: acts_def)
    with R(1,2) settled_entry_step [of E R R' e] show "?Q R'" by blast
  next
    fix R assume R: "rt_reachable E R" "?P R"
    then obtain r where "acks (the_con R) = Some r" "e \<in> set (armed r)" by (auto simp: timed_def)
    from acts_intro [OF rt_step.set_goroutines [OF internal.fire [OF this]], where E = E and g = "Timer e"]
    show "\<exists>R'. acts E (Timer e) R R'" by auto
  qed
  with timed fair_runD(2) [OF fair] show ?thesis unfolding leads_to_def by (metis order_refl)
qed

lemma expiry_takes:
  assumes fair: "fair_run E \<sigma>"
  shows "leads_to \<sigma> (\<lambda>R. settled_entry e (protocol R) \<and> e \<in> set (firing (protocol R))) (\<lambda>R. gone (pa_ptr e) (protocol R))"
    (is "leads_to \<sigma> ?P ?Q")
proof (rule fair_weak [OF fair, where g = "Expiry e"])
  fix R R' assume R: "rt_reachable E R" "?P R" "rt_step E R R'"
  have "waiting e (protocol R') \<Longrightarrow> e \<in> set (firing (protocol R'))"
    using one_protocol_step [OF R(1,3)] firing_step(1) [OF _ reachable_facts(3) [OF R(1)]] R(2) by metis
  with settled_entry_step [OF R(1,3)] R(2) show "?P R' \<or> ?Q R'" by (auto simp: settled_entry_def)
next
  fix R R' assume R: "rt_reachable E R" "?P R" "acts E (Expiry e) R R'"
  then have m: "firing (protocol R') = remove1 e (firing (protocol R))" "rt_step E R R'" by (simp_all add: acts_def)
  with R(2) remove1_no_append [of e "firing (protocol R)" "[]"] have "protocol R' \<noteq> protocol R" by auto
  then have "\<not> waiting e (protocol R')"
    using one_protocol_step [OF R(1) m(2)] firing_step(2) [OF _ reachable_facts(3) [OF R(1)] _ m(1)] R(2) by blast
  with settled_entry_step [OF R(1) m(2)] R(2) show "?Q R'" by (auto simp: settled_entry_def)
next
  fix R assume R: "rt_reachable E R" "?P R"
  then obtain r where r: "acks (the_con R) = Some r" by (auto simp: settled_entry_def waiting_def)
  obtain ok r' where rem: "removeLocked e r = (ok, r')" by fastforce
  have e: "e \<in> set (firing (protocol R))" using R(2) by blast
  have "\<exists>s'. internal E (protocol R) s' \<and> firing s' = remove1 e (firing (protocol R))"
    using internal.expire_take [OF e r] internal.expire_gone [OF e r] rem by (cases ok) fastforce+
  then obtain s' where "internal E (protocol R) s'" "firing s' = remove1 e (firing (protocol R))" by blast
  from acts_intro [OF rt_step.set_goroutines [OF this(1)], where g = "Expiry e"] this(2) e
  show "\<exists>R'. acts E (Expiry e) R R'" by auto
qed

lemma gone_answers:
  assumes run: "live_run E \<sigma>"
  shows "leads_to \<sigma> (\<lambda>R. gone n (protocol R)) (\<lambda>R. is_answered n (protocol R))"
proof (rule leads_toI)
  fix i assume "gone n (protocol (\<sigma> i))"
  note R = live_facts [OF live_runD(2) [OF run, of i]] and fair = live_runD(1) [OF run]
  from settled_where [OF reachable_facts(4) [OF R(1)] R(3), of n] \<open>gone n (protocol (\<sigma> i))\<close>
  consider "is_answered n (protocol (\<sigma> i))"
    | e where "e \<in> set (failing (protocol (\<sigma> i)))" "pa_ptr e = n"
    | e pl where "(e, pl) \<in> set (delivering (protocol (\<sigma> i)))" "pa_ptr e = n"
    by (auto simp: gone_def taken_out_def)
  then show "\<exists>j\<ge>i. is_answered n (protocol (\<sigma> j))"
    using leads_toD [OF failing_answers [OF fair]] leads_toD [OF delivering_answers [OF fair]] by cases blast+
qed

lemma settled_answers:
  assumes run: "live_run E \<sigma>"
  shows "leads_to \<sigma> (\<lambda>R. settled n (protocol R)) (\<lambda>R. is_answered n (protocol R))"
proof (rule leads_toI)
  note fair = live_runD(1) [OF run]
  fix i assume n: "settled n (protocol (\<sigma> i))"
  show "\<exists>j\<ge>i. is_answered n (protocol (\<sigma> j))"
  proof (cases "gone n (protocol (\<sigma> i))")
    case True
    with leads_toD [OF gone_answers [OF run]] show ?thesis by blast
  next
    case False
    with n obtain e where e: "settled_entry e (protocol (\<sigma> i))" "pa_ptr e = n"
      by (auto simp: gone_def settled_entry_def)
    from leads_toD [OF timer_fires [OF fair] this(1)] leads_toD [OF expiry_takes [OF fair], of e]
    obtain j where "j \<ge> i" "gone n (protocol (\<sigma> j))" using e(2) by (metis order_trans)
    with leads_toD [OF gone_answers [OF run]] show ?thesis by (meson order_trans)
  qed
qed

lemma live_answers:
  assumes "live_run E \<sigma>"
  shows "leads_to \<sigma> (\<lambda>R. n < length (filter (is_set E) (posted R))) (\<lambda>R. is_answered n (protocol R))"
  by (rule leads_to_trans [OF let_go [OF assms] settled_answers [OF assms]])

end
