(* ===== verification/FairShutdown.thy ===== *)
theory FairShutdown
  imports FairAnswers
begin

section \<open>The shutdown under fairness\<close>

text \<open>
  In a fair run in which no device list makes the handler panic and the event channel does not
  jam, every goroutine that \<^verbatim>\<open>main\<close> waits for returns once the context has ended.
\<close>

definition no_panics :: "env \<Rightarrow> (nat \<Rightarrow> runtime) \<Rightarrow> bool" where
  "no_panics E \<sigma> \<longleftrightarrow> (\<forall>i. \<not> round_panics E (dstage (\<sigma> i), dloop (\<sigma> i), the_con (\<sigma> i)))"

subsection \<open>The device loop\<close>

lemma dstage_step:
  assumes "rt_step E R R'"
  shows "dstage R' = dstage R
    \<or> dstage R = DvWait
    \<or> (\<exists>L' c'. dstage R \<noteq> DvEnd \<and> device_step E (dstage R) (dloop R) (the_con R) = Some (dstage R', L', c'))"
  using assms
proof (cases rule: rt_step.cases)
  case (callback before p rest after R1)
  then show ?thesis using perform_frame(4) [OF callback(3)] by simp
next
  case (device_work st' L' c')
  then show ?thesis using device_round_step [OF device_work(2)] by auto
qed auto

lemma record_result_neq: "todo w = d # ds \<Longrightarrow> record_result e r (w\<lparr>todo := ds\<rparr>) \<noteq> w"
  by (metis record_result_fields(1) device_work.select_convs(1) device_work.surjective device_work.update_convs(1) not_Cons_self2)

lemma device_step_moves:
  "device_step E st L c = Some (st', L', c') \<Longrightarrow> st \<noteq> DvWait \<Longrightarrow> st \<noteq> DvEnd \<Longrightarrow> st' \<noteq> st"
  by (cases "(E, st, L, c)" rule: device_step.cases)
     (auto simp: Let_def section_moves record_result_neq type_looked_up_def type_created_def
       split: list.splits prod.splits sum.splits if_splits)

abbreviation device_ready :: "runtime \<Rightarrow> bool" where
  "device_ready R \<equiv> dstage R = DvWait \<or> dstage R = DvEnd"

lemma device_loop_moves:
  assumes fair: "fair_run E \<sigma>" and np: "no_panics E \<sigma>" and st: "st \<noteq> DvWait" "st \<noteq> DvEnd"
  shows "leads_to \<sigma> (\<lambda>R. dstage R = st) (\<lambda>R. \<exists>L c L' c'. device_step E st L c = Some (dstage R, L', c'))"
    (is "leads_to \<sigma> ?P ?Q")
proof -
  have step: "dstage R' = st \<or> ?Q R'" if "dstage R = st" "rt_step E R R'" for R R'
    using dstage_step [OF that(2)] that(1) st by auto
  show ?thesis
  proof (rule sched.weak_progress [where I = "\<lambda>R. \<not> round_panics E (dstage R, dloop R, the_con R)" and g = DeviceLoop,
        OF fair_runD(1) [OF fair] _ fair_runD(3) [OF fair]])
    show "\<not> round_panics E (dstage (\<sigma> i), dloop (\<sigma> i), the_con (\<sigma> i))" for i using np by (simp add: no_panics_def)
  next
    fix R R' assume "?P R" "rt_step E R R'"
    then show "?P R' \<or> ?Q R'" by (rule step)
  next
    fix R R' assume "?P R" "acts E DeviceLoop R R'"
    with step [of R R'] show "?Q R'" by (auto simp: acts_def)
  next
    fix R :: runtime assume R: "?P R" "\<not> round_panics E (dstage R, dloop R, the_con R)"
    with st obtain st' L' c' where w: "device_step E st (dloop R) (the_con R) = Some (st', L', c')"
      by (auto simp: round_panics_def)
    with st R(1) have "device_round E (dstage R, dloop R, the_con R) (st', L', c')" by (simp add: device_round_def)
    from rt_step.device_work [OF this] device_step_moves [OF w st] R(1)
    show "\<exists>R'. acts E DeviceLoop R R'" by (intro exI acts_intro) auto
  qed
qed

lemma device_waits:
  assumes fair: "fair_run E \<sigma>" and np: "no_panics E \<sigma>"
  shows "leads_to \<sigma> (\<lambda>R. True) device_ready"
proof -
  have stage: "leads_to \<sigma> (\<lambda>R. dstage R = st) device_ready" for st
  proof (induction st rule: device_stage_induct [of E])
    case (stage st)
    show ?case
    proof (cases "st = DvWait \<or> st = DvEnd")
      case False
      with stage have "leads_to \<sigma> (\<lambda>R. \<exists>L c L' c'. device_step E st L c = Some (dstage R, L', c')) device_ready"
        unfolding leads_to_def by blast
      with device_loop_moves [OF fair np, of st] False show ?thesis by (meson leads_to_trans)
    qed (auto simp: leads_to_def)
  qed
  then show ?thesis by (simp add: leads_to_def)
qed

subsection \<open>Each goroutine returns\<close>

text \<open>A loop that comes to its \<^verbatim>\<open>select\<close> again and again sees the end of the context.\<close>

lemma loop_stops:
  assumes fair: "fair_run E \<sigma>" and g: "strongly_fair (acts E g) \<sigma>"
    and moves: "\<And>R R'. moves g R R' \<Longrightarrow> ended R'"
    and ready: "leads_to \<sigma> (\<lambda>R. True) (\<lambda>R. ready R \<or> ended R)"
    and stops: "\<And>R. rt_reachable E R \<Longrightarrow> cancelled R \<Longrightarrow> ready R \<Longrightarrow> \<not> ended R \<Longrightarrow> \<exists>R'. acts E g R R'"
  shows "leads_to \<sigma> cancelled ended"
proof -
  let ?P = "\<lambda>R. cancelled R \<and> \<not> ended R"
  have "leads_to \<sigma> ?P ended"
  proof (rule fair_strong [OF fair g])
    fix R R' assume "?P R" "rt_step E R R'"
    then show "?P R' \<or> ended R'" using further_step [of E R R'] by (auto simp: further_def)
  next
    fix R R' assume "acts E g R R'"
    then show "ended R'" using moves unfolding acts_def by blast
  next
    show "leads_to \<sigma> ?P (\<lambda>R. ?P R \<longrightarrow> (\<exists>R'. acts E g R R'))"
    proof (rule leads_toI)
      fix i
      from leads_toD [OF ready, of i] obtain j where "j \<ge> i" "ready (\<sigma> j) \<or> ended (\<sigma> j)" by auto
      with stops fair_runD(2) [OF fair] show "\<exists>j\<ge>i. ?P (\<sigma> j) \<longrightarrow> (\<exists>R'. acts E g (\<sigma> j) R')" by blast
    qed
  qed
  then show ?thesis unfolding leads_to_def by (metis order_refl)
qed

lemma event_loop_stops:
  assumes fair: "fair_run E \<sigma>"
  shows "leads_to \<sigma> cancelled (\<lambda>R. estage R = EvEnd)"
proof (rule loop_stops [OF fair fair_runD(6) [OF fair] _ event_waits [OF fair]])
  fix R :: runtime assume "cancelled R" "estage R = EvWait"
  from acts_intro [OF rt_step.event_stop [OF this], where E = E and g = EventStop] this
  show "\<exists>R'. acts E EventStop R R'" by auto
qed simp

lemma device_loop_stops:
  assumes fair: "fair_run E \<sigma>" and np: "no_panics E \<sigma>"
  shows "leads_to \<sigma> cancelled (\<lambda>R. dstage R = DvEnd)"
proof (rule loop_stops [OF fair fair_runD(7) [OF fair] _ device_waits [OF fair np]])
  fix R :: runtime assume "cancelled R" "dstage R = DvWait"
  from acts_intro [OF rt_step.device_stop [OF this], where E = E and g = DeviceStop] this
  show "\<exists>R'. acts E DeviceStop R R'" by auto
qed simp

lemma command_loop_stops:
  assumes fair: "fair_run E \<sigma>" and free: "never_jams \<sigma>"
  shows "leads_to \<sigma> cancelled (\<lambda>R. cstage R = CmdEnd)"
proof (rule loop_stops [OF fair fair_runD(5) [OF fair], where ready = "\<lambda>R. command_rank R = 0"])
  show "leads_to \<sigma> (\<lambda>R. True) (\<lambda>R. command_rank R = 0 \<or> cstage R = CmdEnd)"
    using command_loop_returns [OF fair free] unfolding leads_to_def by blast
next
  fix R assume R: "rt_reachable E R" "cancelled R" "command_rank R = 0" "cstage R \<noteq> CmdEnd"
  with command_rank_0 [OF rt_reachable_inv [OF R(1)]] have "cstage R = CmdWait" "handling (protocol R) = None" by simp_all
  from acts_intro [OF rt_step.command_stop [OF R(2) this], where E = E and g = CommandStop] this
  show "\<exists>R'. acts E CommandStop R R'" by auto
qed simp

text \<open>What needs a bounded number of steps of one goroutine, is done.\<close>

lemma fair_countdown:
  fixes m :: "runtime \<Rightarrow> nat"
  assumes fair: "fair_run E \<sigma>"
    and down: "\<And>R R'. rt_reachable E R \<Longrightarrow> P R \<Longrightarrow> rt_step E R R' \<Longrightarrow> Q R' \<or> P R' \<and> m R' \<le> m R"
    and less: "\<And>R R'. rt_reachable E R \<Longrightarrow> P R \<Longrightarrow> rt_step E R R' \<Longrightarrow> moves g R R' \<Longrightarrow> Q R' \<or> m R' < m R"
    and can: "\<And>R. rt_reachable E R \<Longrightarrow> P R \<Longrightarrow> \<exists>R'. acts E g R R'"
  shows "leads_to \<sigma> P Q"
proof (rule leads_to_measure)
  fix k
  let ?Pk = "\<lambda>R. P R \<and> m R = k" and ?Qk = "\<lambda>R. Q R \<or> P R \<and> m R < k"
  show "leads_to \<sigma> ?Pk ?Qk"
  proof (rule fair_weak [OF fair, where g = g])
    fix R R' assume "rt_reachable E R" "?Pk R" "rt_step E R R'"
    then show "?Pk R' \<or> ?Qk R'" using down [of R R'] by fastforce
  next
    fix R R' assume "rt_reachable E R" "?Pk R" "acts E g R R'"
    then show "?Qk R'" using down [of R R'] less [of R R'] by (auto simp: acts_def)
  qed (use can in blast)
qed

lemma stops_by_countdown:
  fixes m :: "runtime \<Rightarrow> nat"
  assumes fair: "fair_run E \<sigma>"
    and down: "\<And>R R'. rt_reachable E R \<Longrightarrow> base R \<Longrightarrow> rt_step E R R' \<Longrightarrow> base R' \<and> m R' \<le> m R"
    and less: "\<And>R R'. rt_reachable E R \<Longrightarrow> base R \<Longrightarrow> rt_step E R R' \<Longrightarrow> moves g R R' \<Longrightarrow> ended R' \<or> m R' < m R"
    and can: "\<And>R. rt_reachable E R \<Longrightarrow> base R \<Longrightarrow> \<not> ended R \<Longrightarrow> \<exists>R'. acts E g R R'"
  shows "leads_to \<sigma> base ended"
proof -
  have "leads_to \<sigma> (\<lambda>R. base R \<and> \<not> ended R) ended"
    by (rule fair_countdown [OF fair, where m = m and g = g]) (use down less can in blast)+
  then show ?thesis unfolding leads_to_def by (metis order_refl)
qed

lemma still_cancelled: "rt_step E R R' \<Longrightarrow> cancelled R \<Longrightarrow> cancelled R'"
  using further_step [of E R R'] by (simp add: further_def)

lemma clients_stop:
  assumes fair: "fair_run E \<sigma>"
  shows "leads_to \<sigma> cancelled (\<lambda>R. \<not> zigbee_up R)" and "leads_to \<sigma> cancelled (\<lambda>R. \<not> gateway_up R)"
proof -
  show "leads_to \<sigma> cancelled (\<lambda>R. \<not> zigbee_up R)"
  proof (rule stops_by_countdown [OF fair, where m = "\<lambda>R. 0" and g = ZigbeeStop])
    fix R :: runtime assume "cancelled R" "\<not> \<not> zigbee_up R"
    with rt_step.zigbee_disconnect [of R E] show "\<exists>R'. acts E ZigbeeStop R R'" by (intro exI acts_intro) auto
  qed (use still_cancelled in auto)
  show "leads_to \<sigma> cancelled (\<lambda>R. \<not> gateway_up R)"
  proof (rule stops_by_countdown [OF fair, where m = "\<lambda>R. 0" and g = GatewayStop])
    fix R :: runtime assume "cancelled R" "\<not> \<not> gateway_up R"
    with rt_step.gateway_disconnect [of R E] show "\<exists>R'. acts E GatewayStop R R'" by (intro exI acts_intro) auto
  qed (use still_cancelled in auto)
qed

text \<open>The watcher closes the registry and leaves the wait group.\<close>

lemma open_step:
  assumes "rt_reachable E R" and "rt_step E R R'"
  shows "is_open (protocol R') \<Longrightarrow> is_open (protocol R)"
proof -
  have "closed_le (acks (the_con R)) (acks (the_con R'))"
    using one_protocol_step [OF assms] sys_inv_step [OF _ reachable_facts(3) [OF assms(1)]] by (metis closed_le_refl)
  then show "is_open (protocol R') \<Longrightarrow> is_open (protocol R)"
    by (cases "acks (the_con R)"; cases "acks (the_con R')") (auto simp: closed_le_def is_open_def)
qed

lemma watcher_can:
  assumes "rt_reachable E R" and "cancelled R" and "watcher (protocol R)"
  shows "\<exists>R'. acts E Watcher R R'"
proof -
  from watcher_registry [OF rt_refines [OF assms(1)] assms(3)] obtain r where r: "acks (the_con R) = Some r" by blast
  show ?thesis
  proof (cases "ack_closed r")
    case True
    from acts_intro [OF rt_step.registry_done [OF assms(2) r assms(3) True], where E = E and g = Watcher] assms(3)
    show ?thesis by auto
  next
    case False
    have "ack_wf r" using reachable_facts(3) [OF assms(1)] r by (simp add: sys_inv_def reg_inv_Some)
    with False r have "is_open (protocol R)" "\<not> is_open (set_reg (ack_close r) (protocol R))"
      using ack_close_result by (simp_all add: is_open_def)
    with acts_intro [OF rt_step.registry_close [OF assms(2) r assms(3) False], where E = E and g = Watcher] assms(3)
    show ?thesis by auto
  qed
qed

lemma watcher_stops:
  assumes fair: "fair_run E \<sigma>"
  shows "leads_to \<sigma> cancelled (\<lambda>R. \<not> watcher (protocol R))"
proof (rule stops_by_countdown [OF fair, where m = "\<lambda>R. of_bool (is_open (protocol R))" and g = Watcher])
  fix R R' assume "rt_reachable E R" "cancelled R" "rt_step E R R'"
  then show "cancelled R' \<and> (of_bool (is_open (protocol R')) :: nat) \<le> of_bool (is_open (protocol R))"
    using still_cancelled open_step by simp
next
  fix R R' assume "moves Watcher R R'"
  then show "\<not> watcher (protocol R') \<or> (of_bool (is_open (protocol R')) :: nat) < of_bool (is_open (protocol R))" by auto
qed (use watcher_can in blast)

subsection \<open>The goroutines the others have left behind\<close>

lemma refreshers_step:
  assumes "dstage R = DvEnd" and "rt_step E R R'"
  shows "dstage R' = DvEnd" and "requests_left R' \<le> requests_left R"
proof -
  show "dstage R' = DvEnd" using further_step [OF assms(2)] assms(1) by (simp add: further_def)
  show "requests_left R' \<le> requests_left R"
    using assms(2)
  proof (cases rule: rt_step.cases)
    case (callback before p rest after R1)
    then show ?thesis using perform_frame(8) [OF callback(3)] by (simp add: requests_left_def)
  next
    case (device_work st' L' c')
    then show ?thesis using device_round_frame(1) [OF device_work(2)] assms(1) by simp
  qed (use assms(1) in \<open>simp_all add: requests_left_def\<close>)
qed

lemma refreshers_stop:
  assumes fair: "fair_run E \<sigma>"
  shows "leads_to \<sigma> (\<lambda>R. dstage R = DvEnd) (\<lambda>R. dstage R = DvEnd \<and> refreshing (dloop R) = [])"
proof (rule stops_by_countdown [OF fair, where m = requests_left and g = Refreshers])
  fix R :: runtime assume "dstage R = DvEnd" "\<not> (dstage R = DvEnd \<and> refreshing (dloop R) = [])"
  then obtain l after where l: "refreshing (dloop R) = [] @ l # after" by (cases "refreshing (dloop R)") auto
  show "\<exists>R'. acts E Refreshers R R'"
  proof (cases l)
    case Nil
    with l have "refreshing (dloop R) = [] @ [] # after" by simp
    from acts_intro [OF rt_step.recovered_done [OF this], where E = E and g = Refreshers] l show ?thesis
      by (auto simp: requests_left_def)
  next
    case (Cons device ds)
    with l have "refreshing (dloop R) = [] @ (device # ds) # after" by simp
    from acts_intro [OF rt_step.recovered_request [OF this], where E = E and g = Refreshers] l Cons show ?thesis
      by (auto simp: requests_left_def)
  qed
qed (use refreshers_step in auto)

text \<open>Once the watcher has returned the registry is closed, and no delivery begins any more.\<close>

lemma deliveries_step:
  assumes "rt_reachable E R" and "\<not> watcher (protocol R)" and "rt_step E R R'"
  shows "\<not> watcher (protocol R')"
    and "delivering (protocol R') = delivering (protocol R)
      \<or> length (delivering (protocol R')) < length (delivering (protocol R))"
proof -
  show "\<not> watcher (protocol R')" using further_step [OF assms(3)] assms(2) by (simp add: further_def)
  note wg = reachable_wg [OF rt_refines [OF assms(1)]]
  show "delivering (protocol R') = delivering (protocol R)
      \<or> length (delivering (protocol R')) < length (delivering (protocol R))"
  proof (cases "internal E (protocol R) (protocol R')")
    case True
    then show ?thesis
    proof (cases rule: internal.cases)
      case (observe_end ieee pl st r matched r')
      then have "matched = []" using assms(2) wg by (auto simp: wg_ok_def observe_match_def)
      with observe_end show ?thesis by simp
    next
      case (deliver e pl)
      then show ?thesis using length_remove1_less [OF deliver(2)] by simp
    qed simp_all
  next
    case False
    with one_protocol_step [OF assms(1,3)] have "protocol R' = protocol R \<or> external E (protocol R) (protocol R')"
      by (auto simp: step_def)
    then show ?thesis by (auto elim: external.cases)
  qed
qed

lemma deliveries_end:
  assumes fair: "fair_run E \<sigma>"
  shows "leads_to \<sigma> (\<lambda>R. \<not> watcher (protocol R)) (\<lambda>R. \<not> watcher (protocol R) \<and> delivering (protocol R) = [])"
proof (rule leads_to_measure)
  fix k
  let ?n = "\<lambda>R. length (delivering (protocol R))"
  let ?Q = "\<lambda>R. \<not> watcher (protocol R) \<and> delivering (protocol R) = [] \<or> \<not> watcher (protocol R) \<and> ?n R < k"
  have one: "leads_to \<sigma> (\<lambda>R. \<not> watcher (protocol R) \<and> delivering (protocol R) = (e, pl) # l \<and> ?n R = k) ?Q"
    (is "leads_to \<sigma> ?P ?Q") for e pl l
  proof (rule fair_weak [OF fair, where g = "Delivering e pl"])
    fix R R' assume R: "rt_reachable E R" "?P R" "rt_step E R R'"
    then show "?P R' \<or> ?Q R'" using deliveries_step [OF R(1) _ R(3)] by fastforce
  next
    fix R R' assume R: "rt_reachable E R" "?P R" "acts E (Delivering e pl) R R'"
    then show "?Q R'" using deliveries_step [OF R(1), of R'] by (auto simp: acts_def)
  next
    fix R assume R: "rt_reachable E R" "?P R"
    then have d: "(e, pl) \<in> set (delivering (protocol R))" by simp
    from acts_intro [OF rt_step.set_goroutines [OF internal.deliver [OF d]], where E = E and g = "Delivering e pl"] R
    show "\<exists>R'. acts E (Delivering e pl) R R'" by auto
  qed
  show "leads_to \<sigma> (\<lambda>R. \<not> watcher (protocol R) \<and> ?n R = k) ?Q"
  proof (rule leads_toI)
    fix i assume "\<not> watcher (protocol (\<sigma> i)) \<and> ?n (\<sigma> i) = k"
    with leads_toD [OF one, of i] show "\<exists>j\<ge>i. ?Q (\<sigma> j)" by (cases "delivering (protocol (\<sigma> i))") auto
  qed
qed

subsection \<open>All of them\<close>

text \<open>What lasts once it has come, comes together.\<close>

definition lasting :: "env \<Rightarrow> (runtime \<Rightarrow> bool) \<Rightarrow> bool" where
  "lasting E A \<longleftrightarrow> (\<forall>R R'. rt_reachable E R \<longrightarrow> A R \<longrightarrow> rt_step E R R' \<longrightarrow> A R')"

lemma lasting_later:
  assumes fair: "fair_run E \<sigma>" and A: "lasting E A" "A (\<sigma> i)" and "i \<le> j"
  shows "A (\<sigma> j)"
  using \<open>i \<le> j\<close>
proof (induction j rule: dec_induct)
  case (step j)
  have "\<sigma> (Suc j) = \<sigma> j \<or> rt_step E (\<sigma> j) (\<sigma> (Suc j))" using fair_runD(1) [OF fair] by (simp add: run_of_def)
  with step.IH A(1) fair_runD(2) [OF fair, of j] show ?case by (auto simp: lasting_def)
qed (rule A(2))

lemma leads_to_all:
  assumes fair: "fair_run E \<sigma>" and "\<And>A. A \<in> set As \<Longrightarrow> leads_to \<sigma> P A \<and> lasting E A"
  shows "leads_to \<sigma> P (\<lambda>R. \<forall>A \<in> set As. A R)"
  using assms(2)
proof (induction As)
  case Nil
  then show ?case by (auto simp: leads_to_def)
next
  case (Cons A As)
  have all: "lasting E (\<lambda>R. \<forall>A \<in> set As. A R)" using Cons.prems by (simp add: lasting_def) blast
  show ?case
  proof (rule leads_toI)
    fix i assume i: "P (\<sigma> i)"
    from leads_toD [of \<sigma> P A, OF _ i] Cons.prems obtain j where j: "j \<ge> i" "A (\<sigma> j)" by auto
    from leads_toD [OF Cons.IH i] Cons.prems obtain k where k: "k \<ge> i" "\<forall>A \<in> set As. A (\<sigma> k)" by auto
    have "A (\<sigma> (max j k))"
      by (rule lasting_later [where A = A and i = j, OF fair]) (use Cons.prems j in auto)
    moreover have "\<forall>A \<in> set As. A (\<sigma> (max j k))"
      by (rule lasting_later [where i = k, OF fair all]) (use k in auto)
    ultimately show "\<exists>j\<ge>i. \<forall>A \<in> set (A # As). A (\<sigma> j)" using j(1) by (intro exI [of _ "max j k"]) auto
  qed
qed

lemma lasting_ends [simp]:
  "lasting E (\<lambda>R. estage R = EvEnd)" "lasting E (\<lambda>R. cstage R = CmdEnd)"
  "lasting E (\<lambda>R. dstage R = DvEnd \<and> refreshing (dloop R) = [])"
  "lasting E (\<lambda>R. \<not> zigbee_up R)" "lasting E (\<lambda>R. \<not> gateway_up R)"
  "lasting E (\<lambda>R. \<not> watcher (protocol R) \<and> delivering (protocol R) = [])"
proof -
  have stays: "lasting E A" if "\<And>R R'. further R R' \<Longrightarrow> A R \<Longrightarrow> A R'" for A
    unfolding lasting_def using that [OF further_step] by blast
  show "lasting E (\<lambda>R. estage R = EvEnd)" "lasting E (\<lambda>R. cstage R = CmdEnd)"
    "lasting E (\<lambda>R. dstage R = DvEnd \<and> refreshing (dloop R) = [])"
    "lasting E (\<lambda>R. \<not> zigbee_up R)" "lasting E (\<lambda>R. \<not> gateway_up R)"
    by (rule stays; simp add: further_def)+
  show "lasting E (\<lambda>R. \<not> watcher (protocol R) \<and> delivering (protocol R) = [])"
    unfolding lasting_def
  proof (intro allI impI)
    fix R R' assume R: "rt_reachable E R" "\<not> watcher (protocol R) \<and> delivering (protocol R) = []" "rt_step E R R'"
    then show "\<not> watcher (protocol R') \<and> delivering (protocol R') = []"
      using deliveries_step [OF R(1) _ R(3)] by auto
  qed
qed

lemma fair_shutdown:
  assumes fair: "fair_run E \<sigma>" and np: "no_panics E \<sigma>" and free: "never_jams \<sigma>"
  shows "leads_to \<sigma> cancelled all_ended"
proof -
  have dev: "leads_to \<sigma> cancelled (\<lambda>R. dstage R = DvEnd \<and> refreshing (dloop R) = [])"
    by (rule leads_to_trans [OF device_loop_stops [OF fair np] refreshers_stop [OF fair]])
  have reg: "leads_to \<sigma> cancelled (\<lambda>R. \<not> watcher (protocol R) \<and> delivering (protocol R) = [])"
    by (rule leads_to_trans [OF watcher_stops [OF fair] deliveries_end [OF fair]])
  let ?As = "[\<lambda>R. estage R = EvEnd, \<lambda>R. cstage R = CmdEnd, \<lambda>R. dstage R = DvEnd \<and> refreshing (dloop R) = [],
    \<lambda>R. \<not> zigbee_up R, \<lambda>R. \<not> gateway_up R, \<lambda>R. \<not> watcher (protocol R) \<and> delivering (protocol R) = []]"
  have "leads_to \<sigma> cancelled (\<lambda>R. \<forall>A \<in> set ?As. A R)"
    by (rule leads_to_all [OF fair])
       (use dev reg event_loop_stops [OF fair] command_loop_stops [OF fair free] clients_stop [OF fair] in auto)
  moreover have "(\<forall>A \<in> set ?As. A R) \<longleftrightarrow> all_ended R" for R :: runtime
    by (auto simp: all_ended_def)
  ultimately show ?thesis by simp
qed

end
