(* ===== verification/RestingRuns.thy ===== *)
theory RestingRuns
  imports FairShutdown
begin

section \<open>Runs that come to rest\<close>

text \<open>
  A run that has come to a state in which no goroutine can go on, and stays there, is fair; before
  the shutdown every state in which no callback and no event is under way has such a run.
\<close>

definition loops_at_rest :: "runtime \<Rightarrow> bool" where
  "loops_at_rest R \<longleftrightarrow> (cstage R = CmdWait \<and> commandbuffer R = [] \<or> cstage R = CmdEnd)
     \<and> (estage R = EvWait \<and> eventbuffer R = [] \<or> estage R = EvEnd)
     \<and> (dstage R = DvWait \<and> deviceupdatebuffer R = [] \<and> \<not> loop_enabled RetryTimer (dloop R) \<or> dstage R = DvEnd)"

definition at_rest :: "runtime \<Rightarrow> bool" where
  "at_rest R \<longleftrightarrow> idle (protocol R) \<and> loops_at_rest R \<and> refreshing (dloop R) = []
     \<and> (\<forall>cb \<in> set (callbacks R). cb = []) \<and> (cancelled R \<longrightarrow> all_ended R)"

lemma idle_internal: "idle s \<Longrightarrow> \<not> internal E s s'"
  by (auto simp: idle_def elim!: internal.cases)

lemma external_lists:
  "external E s s' \<Longrightarrow> firing s' = firing s \<and> failing s' = failing s \<and> delivering s' = delivering s"
  by (erule external.cases) simp_all

lemma callbacks_step:
  assumes "rt_step E R R'" and "k < length (callbacks R)" and "callbacks R ! k = []"
  shows "callbacks R' ! k = []"
  using assms(1)
proof (cases rule: rt_step.cases)
  case (callback before p rest after R1)
  with assms(2,3) show ?thesis by (auto simp: nth_append nth_Cons' split: if_splits)
qed (use assms(2,3) in \<open>simp_all add: nth_append\<close>)

text \<open>What a step leaves alone in a state at rest.\<close>

lemma rest_step:
  assumes rest: "at_rest R" and "rt_step E R R'"
  shows "cstage R' = cstage R \<and> handling (protocol R') = handling (protocol R) \<and> estage R' = estage R \<and> dstage R' = dstage R
    \<and> requests_left R' = requests_left R \<and> zigbee_up R' = zigbee_up R \<and> gateway_up R' = gateway_up R
    \<and> watcher (protocol R') = watcher (protocol R) \<and> is_open (protocol R') = is_open (protocol R)"
  using assms(2)
proof (cases rule: rt_step.cases)
  case (callback before p rest after R1)
  then show ?thesis
    using perform_frame [OF callback(3)] perform_members(2) [OF callback(3)] perform_command [OF callback(3)]
    by (simp add: requests_left_def)
next
  case (set_goroutines s')
  with idle_internal rest show ?thesis by (simp add: at_rest_def)
next
  case (device_work st' L' c')
  with device_round_frame(1,2) [OF device_work(2)] rest show ?thesis by (simp add: at_rest_def loops_at_rest_def)
next
  case (event_work st' c')
  with event_round_frame(1,2) [OF event_work(2)] rest show ?thesis by (simp add: at_rest_def loops_at_rest_def)
next
  case (recovered_request before device ds after)
  with rest show ?thesis by (simp add: at_rest_def)
qed (use rest in \<open>simp_all add: at_rest_def loops_at_rest_def all_ended_def requests_left_def is_open_acks\<close>)

lemma at_rest_stays:
  assumes R: "rt_reachable E R" and rest: "at_rest R"
  shows "\<not> acts E g R R'"
proof
  assume "acts E g R R'"
  then have st: "rt_step E R R'" "moves g R R'" by (simp_all add: acts_def)
  have idle: "idle (protocol R)" using rest by (simp add: at_rest_def)
  have lists: "firing (protocol R') = firing (protocol R)" "failing (protocol R') = failing (protocol R)"
    "delivering (protocol R') = delivering (protocol R)"
    using one_protocol_step [OF R st(1)] idle_internal [OF idle] external_lists by (metis step_def)+
  show False
  proof (cases g)
    case (Callback k)
    with rest st(2) have "k < length (callbacks R)" "callbacks R ! k = []" by (auto simp: at_rest_def)
    with callbacks_step [OF st(1) this] Callback st(2) show False by simp
  qed (use rest_step [OF rest st(1)] idle lists st(2) in \<open>auto simp: idle_def\<close>)
qed

text \<open>The run keeps what the steps to its end keep.\<close>

definition keeping :: "(runtime \<Rightarrow> bool) \<Rightarrow> env \<Rightarrow> runtime \<Rightarrow> runtime \<Rightarrow> bool" where
  "keeping ok E R R' \<longleftrightarrow> rt_step E R R' \<and> ok R'"

interpretation keeping: sub_execution "rt_step E" "rt_reachable E" "keeping ok E" for ok E
  by unfold_locales (simp add: keeping_def)

lemma resting_run:
  assumes R: "rt_reachable E R" and path: "(keeping ok E)\<^sup>*\<^sup>* R R'" and "ok R" and rest: "at_rest R'"
  obtains \<sigma> k where "fair_run E \<sigma>" "\<sigma> 0 = R" "\<And>j. j \<ge> k \<Longrightarrow> \<sigma> j = R'" "\<And>i. ok (\<sigma> i)"
proof -
  obtain k f where f: "f 0 = R" "f k = R'" "\<And>i. i < k \<Longrightarrow> keeping ok E (f i) (f (Suc i))"
    using path unfolding rtranclp_power relpowp_fun_conv by blast
  let ?\<sigma> = "\<lambda>i. f (min i k)"
  have one: "?\<sigma> (Suc i) = ?\<sigma> i \<or> keeping ok E (?\<sigma> i) (?\<sigma> (Suc i))" for i
    using f(3) by (cases "i < k") (simp_all add: min_def)
  have end_: "?\<sigma> j = R'" if "j \<ge> k" for j using that f(2) by simp
  have strong: "strongly_fair (acts E g) ?\<sigma>" for g
    unfolding strongly_fair_def
  proof (intro allI impI)
    fix i assume "\<forall>j\<ge>i. \<exists>m\<ge>j. \<exists>R. acts E g (?\<sigma> m) R"
    then obtain m R1 where "m \<ge> max i k" "acts E g (?\<sigma> m) R1" by (meson max.cobounded1)
    then have "acts E g R' R1" using end_ [of m] by simp
    with at_rest_stays [OF keeping.sub.reach_run [OF path R] rest]
    show "\<exists>j\<ge>i. acts E g (?\<sigma> j) (?\<sigma> (Suc j))" by blast
  qed
  have fair: "fair_run E ?\<sigma>"
    using one strong strongly_weakly_fair [OF strong] R f(1) by (simp add: fair_run_def run_of_def keeping_def) blast
  have "ok (?\<sigma> i)" for i
  proof (induction i)
    case (Suc i)
    with one [of i] show ?case unfolding keeping_def by metis
  qed (simp add: f(1) \<open>ok R\<close>)
  with that [OF fair, of k] f(1) end_ show thesis by simp
qed

subsection \<open>From a command to the rest\<close>

lemma own_keeping: "(own_step E)\<^sup>*\<^sup>* R R' \<Longrightarrow> \<not> cancelled R \<Longrightarrow> (keeping (\<lambda>R. \<not> cancelled R) E)\<^sup>*\<^sup>* R R'"
proof (induction rule: rtranclp_induct)
  case (step R1 R2)
  then have "keeping (\<lambda>R. \<not> cancelled R) E R1 R2" using own_run_frame [OF step(1)] by (simp add: own_step_def keeping_def)
  with step show ?case by (meson rtranclp.rtrancl_into_rtrancl)
qed simp

lemma resting_live_run:
  assumes "rt_reachable E R" and "(keeping (\<lambda>R. \<not> cancelled R) E)\<^sup>*\<^sup>* R R'" and "at_rest R'" and "\<not> cancelled R"
  shows "\<exists>\<sigma> k. live_run E \<sigma> \<and> \<sigma> 0 = R \<and> (\<forall>j\<ge>k. \<sigma> j = R')"
proof -
  from resting_run [OF assms(1,2,4,3)] obtain \<sigma> k where
    "fair_run E \<sigma>" "\<sigma> 0 = R" "\<And>j. j \<ge> k \<Longrightarrow> \<sigma> j = R'" "\<And>i. \<not> cancelled (\<sigma> i)" by metis
  then show ?thesis by (auto simp: live_run_def)
qed

lemma own_to_rest:
  assumes "rt_reachable E R" and "(own_step E)\<^sup>*\<^sup>* R R1"
  shows "\<exists>s. (own_step E)\<^sup>*\<^sup>* R (R1\<lparr>protocol := s\<rparr>) \<and> idle s"
proof -
  from reach_protocol_idle [OF own.sub.reach_run [OF assms(2,1)]] obtain s where
    "(own_step E)\<^sup>*\<^sup>* R1 (R1\<lparr>protocol := s\<rparr>)" "idle s" .
  with assms(2) show ?thesis by (meson rtranclp_trans)
qed

lemma command_to_idle:
  assumes R: "rt_reachable E R" and look: "cstage R = CmdLookup d" and mux: "value_mux R = None"
  shows "\<exists>s. (own_step E)\<^sup>*\<^sup>* R (R\<lparr>cstage := CmdWait, protocol := s\<rparr>) \<and> idle s"
proof -
  have own: "own_step E R' R''" if "rt_step E R' R''" "posted R'' = posted R'" "commandbuffer R'' = commandbuffer R'"
    "cancelled R'' = cancelled R'" for R' R'' using that by (simp add: own_step_def)
  have valued: "\<exists>s. (own_step E)\<^sup>*\<^sup>* R (R\<lparr>cstage := CmdWait, protocol := s\<rparr>)"
    if "(own_step E)\<^sup>*\<^sup>* R (R\<lparr>cstage := CmdValue d ieee ex v\<rparr>)" for ieee ex v
  proof -
    have "own_step E (R\<lparr>cstage := CmdValue d ieee ex v\<rparr>) (R\<lparr>cstage := CmdWait, protocol := finish_command E d ieee ex v (protocol R)\<rparr>)"
      using own [OF rt_step.command_finish [of "R\<lparr>cstage := CmdValue d ieee ex v\<rparr>" d ieee ex v E]] by simp
    with that show ?thesis by (meson rtranclp.rtrancl_into_rtrancl)
  qed
  have "\<exists>s. (own_step E)\<^sup>*\<^sup>* R (R\<lparr>cstage := CmdWait, protocol := s\<rparr>)"
  proof (cases "needs_value E d (the_con R)")
    case None
    have "own_step E R (R\<lparr>cstage := CmdWait, protocol := direct_command E d (protocol R)\<rparr>)"
      using own [OF rt_step.command_direct [OF look None]] by simp
    then show ?thesis by blast
  next
    case (Some ieee)
    have lookup: "own_step E R (R\<lparr>cstage := command_lookup d ieee (the_con R)\<rparr>)"
      using own [OF rt_step.command_lookup [OF look Some]] by simp
    show ?thesis
    proof (cases "\<exists>ex device. command_lookup d ieee (the_con R) = CmdLock d ieee ex device")
      case True
      then obtain ex device where l: "command_lookup d ieee (the_con R) = CmdLock d ieee ex device" by blast
      have "own_step E (R\<lparr>cstage := CmdLock d ieee ex device\<rparr>) (R\<lparr>cstage := CmdValue d ieee ex (z_Get device (zigbee (the_con R)))\<rparr>)"
        using own [OF rt_step.command_read [of "R\<lparr>cstage := CmdLock d ieee ex device\<rparr>" d ieee ex device E]] mux by simp
      with lookup valued show ?thesis by (metis l rtranclp.rtrancl_into_rtrancl rtranclp.rtrancl_refl)
    next
      case False
      then obtain ex v where "command_lookup d ieee (the_con R) = CmdValue d ieee ex v"
        by (auto simp: command_lookup_def Let_def split: sum.splits)
      with lookup valued show ?thesis by (metis r_into_rtranclp)
    qed
  qed
  then obtain s where "(own_step E)\<^sup>*\<^sup>* R (R\<lparr>cstage := CmdWait, protocol := s\<rparr>)" ..
  from own_to_rest [OF R this] show ?thesis by auto
qed

subsection \<open>From the end of the context to the rest\<close>

text \<open>If all loops wait and nothing else is under way, the goroutines stop one after the other.\<close>

definition unhindered :: "runtime \<Rightarrow> bool" where
  "unhindered R \<longleftrightarrow> (dstage R = DvWait \<or> dstage R = DvEnd) \<and> value_mux R = None"

lemma loops_stop:
  assumes R: "cancelled R" "zigbee_up R" "gateway_up R" "dstage R = DvWait" "cstage R = CmdWait" "estage R = EvWait"
    and idle: "idle (protocol R)" and mux: "value_mux R = None"
  shows "(keeping unhindered E)\<^sup>*\<^sup>* R
    (R\<lparr>zigbee_up := False, gateway_up := False, dstage := DvEnd, cstage := CmdEnd, estage := EvEnd, others := others R - 5\<rparr>)"
proof -
  have free: "handling (protocol R) = None" using idle by (simp add: idle_def)
  define R1 where "R1 = R\<lparr>zigbee_up := False, others := others R - 1\<rparr>"
  define R2 where "R2 = R1\<lparr>gateway_up := False, others := others R1 - 1\<rparr>"
  define R3 where "R3 = R2\<lparr>dstage := DvEnd, others := others R2 - 1\<rparr>"
  define R4 where "R4 = R3\<lparr>cstage := CmdEnd, others := others R3 - 1\<rparr>"
  define R5 where "R5 = R4\<lparr>estage := EvEnd, others := others R4 - 1\<rparr>"
  have "keeping unhindered E R R1" unfolding keeping_def R1_def
    by (intro conjI rt_step.zigbee_disconnect) (simp_all add: R mux unhindered_def)
  moreover have "keeping unhindered E R1 R2" unfolding keeping_def R2_def
    by (intro conjI rt_step.gateway_disconnect) (simp_all add: R mux unhindered_def R1_def)
  moreover have "keeping unhindered E R2 R3" unfolding keeping_def R3_def
    by (intro conjI rt_step.device_stop) (simp_all add: R mux unhindered_def R1_def R2_def)
  moreover have "keeping unhindered E R3 R4" unfolding keeping_def R4_def
    by (intro conjI rt_step.command_stop) (simp_all add: R mux free unhindered_def R1_def R2_def R3_def)
  moreover have "keeping unhindered E R4 R5" unfolding keeping_def R5_def
    by (intro conjI rt_step.event_stop) (simp_all add: R mux unhindered_def R1_def R2_def R3_def R4_def)
  ultimately have "(keeping unhindered E)\<^sup>*\<^sup>* R R5"
    using rtranclp.rtrancl_into_rtrancl [where r = "keeping unhindered E" and a = R] rtranclp.rtrancl_refl by metis
  moreover have "R5 = R\<lparr>zigbee_up := False, gateway_up := False, dstage := DvEnd, cstage := CmdEnd, estage := EvEnd, others := others R - 5\<rparr>"
    by (simp add: R1_def R2_def R3_def R4_def R5_def)
  ultimately show ?thesis by simp
qed

lemma watcher_ends:
  assumes R: "rt_reachable E R" "cancelled R" "unhindered R" and idle: "idle (protocol R)"
  shows "\<exists>s. (keeping unhindered E)\<^sup>*\<^sup>* R (R\<lparr>protocol := s\<rparr>) \<and> idle s \<and> \<not> watcher s"
proof (cases "watcher (protocol R)")
  case True
  from watcher_registry [OF rt_refines [OF R(1)] True] obtain r where r: "acks (the_con R) = Some r" by blast
  have wf: "ack_wf r" using reachable_facts(3) [OF R(1)] r by (simp add: sys_inv_def reg_inv_Some)
  have leave: "\<exists>s. keeping unhindered E (R\<lparr>protocol := s0\<rparr>) (R\<lparr>protocol := s\<rparr>) \<and> idle s \<and> \<not> watcher s"
    if "acks (con s0) = Some r0" "ack_closed r0" "watcher s0" "idle s0" for s0 r0
  proof -
    let ?s = "s0\<lparr>watcher := False, wg := wg s0 - 1\<rparr>"
    have "rt_step E (R\<lparr>protocol := s0\<rparr>) (R\<lparr>protocol := ?s\<rparr>)"
      using rt_step.registry_done [of "R\<lparr>protocol := s0\<rparr>" r0 E] R(2) that by simp
    moreover have "idle ?s" using that(4) by (simp add: idle_def)
    ultimately show ?thesis using R(3) by (intro exI [of _ ?s]) (simp add: keeping_def unhindered_def)
  qed
  show ?thesis
  proof (cases "ack_closed r")
    case True
    with leave [of "protocol R" r] r \<open>watcher (protocol R)\<close> idle show ?thesis by auto
  next
    case False
    let ?s = "set_reg (ack_close r) (protocol R)"
    have "keeping unhindered E R (R\<lparr>protocol := ?s\<rparr>)"
      using rt_step.registry_close [OF R(2) r True False, of E] R(3) by (simp add: keeping_def unhindered_def)
    moreover have "idle ?s" using idle ack_close_result(2) [OF wf] by (simp add: idle_def)
    ultimately show ?thesis using leave [of ?s "ack_close r"] ack_close_result(3) [OF wf] True
      by (auto intro: converse_rtranclp_into_rtranclp)
  qed
qed (use idle in \<open>auto intro!: exI [of _ "protocol R"]\<close>)

lemma resting_shutdown:
  assumes R: "rt_reachable E R" "cancelled R" "zigbee_up R" "gateway_up R" "dstage R = DvWait" "cstage R = CmdWait"
    "estage R = EvWait" "idle (protocol R)" "value_mux R = None" "refreshing (dloop R) = []" "\<forall>cb \<in> set (callbacks R). cb = []"
  shows "\<exists>\<sigma>. fair_run E \<sigma> \<and> \<sigma> 0 = R \<and> no_panics E \<sigma> \<and> never_jams \<sigma>"
proof -
  let ?R1 = "R\<lparr>zigbee_up := False, gateway_up := False, dstage := DvEnd, cstage := CmdEnd, estage := EvEnd, others := others R - 5\<rparr>"
  note path = loops_stop [OF R(2-9), of E]
  have "idle (protocol ?R1)" "cancelled ?R1" "unhindered ?R1" using R by (simp_all add: unhindered_def)
  from watcher_ends [OF keeping.sub.reach_run [OF path R(1)] this(2,3,1)] obtain s where
    s: "(keeping unhindered E)\<^sup>*\<^sup>* ?R1 (?R1\<lparr>protocol := s\<rparr>)" "idle s" "\<not> watcher s" by blast
  have "at_rest (?R1\<lparr>protocol := s\<rparr>)"
    using R s(2,3) by (simp add: at_rest_def loops_at_rest_def all_ended_def idle_def)
  moreover have "unhindered R" using R by (simp add: unhindered_def)
  ultimately obtain \<sigma> k where \<sigma>: "fair_run E \<sigma>" "\<sigma> 0 = R" "\<And>i. unhindered (\<sigma> i)"
    using resting_run [OF R(1) rtranclp_trans [OF path s(1)]] by metis
  then have "no_panics E \<sigma>" "never_jams \<sigma>"
    by (auto simp: no_panics_def never_jams_def unhindered_def round_panics_def event_jam_def)
  with \<sigma> show ?thesis by blast
qed

end
