(* ===== verification/GatewayMessages.thy ===== *)
theory GatewayMessages
  imports RuntimeInvariants
begin

section \<open>What reaches the gateway\<close>

text \<open>
  Every message that the gateway's broker accepts from the running connector, and why it is
  sent: it answers a command that was taken, is about a device whose state has been stored,
  announces a valid device with the state that has been stored, or reports an error of the
  client. A set \<open>P\<close> of messages is fixed per handler: \<open>adds\<close>.
\<close>

definition adds :: "(mqtt_msg \<Rightarrow> bool) \<Rightarrow> connector \<Rightarrow> connector \<Rightarrow> bool" where
  "adds P c c' \<longleftrightarrow> (\<exists>l. sent c' = sent c @ l \<and> (\<forall>m \<in> set l. P m))"

lemma adds_refl [simp, intro]: "adds P c c"
  by (simp add: adds_def)

lemma adds_nothing: "sent c' = sent c \<Longrightarrow> adds P c c'"
  by (simp add: adds_def)

lemma adds_trans: "adds P c c' \<Longrightarrow> adds P c' c'' \<Longrightarrow> adds P c c''"
  by (force simp: adds_def)

lemma adds_mono: "adds P c c' \<Longrightarrow> (\<And>m. P m \<Longrightarrow> Q m) \<Longrightarrow> adds Q c c'"
  by (force simp: adds_def)

lemma adds_update [simp]:
  "adds P c (c'\<lparr>zigbee := z\<rparr>) = adds P c c'" "adds P c (c'\<lparr>acks := a\<rparr>) = adds P c c'"
  "adds P c (c'\<lparr>devicerepo := r\<rparr>) = adds P c c'" "adds P c (storeDeviceState i st c') = adds P c c'"
  "sent (storeDeviceState i st c) = sent c"
  by (simp_all add: adds_def sent_def storeDeviceState_def)

definition known :: "connector \<Rightarrow> string set" where
  "known c = fst ` set (devicestate c)"

definition answer_for :: "command_desc set \<Rightarrow> mqtt_msg \<Rightarrow> bool" where
  "answer_for ds m \<longleftrightarrow> (\<exists>d \<in> ds. answers_to (cd_DeviceId d) (cd_ServiceId d) (CommandId (cd_Command d)) m)"

definition announcement :: "env \<Rightarrow> string set \<Rightarrow> mqtt_msg \<Rightarrow> bool" where
  "announcement E stored m \<longleftrightarrow> (\<exists>d info. isValidDevice d \<and> IeeeAddress d \<in> stored \<and> State info = getDeviceState d
     \<and> m = message_on (''device-manager/device/'' @ ConnectorId (conf E)) (enc_update ''set'' (getDeviceId (conf E) d) info))"

definition client_error :: "mqtt_msg \<Rightarrow> bool" where
  "client_error m \<longleftrightarrow> (\<exists>t. m = message_on ''error/client'' t)"

text \<open>An event is forwarded with its payload, or reported as an error of its device.\<close>

definition event_report :: "env \<Rightarrow> event_desc \<Rightarrow> mqtt_msg \<Rightarrow> bool" where
  "event_report E event m \<longleftrightarrow>
     (\<exists>i. m = message_on (''event/'' @ getDeviceId (conf E) (ev_Device event) @ ''/'' @ i) (ev_Payload event))
     \<or> (\<exists>t. m = message_on (''error/device/'' @ getDeviceId (conf E) (ev_Device event)) t)"

definition eligible :: "string set \<Rightarrow> event_desc \<Rightarrow> bool" where
  "eligible stored event \<longleftrightarrow> \<not> Disabled (ev_Device event) \<and> Supported (ev_Device event)
     \<and> InterviewCompleted (ev_Device event) \<and> IeeeAddress (ev_Device event) \<in> stored"

definition from_event :: "env \<Rightarrow> event_desc set \<Rightarrow> string set \<Rightarrow> mqtt_msg \<Rightarrow> bool" where
  "from_event E evs stored m \<longleftrightarrow> (\<exists>event \<in> evs. eligible stored event \<and> event_report E event m)"

definition gateway_message ::
    "env \<Rightarrow> command_desc set \<Rightarrow> event_desc set \<Rightarrow> string set \<Rightarrow> mqtt_msg \<Rightarrow> bool" where
  "gateway_message E ds evs stored m \<longleftrightarrow>
     answer_for ds m \<or> from_event E evs stored m \<or> announcement E stored m \<or> client_error m"

lemma eligible_mono: "eligible stored event \<Longrightarrow> stored \<subseteq> stored' \<Longrightarrow> eligible stored' event"
  by (auto simp: eligible_def)

lemma gateway_message_mono:
  "gateway_message E ds evs stored m \<Longrightarrow> ds \<subseteq> ds' \<Longrightarrow> evs \<subseteq> evs' \<Longrightarrow> stored \<subseteq> stored' \<Longrightarrow>
     gateway_message E ds' evs' stored' m"
  unfolding gateway_message_def answer_for_def from_event_def announcement_def using eligible_mono by blast

lemma adds_gateway:
  "adds (answer_for ds) c c' \<Longrightarrow> ds \<subseteq> ds' \<Longrightarrow> adds (gateway_message E ds' evs stored) c c'"
  "adds (announcement E stored) c c' \<Longrightarrow> adds (gateway_message E ds' evs stored) c c'"
  "adds client_error c c' \<Longrightarrow> adds (gateway_message E ds' evs stored) c c'"
  "adds (event_report E event) c c' \<Longrightarrow> event \<in> evs \<Longrightarrow> eligible stored event \<Longrightarrow>
     adds (gateway_message E ds' evs stored) c c'"
  unfolding gateway_message_def answer_for_def from_event_def by (erule adds_mono, blast)+

subsection \<open>The calls and handlers\<close>

lemma adds_SendClientError: "adds client_error c (c\<lparr>mgw := SendClientError b i t (mgw c)\<rparr>)"
proof -
  obtain l where "accepted (mtrace (SendClientError b i t (mgw c))) = accepted (mtrace (mgw c)) @ l"
    "set l \<subseteq> {message_on ''error/client'' (i @ '': '' @ t)}"
    using publishing.at_most_one [of b "''error/client''" "i @ '': '' @ t" "mgw c"] by (auto simp: SendClientError_def)
  then show ?thesis by (auto simp: adds_def sent_def client_error_def)
qed

lemma adds_answer:
  "addressed a (cd_DeviceId d) (cd_ServiceId d) (CommandId (cd_Command d)) \<Longrightarrow> d \<in> ds \<Longrightarrow>
     adds (answer_for ds) c (send_answer E a c)"
  using send_answer_sent [of a "cd_DeviceId d" "cd_ServiceId d" "CommandId (cd_Command d)" E c]
  by (auto simp: adds_def answer_for_def)

lemma adds_command_error: "d \<in> ds \<Longrightarrow> adds (answer_for ds) c (c_SendCommandError E (CommandId (cd_Command d)) t c)"
  using SendCommandError_answers [of E "CommandId (cd_Command d)" t c "cd_DeviceId d" "cd_ServiceId d"]
  by (auto simp: adds_def answer_for_def)

lemma answer_get_respond:
  "answer_get E d v c =
     (case v of
        Inl err \<Rightarrow> c_SendCommandError E (CommandId (cd_Command d)) (''unable to get zigbee-value: '' @ error_text err) c
      | Inr msg \<Rightarrow> respond_or_fail E (cd_DeviceId d) (cd_ServiceId d)
          \<lparr>CommandId = CommandId (cd_Command d), Data = msg\<rparr> ''unable to send get result: '' c)"
  by (simp add: answer_get_def respond_or_fail_def Let_def split: sum.split prod.split option.split)

lemma adds_get:
  assumes "d \<in> ds"
  shows "adds (answer_for ds) c (answer_get E d v c)"
proof (cases v)
  case (Inr msg)
  from respond_or_fail_sent [of E "cd_DeviceId d" "cd_ServiceId d"
      "\<lparr>CommandId = CommandId (cd_Command d), Data = msg\<rparr>" "''unable to send get result: ''" c]
  show ?thesis unfolding answer_get_respond Inr adds_def answer_for_def using assms by auto
qed (simp add: answer_get_respond adds_command_error assms)

lemma adds_command: "\<not> is_set E d \<Longrightarrow> d \<in> ds \<Longrightarrow> adds (answer_for ds) c (handleCommand E n d c)"
  by (auto simp: handleCommand_def is_set_def handleGet_def adds_get adds_command_error split: option.split)

lemma adds_device_error:
  "adds (event_report E event) c (c_SendDeviceError E (getDeviceId (conf E) (ev_Device event)) t c)"
  using publishing.at_most_one [of "mbroker E" "''error/device/'' @ getDeviceId (conf E) (ev_Device event)"
      "ConnectorId (conf E) @ '': '' @ t" "mgw c"]
  unfolding adds_def event_report_def c_SendDeviceError_def sent_def SendDeviceError_def by auto

lemma adds_send_event:
  "adds (event_report E event) c (send_event E (getDeviceId (conf E) (ev_Device event)) (ev_Payload event) i c)"
proof -
  let ?d = "getDeviceId (conf E) (ev_Device event)"
  obtain x c1 where call: "c_SendEvent E ?d i (ev_Payload event) c = (x, c1)" by fastforce
  with sending_event.reported [of E ?d i "ev_Payload event" c]
  have c1: "adds (event_report E event) c c1" by (auto simp: adds_def event_report_def split: if_splits)
  from adds_trans [OF c1 adds_device_error] c1 call show ?thesis by (cases x) (simp_all add: send_event_def)
qed

lemma adds_looked_up:
  assumes "type_looked_up E d x w c = Some (st, c')"
  shows "adds client_error c c'" and "devicestate c' = devicestate c"
  using assms
  by (auto simp: type_looked_up_def c_SendClientError_def adds_SendClientError split: sum.splits if_splits)

lemma adds_set_device:
  assumes "set_device E d i res c = (res', c')" and "isValidDevice d" and "IeeeAddress d \<in> stored"
  shows "adds (announcement E stored) c c'" and "devicestate c' = devicestate c"
proof -
  let ?info = "\<lparr>InfoName = getDeviceName d, State = getDeviceState d, DeviceType = i, InfoAttributes = deviceAttributes c\<rparr>"
  obtain x c1 where call: "c_SetDevice E (getDeviceId (conf E) d) ?info c = (x, c1)" by fastforce
  then have c': "c' = c1" using assms(1) by (auto simp: set_device_def split: option.splits)
  obtain l where "sent c1 = sent c @ l"
    "set l \<subseteq> {message_on (''device-manager/device/'' @ ConnectorId (conf E)) (enc_update ''set'' (getDeviceId (conf E) d) ?info)}"
    using setting_device.at_most_one [where E = E and d = "getDeviceId (conf E) d" and info = ?info and s = c] call by auto
  moreover have "State ?info = getDeviceState d" by simp
  ultimately show "adds (announcement E stored) c c'"
    unfolding adds_def announcement_def c' using assms(2,3) by blast
  show "devicestate c' = devicestate c" using call c' by (auto simp: c_SetDevice_def)
qed

lemma internal_messages:
  assumes "internal E s s'" and "addr_inv E s"
  shows "adds (answer_for (set (commands s))) (con s) (con s')" and "devicestate (con s') = devicestate (con s)"
proof -
  note D = addr_invD [OF assms(2)]
  have answer: "adds (answer_for (set (commands s))) (con s) (con (answer_now E n a s))"
    if "reply_ok E (commands s) n a" for n a
    using that adds_answer [of a "commands s ! n" "set (commands s)" "con s" E]
    by (simp add: reply_ok_def addressed_to_def answer_now_def Let_def)
  have state: "devicestate (con (answer_now E n a s)) = devicestate (con s)" for n a
    by (simp add: answer_now_def Let_def)
  have decide: "sent c' = sent (con s) \<and> devicestate c' = devicestate (con s)" if "set_decide d t err (con s) = (x, c')" for d t err x c'
    using that by (cases rule: set_decide_cases) (auto simp: run_cancel_def sent_def split: option.splits prod.splits)
  show "adds (answer_for (set (commands s))) (con s) (con s')"
    using assms(1)
  proof (cases rule: internal.cases)
    case publish
    then show ?thesis by (auto simp: adds_nothing set_publish_def c_SetByIeee_def sent_def)
  next
    case decide_answer
    then show ?thesis using decide by (simp add: adds_nothing)
  next
    case decide_return
    then show ?thesis using decide by (simp add: adds_nothing)
  next
    case (reply n ieee a)
    then show ?thesis using answer [OF D(6)] by simp
  next
    case (deliver e pl)
    then show ?thesis using answer [OF entry_reply_ok(2) [OF D(4)]] by simp
  next
    case (fail e r)
    then show ?thesis using answer [OF entry_reply_ok(1) [OF D(3)]] by simp
  qed (simp_all add: adds_nothing sent_def set_reg_def)
  show "devicestate (con s') = devicestate (con s)"
    using assms(1) state decide
    by (cases rule: internal.cases) (auto simp: set_publish_def c_SetByIeee_def set_reg_def)
qed

text \<open>Connections and subscriptions are no messages.\<close>

lemma act_messages: "(\<And>msg. a \<noteq> Publish msg) \<Longrightarrow> accepted (mtrace (snd (mgw_act b a m))) = accepted (mtrace m)"
  by (cases a; cases "b (mtrace m) a") (auto simp: mgw_act_def ask_def)

lemma connected_messages: "accepted (mtrace (snd (mgw_connected b m))) = accepted (mtrace m)"
  by (auto simp: mgw_connected_def ask_def split: prod.split option.split)

lemma subscribe_messages: "accepted (mtrace (snd (subscribe_checked b t m))) = accepted (mtrace m)"
  using connected_messages [of b m] act_messages [of "Subscribe t 2" b "snd (mgw_connected b m)"]
  by (auto simp: subscribe_checked_def split: prod.split option.split)

lemma resubscribe_messages: "accepted (mtrace (snd (resubscribe b subs m))) = accepted (mtrace m)"
proof (induction subs arbitrary: m)
  case (Cons s subs)
  obtain x m1 where h: "mgw_act b (Subscribe (fst s) 2) m = (x, m1)" by fastforce
  with act_messages [of "Subscribe (fst s) 2" b m] have "accepted (mtrace m1) = accepted (mtrace m)" by simp
  with h Cons show ?case by (simp split: option.split)
qed simp

lemma connect_messages:
  assumes "mgw_on_connect b m = Some (notify, m')"
  shows "accepted (mtrace m') = accepted (mtrace m)"
proof -
  have load: "accepted (mtrace (snd (loadOldSubscriptions b m))) = accepted (mtrace m)"
    using connected_messages [of b m] resubscribe_messages [of b _ "snd (mgw_connected b m)"]
    by (auto simp: loadOldSubscriptions_def split: prod.split option.split)
  have "m' = snd (initSubscriptions b m)"
    using assms by (auto simp: mgw_on_connect_def split: prod.splits option.splits)
  with load subscribe_messages [of b "''device-manager/refresh''" "snd (loadOldSubscriptions b m)"] show ?thesis
    by (auto simp: initSubscriptions_def listenToDeviceManagementRefresh_def split: prod.splits option.splits)
qed

lemma Start_messages:
  assumes "Start cfg zb mb = Started c"
  shows "sent c = []" and "devicestate c = []"
proof -
  from assms obtain m m1 x where m: "mgw_New (ConnectorId cfg) mb True = Some m" "ListenToCommands mb m = (x, m1)" "mgw c = m1"
    and "devicestate c = []"
    by (auto simp: Start_def StartWithDependencies_def split: option.splits sum.splits start.splits prod.splits)
  then show "devicestate c = []" by simp
  have "accepted (mtrace m) = []"
    using m(1) by (auto simp: mgw_New_def ask_def new_mgw_client_def Let_def split: option.splits)
  moreover have "accepted (mtrace m1) = accepted (mtrace m)"
    using m(2) subscribe_messages [of mb "''command/+/+''" m]
    by (auto simp: ListenToCommands_def registerSubscription_def split: prod.splits option.splits)
  ultimately show "sent c = []" using m(3) by (simp add: sent_def)
qed

subsection \<open>The invariant\<close>

fun event_known :: "env \<Rightarrow> event_desc set \<Rightarrow> event_stage \<Rightarrow> connector \<Rightarrow> bool" where
  "event_known E evs (EvCheck event) c = (event \<in> evs)"
| "event_known E evs (EvTypes event p) c = (event \<in> evs \<and> eligible (known c) event)"
| "event_known E evs (EvSend d pl ids) c = (\<exists>event \<in> evs. eligible (known c) event
     \<and> d = getDeviceId (conf E) (ev_Device event) \<and> pl = ev_Payload event)"
| "event_known E evs st c = True"

fun device_known :: "device_stage \<Rightarrow> connector \<Rightarrow> bool" where
  "device_known (DvType d p w) c = isValidDevice d"
| "device_known (DvCreate d q w) c = isValidDevice d"
| "device_known (DvStore d i res w) c = isValidDevice d"
| "device_known (DvSet d i res w) c = (isValidDevice d \<and> IeeeAddress d \<in> known c)"
| "device_known st c = True"

lemma stage_known_mono:
  "event_known E evs est c \<Longrightarrow> known c \<subseteq> known c' \<Longrightarrow> event_known E evs est c'"
  "device_known dst c \<Longrightarrow> known c \<subseteq> known c' \<Longrightarrow> device_known dst c'"
  by (cases est; auto intro: eligible_mono) (cases dst; auto)

lemma known_same: "devicestate c' = devicestate c \<Longrightarrow> known c' = known c"
  by (simp add: known_def)

lemma known_store [simp]: "known (storeDeviceState i st c) = insert i (known c)"
  by (simp add: known_def storeDeviceState_def)

lemma known_repo [simp]: "known (c\<lparr>devicerepo := r\<rparr>) = known c"
  by (simp add: known_def)

lemma known_device_error [simp]: "known (c_SendDeviceError E d t c) = known c"
  by (simp add: known_def c_SendDeviceError_def)

lemma known_send_event [simp]: "known (send_event E d pl i c) = known c"
  by (auto simp: send_event_def c_SendEvent_def known_def c_SendDeviceError_def split: option.split)

lemma event_work_known:
  assumes "event_work E st c = (st', c')" and "event_known E evs st c"
  shows "adds (gateway_message E ds evs (known c')) c c'" and "known c' = known c" and "event_known E evs st' c'"
proof -
  have allowed: "eligible (known c) event" if "eventIsAllowed event c" for event
    using that by (auto simp: eventIsAllowed_def deviceIsOnline_def getStoredDeviceState_def known_def eligible_def
        split: option.splits dest: map_of_SomeD intro: rev_image_eqI)
  have "adds (gateway_message E ds evs (known c')) c c' \<and> known c' = known c \<and> event_known E evs st' c'"
  proof (cases "(E, st, c)" rule: event_work.cases)
    case (3 E event err c)
    with assms adds_gateway(4) [OF adds_device_error] show ?thesis by auto
  next
    case (5 E d pl i ids c)
    with assms(2) obtain event where event: "event \<in> evs" "eligible (known c) event"
      "d = getDeviceId (conf E) (ev_Device event)" "pl = ev_Payload event" by auto
    with 5 assms adds_gateway(4) [OF adds_send_event] show ?thesis by auto
  qed (use assms allowed in auto)
  then show "adds (gateway_message E ds evs (known c')) c c'" and "known c' = known c" and "event_known E evs st' c'"
    by blast+
qed

lemma device_step_known:
  assumes "device_step E st L c = Some (st', L', c')" and "device_known st c"
  shows "adds (gateway_message E ds evs (known c')) c c'" and "known c \<subseteq> known c'" and "device_known st' c'"
proof -
  have "adds (gateway_message E ds evs (known c')) c c' \<and> known c \<subseteq> known c' \<and> device_known st' c'"
  proof (cases "(E, st, L, c)" rule: device_step.cases)
    case (3 E d x w L c)
    with assms(1) have x: "type_looked_up E d x w c = Some (st', c')" by auto
    have "device_known st' c'" using x 3 assms(2)
      by (auto simp: type_looked_up_def split: sum.splits if_splits)
    with adds_gateway(3) [OF adds_looked_up(1) [OF x]] known_same [OF adds_looked_up(2) [OF x]] 3 show ?thesis by simp
  next
    case (5 E d x w L c)
    with assms show ?thesis by (auto simp: type_created_def split: sum.splits)
  next
    case (7 E d i res w L c)
    obtain r c1 where call: "set_device E d i res c = (r, c1)" by fastforce
    have c': "st' = DvList (record_result d r w)" "c' = c1" using 7 assms call by simp_all
    have d: "isValidDevice d" "IeeeAddress d \<in> known c" using 7 assms(2) by simp_all
    note m = adds_set_device [OF call d]
    show ?thesis unfolding c' known_same [OF m(2)] using adds_gateway(2) [OF m(1)] 7 by simp
  qed (use assms in \<open>auto simp: Let_def split: list.splits\<close>)
  then show "adds (gateway_message E ds evs (known c')) c c'" and "known c \<subseteq> known c'" and "device_known st' c'" by simp_all
qed

definition stages_known :: "env \<Rightarrow> runtime \<Rightarrow> bool" where
  "stages_known E R \<longleftrightarrow> event_known E (set (seen R)) (estage R) (the_con R) \<and> device_known (dstage R) (the_con R)"

definition messages_inv :: "env \<Rightarrow> runtime \<Rightarrow> bool" where
  "messages_inv E R \<longleftrightarrow> (\<forall>m \<in> set (sent (the_con R)). gateway_message E (set (taken R)) (set (seen R)) (known (the_con R)) m)
     \<and> stages_known E R"

lemma messages_invI:
  assumes "messages_inv E R" and "adds (gateway_message E (set (taken R')) (set (seen R')) (known (the_con R'))) (the_con R) (the_con R')"
    and "known (the_con R) \<subseteq> known (the_con R')" and "set (taken R) \<subseteq> set (taken R')"
    and "set (seen R) \<subseteq> set (seen R')" and "stages_known E R'"
  shows "messages_inv E R'"
proof -
  from assms(2) obtain l where l: "sent (the_con R') = sent (the_con R) @ l"
    "\<forall>m \<in> set l. gateway_message E (set (taken R')) (set (seen R')) (known (the_con R')) m" by (auto simp: adds_def)
  have "gateway_message E (set (taken R')) (set (seen R')) (known (the_con R')) m" if "m \<in> set (sent (the_con R))" for m
    using assms(1) that gateway_message_mono [OF _ assms(4,5,3)] by (simp add: messages_inv_def)
  with l assms(6) show ?thesis by (auto simp: messages_inv_def)
qed

lemma stages_known_same:
  "stages_known E R \<Longrightarrow> estage R' = estage R \<Longrightarrow> dstage R' = dstage R \<Longrightarrow> seen R' = seen R \<Longrightarrow> known (the_con R) \<subseteq> known (the_con R')
     \<Longrightarrow> stages_known E R'"
  using stage_known_mono(1) [of E "set (seen R)" "estage R" "the_con R" "the_con R'"] stage_known_mono(2) [of "dstage R" "the_con R" "the_con R'"]
  by (simp add: stages_known_def)

text \<open>The steps that change neither the stored states nor the stages of the two loops.\<close>

lemma messages_inv_quiet:
  assumes "messages_inv E R" and "adds (gateway_message E (set (taken R')) (set (seen R')) (known (the_con R'))) (the_con R) (the_con R')"
    and "devicestate (the_con R') = devicestate (the_con R)" and "estage R' = estage R" and "dstage R' = dstage R"
    and "set (taken R) \<subseteq> set (taken R')" and "seen R' = seen R"
  shows "messages_inv E R'"
proof -
  have k: "known (the_con R) \<subseteq> known (the_con R')" using assms(3) by (simp add: known_def)
  have "stages_known E R" using assms(1) by (simp add: messages_inv_def)
  note st = stages_known_same [OF this assms(4,5,7) k]
  show ?thesis by (rule messages_invI [OF assms(1,2) k assms(6)]) (simp_all add: assms(7) st)
qed

lemma messages_inv_silent:
  assumes "messages_inv E R" and "mgw (the_con R') = mgw (the_con R)" and "devicestate (the_con R') = devicestate (the_con R)"
    and "estage R' = estage R" and "dstage R' = dstage R" and "set (taken R) \<subseteq> set (taken R')" and "seen R' = seen R"
  shows "messages_inv E R'"
  by (rule messages_inv_quiet [OF assms(1) adds_nothing assms(3-7)]) (simp add: sent_def assms(2))

lemma commands_taken: "rt_inv E R \<Longrightarrow> set (commands (protocol R)) \<subseteq> set (taken R)"
proof -
  assume "rt_inv E R"
  then have "set (commands (protocol R) @ filter (is_set E) (at_hand (cstage R))) = set (filter (is_set E) (taken R))"
    by (simp only: rt_inv_def)
  then show ?thesis by auto
qed

lemma begin_set_messages:
  "sent (con (begin_set ieee d ex l s)) = sent (con s)"
  "devicestate (con (begin_set ieee d ex l s)) = devicestate (con s)"
proof -
  obtain t c' where reg: "set_register_with (length (commands s)) ieee d
    (ackExpectation (Data (cd_Command d)) ex l) (con s) = (t, c')" by fastforce
  then have "sent c' = sent (con s) \<and> devicestate c' = devicestate (con s)"
    by (cases rule: register_with_cases) (simp_all add: sent_def)
  with reg show "sent (con (begin_set ieee d ex l s)) = sent (con s)"
    "devicestate (con (begin_set ieee d ex l s)) = devicestate (con s)" by (simp_all add: begin_set_def Let_def)
qed

lemma answer_get_state: "devicestate (answer_get E d v c) = devicestate c"
  by (auto simp: answer_get_def Let_def c_Respond_def c_SendCommandError_def split: sum.split prod.split option.split)

lemma command_messages:
  assumes "d \<in> ds"
  shows "adds (answer_for ds) (con s) (con (finish_command E d ieee ex v s))"
    and "devicestate (con (finish_command E d ieee ex v s)) = devicestate (con s)"
    and "adds (answer_for ds) (con s) (con (direct_command E d s))"
    and "devicestate (con (direct_command E d s)) = devicestate (con s)"
proof -
  have "devicestate (handleCommand E 0 d (con s)) = devicestate (con s)" if "\<not> is_set E d"
    using that by (auto simp: handleCommand_def is_set_def handleGet_def answer_get_state split: option.split)
  then show "devicestate (con (direct_command E d s)) = devicestate (con s)"
    by (simp add: direct_command_def begin_set_messages)
qed (simp_all add: finish_command_def direct_command_def begin_set_messages adds_nothing adds_get adds_command
      answer_get_state assms)

lemma perform_messages:
  "perform E p R = Some R' \<Longrightarrow> mgw (the_con R') = mgw (the_con R) \<and> devicestate (the_con R') = devicestate (the_con R)
     \<and> taken R' = taken R \<and> seen R' = seen R"
  by (cases p) (auto simp: perform_simps split: option.splits)

lemma hand_taken: "rt_reachable E R \<Longrightarrow> set (at_hand (cstage R)) \<subseteq> set (taken R)"
proof (induction rule: rt_reachable.induct)
  case (rt_more R R')
  from rt_more(2) show ?case
  proof (cases rule: rt_step.cases)
    case (callback before p rest after R1)
    then show ?thesis using rt_more(3) perform_messages [OF callback(3)] perform_frame [OF callback(3)] by simp
  qed (use rt_more(3) in simp_all)
qed (simp add: rt_start_def)

lemma messages_inv_step:
  assumes "messages_inv E R" and "rt_reachable E R" and "rt_step E R R'"
  shows "messages_inv E R'"
proof -
  note quiet = messages_inv_quiet [OF assms(1)] and silent = messages_inv_silent [OF assms(1)]
  have hand: "d \<in> set (taken R)" if "d \<in> set (at_hand (cstage R))" for d
    using hand_taken [OF assms(2)] that by blast
  have stages: "stages_known E R" using assms(1) by (simp add: messages_inv_def)
  show ?thesis
    using assms(3)
  proof (cases rule: rt_step.cases)
    case (gateway_command msg x m')
    have "m' = mgw (the_con R) \<or> (\<exists>t. m' = SendClientError (mbroker E) (ConnectorId (conf E)) t (mgw (the_con R)))"
      using gateway_command(2) by (auto simp: command_message_def split: option.splits)
    then have "adds client_error (the_con R) ((the_con R)\<lparr>mgw := m'\<rparr>)"
      using adds_SendClientError by auto
    from adds_gateway(3) [OF this] show ?thesis by (intro quiet) (simp_all add: gateway_command(1))
  next
    case (gateway_connected notify m')
    have "adds P (the_con R) ((the_con R)\<lparr>mgw := m'\<rparr>)" for P
      using connect_messages [OF gateway_connected(2)] by (simp add: adds_nothing sent_def)
    then show ?thesis by (intro quiet) (simp_all add: gateway_connected(1))
  next
    case (callback before p rest after R1)
    then show ?thesis using perform_messages [OF callback(3)] perform_frame [OF callback(3)] by (intro silent) simp_all
  next
    case (command_finish d ieee ex v)
    have d: "d \<in> set (taken R)" using hand command_finish(2) by simp
    show ?thesis using adds_gateway(1) [OF command_messages(1) [OF d]] command_messages(2) [OF d]
      by (intro quiet) (simp_all add: command_finish(1))
  next
    case (command_direct d)
    have d: "d \<in> set (taken R)" using hand command_direct(2) by simp
    show ?thesis using adds_gateway(1) [OF command_messages(3) [OF d]] command_messages(4) [OF d]
      by (intro quiet) (simp_all add: command_direct(1))
  next
    case (set_goroutines s')
    note m = internal_messages [OF set_goroutines(2) reachable_addr [OF rt_refines [OF assms(2)]]]
    show ?thesis using adds_gateway(1) [OF m(1) commands_taken [OF rt_reachable_inv [OF assms(2)]]] m(2)
      by (intro quiet) (simp_all add: set_goroutines(1))
  next
    case (event_work st' c')
    have "event_known E (set (seen R)) (estage R) (the_con R)" using stages by (simp add: stages_known_def)
    note k = event_work_known [OF conjunct1 [OF event_round_step [OF event_work(2)]] this]
    have "stages_known E R'" using k(2,3) stages stage_known_mono(2) [of "dstage R" "the_con R" c'] by (simp add: stages_known_def event_work(1))
    then show ?thesis using k(1) k(2) by (intro messages_invI [OF assms(1)]) (simp_all add: event_work(1))
  next
    case (device_work st' L' c')
    have "device_known (dstage R) (the_con R)" using stages by (simp add: stages_known_def)
    note k = device_step_known [OF conjunct1 [OF device_round_step [OF device_work(2)]] this]
    have "stages_known E R'" using k(2,3) stages stage_known_mono(1) [of E "set (seen R)" "estage R" "the_con R" c'] by (simp add: stages_known_def device_work(1))
    then show ?thesis using k(1) k(2) by (intro messages_invI [OF assms(1)]) (simp_all add: device_work(1))
  next
    case command_take
    then show ?thesis by (intro silent) auto
  next
    case device_take
    then show ?thesis using assms(1) by (simp add: messages_inv_def stages_known_def)
  next
    case device_retry
    then show ?thesis using assms(1) by (simp add: messages_inv_def stages_known_def)
  next
    case (event_take event buf)
    have "stages_known E R'" using stages by (simp add: stages_known_def event_take(1))
    then show ?thesis by (intro messages_invI [OF assms(1)]) (auto simp: event_take(1))
  next
    case device_stop
    then show ?thesis using assms(1) by (simp add: messages_inv_def stages_known_def)
  next
    case event_stop
    then show ?thesis using assms(1) by (simp add: messages_inv_def stages_known_def)
  qed (use silent in \<open>simp_all add: set_reg_def\<close>)
qed

lemma rt_reachable_messages: "rt_reachable E R \<Longrightarrow> messages_inv E R"
proof (induction rule: rt_reachable.induct)
  case (rt_begin c)
  then show ?case by (simp add: messages_inv_def stages_known_def rt_start_def sys_start_def Start_messages)
qed (rule messages_inv_step)

end
