(* ===== verification/SharedRepo.thy ===== *)
theory SharedRepo
  imports RuntimeInvariants
begin

section \<open>The repository cache in the running connector\<close>

text \<open>
  Only the event loop and the device loop touch the cache, section by section and in any order.
  What they still have to do in a call is safe, so \<open>repo_inv\<close> holds after every step.
\<close>

abbreviation always :: "'a \<Rightarrow> repo_trace \<Rightarrow> bool" where
  "always \<equiv> \<lambda>_ _. True"

lemma safe_extend: "safe R p tr always \<Longrightarrow> prefix tr tr' \<Longrightarrow> safe R p tr' always"
  using safe_later by (cases p) auto

lemma safe_event: "safe (platform E) (event_sections E event) tr always"
  unfolding event_sections_def Let_def type_sections_def device_type_sections_def
  by (auto intro!: safe_and_then [where Q = always] safe_methods split: sum.split option.split)

lemma safe_type_id: "safe (platform E) (type_id_sections E d) tr always"
  unfolding type_id_sections_def device_type_id_sections_def device_type_sections_def
  by (auto intro!: safe_and_then [where Q = always] safe_methods split: sum.split option.split)

lemma safe_creation: "safe (platform E) (creation_sections E dt) tr always"
  unfolding creation_sections_def by (rule safe_create)

fun event_calls :: "remote \<Rightarrow> event_stage \<Rightarrow> repo_trace \<Rightarrow> bool" where
  "event_calls R (EvTypes event p) tr = safe R p tr always"
| "event_calls R st tr = True"

fun device_calls :: "remote \<Rightarrow> device_stage \<Rightarrow> repo_trace \<Rightarrow> bool" where
  "device_calls R (DvType d p w) tr = safe R p tr always"
| "device_calls R (DvCreate d q w) tr = safe R q tr always"
| "device_calls R st tr = True"

lemma calls_extend:
  "event_calls R est tr \<Longrightarrow> prefix tr tr' \<Longrightarrow> event_calls R est tr'"
  "device_calls R dst tr \<Longrightarrow> prefix tr tr' \<Longrightarrow> device_calls R dst tr'"
  using safe_extend by (cases est; auto) (cases dst; auto simp: safe_extend)

abbreviation the_repo :: "runtime \<Rightarrow> repo" where
  "the_repo R \<equiv> devicerepo (the_con R)"

definition shared_inv :: "env \<Rightarrow> runtime \<Rightarrow> bool" where
  "shared_inv E R \<longleftrightarrow> repo_inv (platform E) (the_repo R)
     \<and> event_calls (platform E) (estage R) (rtrace (the_repo R))
     \<and> device_calls (platform E) (dstage R) (rtrace (the_repo R))"

subsection \<open>Steps that do not touch the cache\<close>

lemma answer_repo: "devicerepo (answer_get E d v c) = devicerepo c"
  by (auto simp: answer_get_def Let_def c_Respond_def c_SendCommandError_def split: sum.split prod.split option.split)

lemma begin_set_repo: "devicerepo (con (begin_set ieee d ex l s)) = devicerepo (con s)"
proof -
  obtain t c' where reg: "set_register_with (length (commands s)) ieee d
    (ackExpectation (Data (cd_Command d)) ex l) (con s) = (t, c')" by fastforce
  then have "devicerepo c' = devicerepo (con s)" by (cases rule: register_with_cases) simp_all
  with reg show ?thesis by (simp add: begin_set_def Let_def)
qed

lemma command_repo:
  "devicerepo (con (finish_command E d ieee ex v s)) = devicerepo (con s)"
  "devicerepo (con (direct_command E d s)) = devicerepo (con s)"
proof -
  have "devicerepo (handleCommand E 0 d (con s)) = devicerepo (con s)" if "\<not> is_set E d"
    using that by (auto simp: handleCommand_def is_set_def handleGet_def answer_repo split: option.split)
  then show "devicerepo (con (direct_command E d s)) = devicerepo (con s)"
    by (simp add: direct_command_def begin_set_repo)
qed (simp add: finish_command_def begin_set_repo answer_repo)

lemma internal_repo: "internal E s s' \<Longrightarrow> devicerepo (con s') = devicerepo (con s)"
  by (erule internal.cases)
     (auto simp: answer_now_def set_reg_def Let_def set_publish_def c_SetByIeee_def run_cancel_def
       elim!: set_decide_cases split: option.splits prod.splits)

lemma perform_repo: "perform E p R = Some R' \<Longrightarrow> the_repo R' = the_repo R"
  by (cases p) (auto simp: perform_simps split: option.splits)

lemma shared_same:
  "shared_inv E R \<Longrightarrow> the_repo R' = the_repo R \<Longrightarrow> estage R' = estage R \<or> estage R' \<in> {EvWait, EvEnd} \<or> (\<exists>e. estage R' = EvCheck e)
     \<Longrightarrow> dstage R' = dstage R \<or> dstage R' \<in> {DvWait, DvEnd} \<or> (\<exists>w. dstage R' = DvList w) \<Longrightarrow> shared_inv E R'"
  by (auto simp: shared_inv_def)

subsection \<open>The two loops\<close>

lemma device_error_repo [simp]: "devicerepo (c_SendDeviceError E d t c) = devicerepo c"
  by (simp add: c_SendDeviceError_def)

lemma send_event_repo [simp]: "devicerepo (send_event E d pl i c) = devicerepo c"
  by (auto simp: send_event_def c_SendEvent_def split: option.split)

lemma event_work_calls:
  assumes "event_work E st c = (st', c')" and "repo_inv (platform E) (devicerepo c)"
    and "event_calls (platform E) st (rtrace (devicerepo c))"
  shows "repo_inv (platform E) (devicerepo c') \<and> prefix (rtrace (devicerepo c)) (rtrace (devicerepo c'))
    \<and> event_calls (platform E) st' (rtrace (devicerepo c'))"
  using assms by (cases "(E, st, c)" rule: event_work.cases) (auto simp: safe_event)

lemma looked_up_repo:
  assumes "type_looked_up E d x w c = Some (st, c')"
  shows "devicerepo c' = devicerepo c" and "device_calls (platform E) st tr"
  using assms by (auto simp: type_looked_up_def c_SendClientError_def safe_creation split: sum.splits if_splits)

lemma set_device_repo: "set_device E d i res c = (res', c') \<Longrightarrow> devicerepo c' = devicerepo c"
  by (auto simp: set_device_def c_SetDevice_def split: option.splits)

lemma created_calls [simp]: "device_calls R (type_created d x w) tr"
  by (simp add: type_created_def split: sum.split prod.split)

lemma store_repo [simp]: "devicerepo (storeDeviceState i st c) = devicerepo c"
  by (simp add: storeDeviceState_def)

lemma device_step_calls:
  assumes "device_step E st L c = Some (st', L', c')" and "repo_inv (platform E) (devicerepo c)"
    and "device_calls (platform E) st (rtrace (devicerepo c))"
  shows "repo_inv (platform E) (devicerepo c') \<and> prefix (rtrace (devicerepo c)) (rtrace (devicerepo c'))
    \<and> device_calls (platform E) st' (rtrace (devicerepo c'))"
proof (cases "(E, st, L, c)" rule: device_step.cases)
  case (3 E d x w L c)
  then show ?thesis using assms looked_up_repo by auto
next
  case (7 E d i res w L c)
  then show ?thesis using assms set_device_repo by (auto split: prod.splits)
qed (use assms in \<open>auto simp: Let_def safe_type_id split: list.splits\<close>)

lemma shared_inv_step:
  assumes "shared_inv E R" and "rt_step E R R'"
  shows "shared_inv E R'"
  using assms(2)
proof (cases rule: rt_step.cases)
  case (callback before p rest after R1)
  then show ?thesis using shared_same [OF assms(1), of R'] perform_repo [OF callback(3)] perform_frame [OF callback(3)] by simp
next
  case (event_work st' c')
  have "repo_inv (platform E) (the_repo R)" "event_calls (platform E) (estage R) (rtrace (the_repo R))"
    "device_calls (platform E) (dstage R) (rtrace (the_repo R))" using assms(1) by (simp_all add: shared_inv_def)
  with event_work_calls [OF conjunct1 [OF event_round_step [OF event_work(2)]]] event_work(1) show ?thesis
    by (auto simp: shared_inv_def intro: calls_extend)
next
  case (device_work st' L' c')
  have "repo_inv (platform E) (the_repo R)" "event_calls (platform E) (estage R) (rtrace (the_repo R))"
    "device_calls (platform E) (dstage R) (rtrace (the_repo R))" using assms(1) by (simp_all add: shared_inv_def)
  with device_step_calls [OF conjunct1 [OF device_round_step [OF device_work(2)]]] device_work(1) show ?thesis
    by (auto simp: shared_inv_def intro: calls_extend)
next
  case (set_goroutines s')
  then show ?thesis using shared_same [OF assms(1), of R'] internal_repo by simp
qed (use shared_same [OF assms(1), of R'] in \<open>simp_all add: command_repo set_reg_def\<close>)

lemma new_repo_inv: "NewWithDependencies cfg = Some r \<Longrightarrow> repo_inv R r"
  by (auto simp: NewWithDependencies_def repo_inv_def split: option.splits)

lemma Start_repo: "Start cfg zb mb = Started c \<Longrightarrow> repo_inv R (devicerepo c)"
  by (auto simp: Start_def StartWithDependencies_def split: option.splits sum.splits start.splits prod.splits
      intro: new_repo_inv)

lemma rt_reachable_shared: "rt_reachable E R \<Longrightarrow> shared_inv E R"
proof (induction rule: rt_reachable.induct)
  case (rt_begin c)
  then show ?case by (simp add: shared_inv_def rt_start_def sys_start_def Start_repo)
qed (rule shared_inv_step)

end
