(* ===== verification/RuntimeProperties.thy ===== *)
theory RuntimeProperties
  imports Scenario RuntimeRuns RestingRuns GatewayMessages SharedRepo ClientProperties
begin

section \<open>Properties of the running connector\<close>

subsection \<open>The start\<close>

text \<open>
  C40. With brokers that accept everything, the start depends on the configured durations only:
  it succeeds exactly if all of them are valid and the refresh interval, if there is one, is
  positive, and it panics exactly if the others are valid and the interval is not positive.
\<close>

definition durations_ok :: "config \<Rightarrow> bool" where
  "durations_ok cfg \<longleftrightarrow> ParseDuration (MinCacheDuration cfg) \<noteq> None \<and> ParseDuration (MaxCacheDuration cfg) \<noteq> None
     \<and> getDeviceAttributes cfg \<noteq> None \<and> (\<exists>t. parseCommandAckTimeout cfg = Inr t)"

definition refresh_interval :: "config \<Rightarrow> string option" where
  "refresh_interval cfg =
     (if EventRefreshInterval cfg \<in> {[], ''-''} then None else Some (EventRefreshInterval cfg))"

lemma durations_ok_iff:
  "durations_ok cfg \<longleftrightarrow> NewWithDependencies cfg \<noteq> None \<and> getDeviceAttributes cfg \<noteq> None
     \<and> (\<exists>t. parseCommandAckTimeout cfg = Inr t)"
  by (simp only: durations_ok_def NewWithDependencies_None de_Morgan_disj conj_assoc)

lemma reliable_start:
  "Start cfg reliable reliable =
     (if \<not> durations_ok cfg then StartError
      else case startEventRefreshLoop cfg of
        StartError \<Rightarrow> StartError
      | StartPanic \<Rightarrow> StartPanic
      | Started p \<Rightarrow> Start cfg reliable reliable)"
  by (auto simp: Start_def StartWithDependencies_def durations_ok_iff reliable_constructors(1)
      split: option.splits sum.splits start.splits)

lemma reliable_started:
  assumes "durations_ok cfg" and "startEventRefreshLoop cfg = Started p"
  shows "\<exists>c. Start cfg reliable reliable = Started c \<and> zregister (zigbee c) = NewDeviceRegister"
proof -
  from assms(1) obtain r at t where r: "NewWithDependencies cfg = Some r"
    and at: "getDeviceAttributes cfg = Some at" and t: "parseCommandAckTimeout cfg = Inr t"
    unfolding durations_ok_iff by blast
  obtain m where m: "mgw_New (ConnectorId cfg) reliable True = Some m" using reliable_constructors(2) by blast
  obtain m1 where "ListenToCommands reliable m = (None, m1)" using reliable_constructors(3) by (metis prod.collapse)
  with r at t m assms(2) show ?thesis
    by (simp add: Start_def StartWithDependencies_def reliable_constructors(1) new_zclient_def)
qed

theorem start_outcome:
  "((\<exists>c. Start cfg reliable reliable = Started c) \<longleftrightarrow>
      durations_ok cfg \<and> (case refresh_interval cfg of None \<Rightarrow> True
        | Some s \<Rightarrow> (\<exists>d. ParseDuration s = Some d \<and> d > 0)))
   \<and> (Start cfg reliable reliable = StartPanic \<longleftrightarrow>
      durations_ok cfg \<and> (\<exists>s d. refresh_interval cfg = Some s \<and> ParseDuration s = Some d \<and> d \<le> 0))"
proof -
  have loop: "startEventRefreshLoop cfg = (case refresh_interval cfg of None \<Rightarrow> Started None
      | Some s \<Rightarrow> (case ParseDuration s of None \<Rightarrow> StartError | Some d \<Rightarrow> if d \<le> 0 then StartPanic else Started (Some d)))"
    by (simp add: startEventRefreshLoop_def refresh_interval_def)
  show ?thesis
  proof (cases "durations_ok cfg")
    case False
    with reliable_start [of cfg] show ?thesis by simp
  next
    case True
    note ok = True
    show ?thesis
    proof (cases "startEventRefreshLoop cfg")
      case (Started p)
      with reliable_started [OF True Started] True loop show ?thesis
        by (auto split: option.splits if_splits)
    qed (use reliable_start [of cfg] ok loop in \<open>auto split: option.splits if_splits\<close>)
  qed
qed

subsection \<open>Commands in the running connector\<close>

lemma default_durations: "durations_ok default_config"
proof -
  have "ParseDuration (MinCacheDuration default_config) \<noteq> None" "ParseDuration (MaxCacheDuration default_config) \<noteq> None"
    by code_simp+
  moreover have "getDeviceAttributes default_config \<noteq> None"
    by (simp add: getDeviceAttributes_None default_config_def zero_config_def)
  moreover have "TrimSpace (CommandAckTimeout default_config) = ''30s''"
    by (simp add: default_config_def TrimSpace_plain plain_char_def)
  moreover have "ParseDuration ''30s'' = Some 30000000000" by code_simp
  ultimately show ?thesis by (simp add: durations_ok_def parseCommandAckTimeout_def)
qed

lemma demo_start: "\<exists>c. Start (conf demo_env) (zbroker demo_env) (mbroker demo_env) = Started c
    \<and> zregister (zigbee c) = NewDeviceRegister"
proof -
  have "startEventRefreshLoop default_config = Started (Some 3600000000000)" by code_simp
  from reliable_started [OF default_durations this] show ?thesis by (simp add: demo_env_def)
qed

text \<open>A run: a set command of the gateway arrives and is posted.\<close>

definition switch_on_message :: mqtt_msg where
  "switch_on_message = message_on ''command/zigbee:0x01/set'' (enc_command (cd_Command switch_on))"

lemma switch_on_arrives:
  "command_message b i jerr switch_on_message m = Some (Some (''zigbee:0x01'', ''set'', cd_Command switch_on), m)"
proof -
  have "valid_utf8 (CommandId (cd_Command switch_on))" "valid_utf8 (Data (cd_Command switch_on))"
    by (rule valid_utf8_ascii, simp add: switch_on_def in_range_def)+
  from command_message_decodes [OF _ this, of "''set''" switch_on_message "''zigbee:0x01''"]
  show ?thesis by (simp add: switch_on_message_def message_on_def)
qed

definition arrived :: "connector \<Rightarrow> runtime" where
  "arrived c = (rt_start c)\<lparr>callbacks := [[PostCommand switch_on]]\<rparr>"

definition queued :: "connector \<Rightarrow> runtime" where
  "queued c = (rt_start c)\<lparr>callbacks := [[]], commandbuffer := [switch_on], posted := [switch_on]\<rparr>"

lemma switch_on_queued:
  assumes "Start (conf demo_env) (zbroker demo_env) (mbroker demo_env) = Started c"
  shows "rt_reachable demo_env (rt_start c)" and "rt_step demo_env (rt_start c) (arrived c)"
    and "rt_reachable demo_env (queued c)"
proof -
  show start: "rt_reachable demo_env (rt_start c)" by (rule rt_begin [OF assms])
  have "rt_step demo_env (rt_start c) ((put_con ((the_con (rt_start c))\<lparr>mgw := mgw (the_con (rt_start c))\<rparr>) (rt_start c))
      \<lparr>callbacks := callbacks (rt_start c) @ [case Some (''zigbee:0x01'', ''set'', cd_Command switch_on) of None \<Rightarrow> []
        | Some (d, s, cmd) \<Rightarrow> [PostCommand \<lparr>cd_DeviceId = d, cd_ServiceId = s, cd_Command = cmd\<rparr>]]\<rparr>)"
    by (rule rt_step.gateway_command [OF switch_on_arrives])
  then show step: "rt_step demo_env (rt_start c) (arrived c)"
    by (simp add: arrived_def rt_start_def put_con_def switch_on_def)
  have "rt_step demo_env (arrived c) (queued c)"
    using rt_step.callback [of "arrived c" "[]" "PostCommand switch_on" "[]" "[]" demo_env
        "(arrived c)\<lparr>commandbuffer := [switch_on], posted := [switch_on]\<rparr>"]
    by (simp add: arrived_def queued_def rt_start_def perform_simps chan_send_def buffer_size_def)
  with rt_more [OF rt_more [OF start step]] show "rt_reachable demo_env (queued c)" .
qed

lemma switch_on_is_set: "is_set demo_env switch_on"
  by (simp add: is_set_def switch_on_def demo_env_def default_config_def zero_config_def getDeviceIeeeAddress_def HasPrefix_def)

text \<open>
  C3. The connector as a whole refines the protocol of the set commands: whatever its loops,
  callbacks and tickers do, each step is one step of the protocol or none. So everything that
  holds of the protocol in every state it can reach holds in the running connector.
\<close>

theorem runtime_refines_protocol:
  assumes "rt_reachable E R" and "rt_step E R R'"
  shows "reachable E (protocol R) \<and> (protocol R' = protocol R \<or> step E (protocol R) (protocol R'))"
  using rt_refines [OF assms(1)] rt_step_refines [OF rt_reachable_inv [OF assms(1)] assms(2)] by blast

theorem runtime_refines_protocol_witness:
  "\<exists>c. reachable demo_env (protocol (rt_start c)) \<and> protocol (arrived c) = protocol (rt_start c)"
proof -
  obtain c where c: "Start (conf demo_env) (zbroker demo_env) (mbroker demo_env) = Started c" using demo_start by blast
  have "protocol (arrived c) = protocol (rt_start c)" by (simp add: arrived_def)
  with runtime_refines_protocol [OF switch_on_queued(1,2) [OF c]] show ?thesis by blast
qed



text \<open>
  Until the end of its context, the connector can always run until every posted command has
  been taken and every set command among them has been answered exactly once; neither a full
  event channel nor the mutex of the values can keep it from that.
\<close>

theorem every_command_answered:
  assumes "rt_reachable E R" and "\<not> cancelled R"
  shows "\<exists>R'. (rt_step E)\<^sup>*\<^sup>* R R' \<and> posted R' = posted R \<and> taken R' = posted R
    \<and> distinct (map fst (answered (protocol R')))
    \<and> set (map fst (answered (protocol R'))) = {..<length (filter (is_set E) (posted R))}"
proof -
  from empty_commands [OF assms] obtain R' where
    R': "(rt_step E)\<^sup>*\<^sup>* R R'" "commandbuffer R' = []" "posted R' = posted R" "between_commands R'" "\<not> cancelled R'"
    by blast
  have reach: "rt_reachable E R'" by (rule rt.reach_run [OF R'(1) assms(1)])
  have idle: "idle (protocol R')" "cstage R' = CmdWait" using R'(4) by (simp_all add: between_commands_def)
  from rt_reachable_inv [OF reach] R'(2,3) idle(2) have t: "taken R' = posted R"
      "commands (protocol R') = filter (is_set E) (posted R)" by (auto simp: rt_inv_def)
  note p = rt_refines [OF reach]
  have "mset (map fst (answered (protocol R'))) = mset [0..<length (commands (protocol R'))]"
    by (rule idle_answered [OF idle(1) reachable_inv [OF p] reachable_tokens [OF p] no_jam_running(3) [OF reach R'(5)]])
  then have "set (map fst (answered (protocol R'))) = {..<length (filter (is_set E) (posted R))}"
    using mset_eq_setD t(2) by fastforce
  with R' t answered_distinct(1) [OF reachable_tokens [OF p]] show ?thesis by blast
qed

theorem every_command_answered_witness:
  "\<exists>R. rt_reachable demo_env R \<and> taken R = [switch_on] \<and> map fst (answered (protocol R)) = [0]"
proof -
  obtain c where c: "Start (conf demo_env) (zbroker demo_env) (mbroker demo_env) = Started c" using demo_start by blast
  have "posted (queued c) = [switch_on]" "\<not> cancelled (queued c)" by (simp_all add: queued_def rt_start_def)
  with every_command_answered [OF switch_on_queued(3) [OF c]] switch_on_is_set
  obtain R' where R': "(rt_step demo_env)\<^sup>*\<^sup>* (queued c) R'" "taken R' = [switch_on]"
      "distinct (map fst (answered (protocol R')))" "set (map fst (answered (protocol R'))) = {..<1}" by auto
  have one: "l = [0]" if "distinct l" "set l = {..<1}" for l :: "nat list"
    using that by (cases l; cases "tl l") (auto simp: lessThan_Suc)
  from one [OF R'(3,4)] have "map fst (answered (protocol R')) = [0]" .
  with R'(2) rt.reach_run [OF R'(1) switch_on_queued(3) [OF c]] show ?thesis
    by (intro exI [of _ R']) simp
qed

text \<open>
  C2. In every run in which no goroutine is neglected and the context does not end, each set command
  that has entered the command channel is answered at some time, and only once, however many
  callbacks, states and other commands come in between: with at most one message, with exactly one
  if the gateway's broker accepts everything, and that message is addressed to the command.
\<close>

theorem fair_runs_answer_commands:
  assumes "live_run E \<sigma>" and "n < length (filter (is_set E) (posted (\<sigma> i)))"
  shows "\<exists>j\<ge>i. distinct (map fst (answered (protocol (\<sigma> j))))
    \<and> (\<exists>a ms. (n, a, ms) \<in> set (answered (protocol (\<sigma> j)))
        \<and> length ms \<le> 1 \<and> (mbroker E = reliable \<longrightarrow> length ms = 1)
        \<and> (let d = filter (is_set E) (posted (\<sigma> i)) ! n in
           \<forall>m \<in> set ms. answers_to (cd_DeviceId d) (cd_ServiceId d) (CommandId (cd_Command d)) m))"
proof -
  let ?sets = "\<lambda>i. filter (is_set E) (posted (\<sigma> i))"
  from leads_toD [OF live_answers [OF assms(1)], of n i, OF assms(2)] obtain j where
    j: "j \<ge> i" "is_answered n (protocol (\<sigma> j))" by blast
  note reach = live_facts(1) [OF live_runD(2) [OF assms(1), of j]]
  note R = reachable_facts [OF reach]
  from j(2) obtain a ms where a: "(n, a, ms) \<in> set (answered (protocol (\<sigma> j)))" by (auto simp: is_answered_def)
  then have ok: "answer_ok E (commands (protocol (\<sigma> j))) (n, a, ms)"
    by (rule addr_invD(7) [OF reachable_addr [OF rt_refines [OF reach]]])
  have "filter (is_set E) (taken (\<sigma> j)) = commands (protocol (\<sigma> j)) @ filter (is_set E) (at_hand (cstage (\<sigma> j)))"
    and "posted (\<sigma> j) = taken (\<sigma> j) @ commandbuffer (\<sigma> j)"
    using R(1) by (simp_all add: rt_inv_def)
  then obtain l where "?sets j = commands (protocol (\<sigma> j)) @ l" by simp
  moreover obtain l' where "?sets j = ?sets i @ l'" using histories_later(1) [OF live_runD(1) [OF assms(1)] j(1)] by auto
  moreover have "n < length (commands (protocol (\<sigma> j)))" using ok by (simp add: answer_ok_def reply_ok_def)
  ultimately have "commands (protocol (\<sigma> j)) ! n = ?sets i ! n"
    using assms(2) nth_append [of "commands (protocol (\<sigma> j))" l n] nth_append [of "?sets i" l' n] by (simp only: if_True)
  with ok a j(1) answered_distinct(1) [OF R(4)] show ?thesis by (auto simp: answer_ok_def Let_def)
qed

text \<open>There are such runs: the posted command is taken, handled and answered, and then nothing is left to do.\<close>

lemma queued_runs:
  assumes "Start (conf demo_env) (zbroker demo_env) (mbroker demo_env) = Started c"
  shows "\<exists>\<sigma>. live_run demo_env \<sigma> \<and> \<sigma> 0 = queued c"
proof -
  let ?R1 = "(queued c)\<lparr>cstage := CmdLookup switch_on, commandbuffer := [], taken := [switch_on]\<rparr>"
  have first: "keeping (\<lambda>R. \<not> cancelled R) demo_env (queued c) ?R1"
    using rt_step.command_take [of "queued c" switch_on "[]" demo_env]
    by (simp add: keeping_def queued_def rt_start_def sys_start_def)
  from command_to_idle [of demo_env ?R1 switch_on] rt_more [OF switch_on_queued(3) [OF assms]] first obtain s where
    s: "(own_step demo_env)\<^sup>*\<^sup>* ?R1 (?R1\<lparr>cstage := CmdWait, protocol := s\<rparr>)" "idle s"
    by (auto simp: keeping_def queued_def rt_start_def)
  have "(keeping (\<lambda>R. \<not> cancelled R) demo_env)\<^sup>*\<^sup>* ?R1 (?R1\<lparr>cstage := CmdWait, protocol := s\<rparr>)"
    by (rule own_keeping [OF s(1)]) (simp add: queued_def rt_start_def)
  with first have path: "(keeping (\<lambda>R. \<not> cancelled R) demo_env)\<^sup>*\<^sup>* (queued c) (?R1\<lparr>cstage := CmdWait, protocol := s\<rparr>)"
    by (rule converse_rtranclp_into_rtranclp)
  have "at_rest (?R1\<lparr>cstage := CmdWait, protocol := s\<rparr>)"
    using s(2) by (simp add: at_rest_def loops_at_rest_def loop_enabled_def device_loop_start_def queued_def rt_start_def)
  from resting_live_run [OF switch_on_queued(3) [OF assms] path this] show ?thesis
    by (auto simp: queued_def rt_start_def)
qed

theorem fair_runs_answer_commands_witness:
  "\<exists>\<sigma> j a m. live_run demo_env \<sigma> \<and> posted (\<sigma> 0) = [switch_on] \<and> answered (protocol (\<sigma> 0)) = []
    \<and> (0, a, [m]) \<in> set (answered (protocol (\<sigma> j))) \<and> answers_to ''zigbee:0x01'' ''set'' ''c1'' m"
proof -
  obtain c where c: "Start (conf demo_env) (zbroker demo_env) (mbroker demo_env) = Started c" using demo_start by blast
  from queued_runs [OF this] obtain \<sigma> where \<sigma>: "live_run demo_env \<sigma>" "\<sigma> 0 = queued c" by blast
  have sets: "filter (is_set demo_env) (posted (\<sigma> 0)) = [switch_on]"
    using switch_on_is_set by (simp add: \<sigma>(2) queued_def)
  have "mbroker demo_env = reliable" by (simp add: demo_env_def)
  with fair_runs_answer_commands [OF \<sigma>(1), of 0 0] sets obtain j a ms where
    j: "(0, a, ms) \<in> set (answered (protocol (\<sigma> j)))" "length ms = 1"
    "\<forall>m \<in> set ms. answers_to ''zigbee:0x01'' ''set'' ''c1'' m"
    by (auto simp: Let_def switch_on_def)
  from j(2) obtain m where "ms = [m]" by (cases ms) auto
  with j \<sigma> show ?thesis
    by (intro exI [of _ \<sigma>] exI [of _ j] exI [of _ a] exI [of _ m]) (simp add: queued_def rt_start_def sys_start_def)
qed


subsection \<open>What the gateway is told\<close>




subsection \<open>The repository cache between the event loop and the device loop\<close>

text \<open>
  C7. Although both loops use the cache at the same time, whatever the platform answers, no device
  type is created twice for a vendor and model and every created one is remembered; the cached list
  is the one that was read last, and as long as a type may have been created since then, it counts
  as outdated, so that the next search reads it again; and the type cached for a device is one that
  the platform has named for it.
\<close>

theorem cache_shared_by_loops:
  assumes "rt_reachable E R"
  shows "let r = the_repo R; P = platform E; calls = rtrace r in
    distinct (map fst (made P calls)) \<and> map_of (createdDt r) = map_of (made P calls)
    \<and> deviceTypes r = last_list P calls \<and> (unlisted P calls \<longrightarrow> lastDtRefresh r = zero_time)
    \<and> (\<forall>i dtId. map_of (deviceDeviceTypeIdCache r) i = Some dtId \<longrightarrow> dtId \<in> told P i calls)"
  using rt_reachable_shared [OF assms] by (simp add: shared_inv_def repo_inv_def Let_def)

theorem cache_shared_by_loops_witness:
  "\<exists>R. rt_reachable demo_env R \<and> commandbuffer R = [switch_on] \<and> deviceTypes (the_repo R) = last_list no_platform (rtrace (the_repo R))"
proof -
  obtain c where c: "Start (conf demo_env) (zbroker demo_env) (mbroker demo_env) = Started c" using demo_start by blast
  have "platform demo_env = no_platform" by (simp add: demo_env_def)
  with cache_shared_by_loops [OF switch_on_queued(3) [OF c]] switch_on_queued(3) [OF c] show ?thesis
    by (intro exI [of _ "queued c"]) (simp add: Let_def queued_def)
qed

subsection \<open>States of devices in the running connector\<close>

text \<open>
  C6. The purpose of the mutex of the values: however many callbacks race, the events reach the
  channel in the order in which their payloads are stored. So whenever the mutex is free the
  stored value of each device is the payload of the last event handed over for it (there is no
  value if there was no event), and while a callback holds it that callback's event is the next.
\<close>

theorem events_follow_values:
  assumes "rt_reachable E R"
  shows "map_of (zvalues (zigbee (the_con R))) ieee = last_payload ieee (seen R @ eventbuffer R @ mux_events R)"
  using rt_reachable_mux [OF assms] rt_reachable_inv [OF assms] by (simp add: mux_inv_def rt_inv_def)

definition lamp_list :: string where
  "lamp_list = ''[{\"ieee_address\":\"0x01\",\"friendly_name\":\"lamp\"}]''"

definition bare_lamp :: device_info where
  "bare_lamp = zero_device\<lparr>IeeeAddress := ''0x01'', FriendlyName := ''lamp''\<rparr>"

definition lamp_register :: register where
  "lamp_register = snd (reg_Set [bare_lamp] NewDeviceRegister)"

lemma lamp_listed:
  "zregister z = NewDeviceRegister \<Longrightarrow> deviceInfoHandler lamp_list z =
     ([DeviceInfoUpdate [bare_lamp], InitialRefresh], z\<lparr>zregister := lamp_register\<rparr>)"
proof -
  have "parseDeviceInfoMessage lamp_list = Some [bare_lamp]" by code_simp
  moreover have "fst (reg_Set [bare_lamp] NewDeviceRegister)" by (simp add: NewDeviceRegister_def)
  ultimately show "zregister z = NewDeviceRegister \<Longrightarrow> ?thesis"
    by (cases "reg_Set [bare_lamp] NewDeviceRegister") (simp add: deviceInfoHandler_def lamp_register_def)
qed

definition kept_message :: mqtt_msg where
  "kept_message = on_message\<lparr>msg_retained := True\<rparr>"

definition lamp_event :: event_desc where
  "lamp_event = \<lparr>ev_Device = bare_lamp, ev_Payload = msg_payload kept_message\<rparr>"

lemma lamp_found:
  "reg_GetByFriendlyName CtxDeadline lamp_register ''lamp'' = Inr bare_lamp"
  "reg_GetByIeee CtxDeadline lamp_register ''0x01'' = Inr bare_lamp"
  by code_simp+

lemma lamp_state:
  assumes "zregister z = lamp_register"
  shows "eventHandler (conf demo_env) CtxDeadline kept_message z =
    ([EventReceived bare_lamp (msg_payload kept_message)], z_store bare_lamp (msg_payload kept_message) z)"
proof -
  have "\<not> HasPrefix (msg_topic kept_message) (ZigbeeMqttTopicPrefix (conf demo_env) @ ''bridge/'')"
    "TrimPrefix (msg_topic kept_message) (ZigbeeMqttTopicPrefix (conf demo_env)) = ''lamp''" by code_simp+
  then show ?thesis
    using assms lamp_found(1) by (simp add: eventHandler_def Let_def z_store_def kept_message_def)
qed

text \<open>A burst of states: the events fill the channel while the event loop is not scheduled.\<close>

definition burst :: "nat \<Rightarrow> runtime \<Rightarrow> bool" where
  "burst n R \<longleftrightarrow> rt_reachable demo_env R \<and> zregister (zigbee (the_con R)) = lamp_register
     \<and> value_mux R = None \<and> length (eventbuffer R) = n \<and> estage R = EvWait \<and> cstage R = CmdWait
     \<and> handling (protocol R) = None \<and> commandbuffer R = [] \<and> acks (the_con R) \<noteq> None"

definition storing :: "nat \<Rightarrow> runtime \<Rightarrow> bool" where
  "storing n R \<longleftrightarrow> rt_reachable demo_env R \<and> zregister (zigbee (the_con R)) = lamp_register
     \<and> value_mux R = Some lamp_event \<and> length (eventbuffer R) = n \<and> estage R = EvWait \<and> cstage R = CmdWait
     \<and> handling (protocol R) = None \<and> commandbuffer R = [] \<and> acks (the_con R) \<noteq> None
     \<and> (\<exists>before. callbacks R = before @ [[PostEvent lamp_event]])"

lemma demo_timeout: "parseCommandAckTimeout (conf demo_env) = Inr 30000000000"
  by code_simp

lemma burst_start: "\<exists>R. burst 0 R"
proof -
  obtain c where c: "Start (conf demo_env) (zbroker demo_env) (mbroker demo_env) = Started c"
    "zregister (zigbee c) = NewDeviceRegister" using demo_start by blast
  have acks: "acks c \<noteq> None"
    using c(1) demo_timeout by (auto simp: Start_def StartWithDependencies_def new_acks_def
        split: option.splits start.splits prod.splits)
  have reg: "zregister (zigbee (the_con (rt_start c))) = NewDeviceRegister" using c(2) by (simp add: rt_start_def sys_start_def)
  let ?R = "(put_con ((the_con (rt_start c))\<lparr>zigbee := (zigbee (the_con (rt_start c)))\<lparr>zregister := lamp_register\<rparr>\<rparr>) (rt_start c))
    \<lparr>callbacks := callbacks (rt_start c) @ [outcalls [DeviceInfoUpdate [bare_lamp], InitialRefresh]]\<rparr>"
  have "rt_step demo_env (rt_start c) ?R" by (rule rt_step.device_list [OF lamp_listed [OF reg]])
  with rt_begin [OF c(1)] have "rt_reachable demo_env ?R" by (rule rt_more)
  with acks show ?thesis by (intro exI [of _ ?R]) (simp add: burst_def rt_start_def sys_start_def)
qed

lemma burst_store: "burst n R \<Longrightarrow> \<exists>R'. storing n R'"
proof -
  assume R: "burst n R"
  let ?R1 = "R\<lparr>callbacks := callbacks R @ [[StoreValue bare_lamp (msg_payload kept_message), PostEvent lamp_event]]\<rparr>"
  have "rt_step demo_env R ?R1"
    using rt_step.device_state [of demo_env kept_message R, OF lamp_state] R
    by (simp add: burst_def outcalls_def lamp_event_def)
  with R have r1: "rt_reachable demo_env ?R1" by (auto simp: burst_def intro: rt_more)
  let ?R2 = "((put_con ((the_con R)\<lparr>zigbee := z_store bare_lamp (msg_payload kept_message) (zigbee (the_con R))\<rparr>) ?R1)
    \<lparr>value_mux := Some lamp_event\<rparr>)"
  have "perform demo_env (StoreValue bare_lamp (msg_payload kept_message)) ?R1 = Some ?R2"
    using R by (simp add: perform_simps burst_def lamp_event_def)
  from rt_step.callback [OF _ this, of "callbacks R" "[PostEvent lamp_event]" "[]"]
  have "rt_step demo_env ?R1 (?R2\<lparr>callbacks := callbacks R @ [[PostEvent lamp_event]]\<rparr>)" by simp
  with r1 have "rt_reachable demo_env (?R2\<lparr>callbacks := callbacks R @ [[PostEvent lamp_event]]\<rparr>)" by (rule rt_more)
  with R show ?thesis
    by (intro exI [of _ "?R2\<lparr>callbacks := callbacks R @ [[PostEvent lamp_event]]\<rparr>"])
       (simp add: burst_def storing_def z_store_def)
qed

lemma burst_more: "storing n R \<Longrightarrow> n < 100 \<Longrightarrow> \<exists>R'. burst (Suc n) R' \<and> eventbuffer R' \<noteq> [] \<and> last (eventbuffer R') = lamp_event"
proof -
  assume R: "storing n R" and n: "n < 100"
  then obtain before where before: "callbacks R = before @ [PostEvent lamp_event # []] @ []" by (auto simp: storing_def)
  let ?R1 = "R\<lparr>eventbuffer := eventbuffer R @ [lamp_event], handed := handed R @ [lamp_event], value_mux := None\<rparr>"
  have "perform demo_env (PostEvent lamp_event) R = Some ?R1"
    using R n by (simp add: perform_simps chan_send_def storing_def buffer_size_def)
  from rt_step.callback [OF _ this, of before "[]" "[]"] before
  have "rt_step demo_env R (?R1\<lparr>callbacks := before @ [[]]\<rparr>)" by simp
  with R have "rt_reachable demo_env (?R1\<lparr>callbacks := before @ [[]]\<rparr>)" by (auto simp: storing_def intro: rt_more)
  with R show ?thesis
    by (intro exI [of _ "?R1\<lparr>callbacks := before @ [[]]\<rparr>"]) (simp add: burst_def storing_def)
qed

theorem events_follow_values_witness:
  "\<exists>R. rt_reachable demo_env R \<and> length (eventbuffer R) = 1
     \<and> map_of (zvalues (zigbee (the_con R))) ''0x01'' = Some (msg_payload kept_message)"
proof -
  from burst_start burst_store burst_more [of 0] obtain R where
    R: "burst 1 R" "eventbuffer R \<noteq> []" "last (eventbuffer R) = lamp_event" by fastforce
  then have "eventbuffer R = [lamp_event]" by (cases "eventbuffer R") (auto simp: burst_def)
  moreover have "mux_events R = []" using R(1) by (simp add: burst_def mux_events_def)
  moreover have "last_payload ''0x01'' (seen R @ [lamp_event]) = Some (msg_payload kept_message)"
    by (simp add: lamp_event_def bare_lamp_def)
  ultimately show ?thesis using events_follow_values [of demo_env R "''0x01''"] R(1)
    by (intro exI [of _ R]) (simp add: burst_def)
qed

text \<open>
  What a state message does once the device list is known, on a topic of the bridge, of an
  unknown name and of a listed device.
\<close>

theorem state_message_effect:
  assumes "rt_reachable E R" and "reg_init (zregister (zigbee (the_con R)))"
    and "msg_topic msg = ZigbeeMqttTopicPrefix (conf E) @ name"
    and "eventHandler (conf E) ctx msg (zigbee (the_con R)) = (ups, z')"
  shows "let z = zigbee (the_con R); devices = set (reg_list (zregister z)) in
     if HasPrefix name ''bridge/'' \<or> name \<notin> FriendlyName ` devices then ups = [] \<and> z' = z
     else \<exists>d \<in> devices. FriendlyName d = name
       \<and> ups = (if msg_retained msg then [] else [StateObserved (IeeeAddress d) (msg_payload msg)])
                @ [EventReceived d (msg_payload msg)]
       \<and> z' = z\<lparr>zvalues := zvalues z'\<rparr>
       \<and> map_of (zvalues z') = (map_of (zvalues z))(IeeeAddress d \<mapsto> msg_payload msg)"
  unfolding Let_def by (rule state_message [OF rt_reachable_zigbee [OF assms(1)] assms(2-4)])

theorem state_message_effect_witness:
  "\<exists>R ups z'. rt_reachable demo_env R \<and> eventHandler (conf demo_env) CtxDeadline on_message (zigbee (the_con R)) = (ups, z')
     \<and> map_of (zvalues z') ''0x01'' = Some (msg_payload on_message)"
proof -
  from burst_start obtain R where R: "rt_reachable demo_env R" "zregister (zigbee (the_con R)) = lamp_register"
    by (auto simp: burst_def)
  obtain ups z' where h: "eventHandler (conf demo_env) CtxDeadline on_message (zigbee (the_con R)) = (ups, z')" by fastforce
  have "msg_topic on_message = ZigbeeMqttTopicPrefix (conf demo_env) @ ''lamp''" by code_simp
  from state_message_effect [OF R(1) _ this h] R(2)
  have "map_of (zvalues z') ''0x01'' = Some (msg_payload on_message)"
    by (auto simp: lamp_register_def bare_lamp_def HasPrefix_def Let_def)
  with R(1) h show ?thesis by blast
qed

subsection \<open>The shutdown\<close>

text \<open>
  C8. The wait group is exact: \<^verbatim>\<open>main\<close> returns only when all the goroutines that handle devices,
  commands and events, refresh, answer, watch or disconnect have returned; the counter is never
  negative, nothing joins the group when it is zero, and so \<^verbatim>\<open>main\<close> never has to wait again.
\<close>

theorem main_waits_for_all:
  assumes "rt_reachable E R"
  shows "0 \<le> wait_count R \<and> (main_done R \<longleftrightarrow> all_ended R) \<and> (main_done R \<longleftrightarrow> wait_count R = 0)
    \<and> (\<forall>R'. rt_step E R R' \<and> wait_count R < wait_count R' \<longrightarrow> 0 < wait_count R)
    \<and> (\<forall>R'. rt_step E R R' \<and> main_done R \<longrightarrow> main_done R')"
proof -
  have ended: "main_done R' \<longleftrightarrow> all_ended R'" "main_done R' \<longleftrightarrow> wait_count R' = 0" if r: "rt_reachable E R'" for R'
    using count_ended(2) [OF r] rt_reachable_running [OF r] by (auto simp: main_done_def running_def all_ended_def)
  have stays: "all_ended R'" if "rt_step E R R'" "all_ended R" for R'
    by (rule ended_step [OF reachable_wg [OF rt_refines [OF assms]] that(2,1)])
  have more: "rt_reachable E R'" if "rt_step E R R'" for R' by (rule rt_more [OF assms that])
  have "0 < wait_count R" if "rt_step E R R'" "wait_count R < wait_count R'" for R'
    using stays [OF that(1)] count_ended [OF assms] count_ended [OF more [OF that(1)]] that(2) by linarith
  with ended [OF assms] ended(1) [OF more] stays count_ended(1) [OF assms] show ?thesis by blast
qed

theorem main_waits_for_all_witness: "\<exists>c. rt_reachable demo_env (rt_start c) \<and> \<not> main_done (rt_start c)"
proof -
  obtain c where c: "Start (conf demo_env) (zbroker demo_env) (mbroker demo_env) = Started c" using demo_start by blast
  have "\<not> all_ended (rt_start c)" by (simp add: all_ended_def rt_start_def)
  with main_waits_for_all [OF rt_begin [OF c]] rt_begin [OF c] show ?thesis by blast
qed

text \<open>
  After the end of the context the program can always come to its end, from any state of
  its goroutines, unless the device list at hand makes the handler panic, or the command loop
  needs a stored value while a callback holds the mutex and waits for room in a full event
  channel that nobody empties any more.
\<close>

theorem shutdown_completes:
  assumes "rt_reachable E R" and "cancelled R" and "device_rest E (dstage R) (dloop R) (the_con R) \<noteq> None"
    and "\<not> (event_jam R \<and> wants_value (cstage R))"
  shows "\<exists>R'. (rt_step E)\<^sup>*\<^sup>* R R' \<and> main_done R'"
proof -
  from shutdown_ends [OF assms] obtain R' where R': "(rt_step E)\<^sup>*\<^sup>* R R'" "all_ended R'" by blast
  have "rt_reachable E R'" by (rule rt.reach_run [OF R'(1) assms(1)])
  with R' count_ended(2) rt_reachable_running have "main_done R'"
    by (auto simp: main_done_def running_def all_ended_def)
  with R'(1) show ?thesis by blast
qed

theorem shutdown_completes_witness:
  "\<exists>R R'. rt_reachable demo_env R \<and> commandbuffer R = [switch_on] \<and> (rt_step demo_env)\<^sup>*\<^sup>* R R' \<and> main_done R'"
proof -
  obtain c where c: "Start (conf demo_env) (zbroker demo_env) (mbroker demo_env) = Started c" using demo_start by blast
  let ?R = "on_signal (queued c)"
  have reach: "rt_reachable demo_env ?R" by (rule rt_more [OF switch_on_queued(3) [OF c] rt_step.cancel])
  have "cancelled ?R" "device_rest demo_env (dstage ?R) (dloop ?R) (the_con ?R) \<noteq> None"
    "\<not> (event_jam ?R \<and> wants_value (cstage ?R))"
    by (simp_all add: queued_def rt_start_def event_jam_def)
  from shutdown_completes [OF reach this] reach show ?thesis by (fastforce simp: queued_def)
qed

text \<open>
  C9. In every run in which no goroutine is neglected, the program comes to its end once the context
  has ended: at some time every goroutine that \<^verbatim>\<open>main\<close> waits for has returned, and \<^verbatim>\<open>main\<close> can return
  from then on. Two things can prevent it: a device list that makes the handler panic, and a
  command loop that needs a stored value while a callback holds the mutex and waits for room in a
  full event channel that nobody empties any more.
\<close>

theorem fair_runs_shut_down:
  assumes "fair_run E \<sigma>" and "no_panics E \<sigma>" and "never_jams \<sigma>" and "cancelled (\<sigma> i)"
  shows "\<exists>j\<ge>i. \<forall>k\<ge>j. main_done (\<sigma> k)"
proof -
  from leads_toD [OF fair_shutdown [OF assms(1-3)] assms(4)] obtain j where j: "j \<ge> i" "all_ended (\<sigma> j)" by blast
  note reach = fair_runD(2) [OF assms(1)]
  have "lasting E all_ended"
    unfolding lasting_def using ended_step [OF reachable_wg [OF rt_refines]] by blast
  then have "all_ended (\<sigma> k)" if "k \<ge> j" for k using lasting_later [where A = all_ended and i = j, OF assms(1)] j(2) that by blast
  then have "main_done (\<sigma> k)" if "k \<ge> j" for k
    using that count_ended(2) [OF reach] rt_reachable_running [OF reach] unfolding main_done_def running_def all_ended_def
    by blast
  with j(1) show ?thesis by blast
qed

theorem fair_runs_shut_down_witness:
  "\<exists>\<sigma> j. fair_run demo_env \<sigma> \<and> commandbuffer (\<sigma> 0) = [switch_on] \<and> \<not> main_done (\<sigma> 0) \<and> main_done (\<sigma> j)"
proof -
  obtain c where c: "Start (conf demo_env) (zbroker demo_env) (mbroker demo_env) = Started c" using demo_start by blast
  let ?R = "on_signal (queued c)"
  have reach: "rt_reachable demo_env ?R" by (rule rt_more [OF switch_on_queued(3) [OF c] rt_step.cancel])
  have idle: "idle (protocol ?R)"
    using Start_acks [OF c] by (auto simp: idle_def queued_def rt_start_def sys_start_def newAckRegistry_def)
  from resting_shutdown [OF reach] idle obtain \<sigma> where
    \<sigma>: "fair_run demo_env \<sigma>" "\<sigma> 0 = ?R" "no_panics demo_env \<sigma>" "never_jams \<sigma>"
    by (auto simp: queued_def rt_start_def device_loop_start_def)
  from fair_runs_shut_down [OF \<sigma>(1,3,4), of 0] \<sigma>(2) obtain j where "main_done (\<sigma> j)" by auto
  moreover have "\<not> main_done ?R"
    using count_ended(2) [OF reach] by (simp add: main_done_def all_ended_def queued_def rt_start_def)
  ultimately show ?thesis using \<sigma> by (intro exI [of _ \<sigma>] exI [of _ j]) (simp add: queued_def)
qed

text \<open>
  C10. In that last case the program never ends: the command loop waits for the mutex, its
  holder for room in the channel, and \<^verbatim>\<open>main\<close> for the command loop. A burst of a hundred and one
  states and a \<^verbatim>\<open>get\<close> command before the shutdown lead there.
\<close>

theorem shutdown_can_hang:
  assumes "rt_reachable E R" and "event_jam R" and "cstage R = CmdLock d ieee exposes device"
    and "(rt_step E)\<^sup>*\<^sup>* R R'"
  shows "\<not> main_done R' \<and> 1 \<le> wait_count R'"
proof -
  have "cstage R' = CmdLock d ieee exposes device" using jam_forever [OF assms(4,2,3)] by blast
  then have "\<not> all_ended R'" by (simp add: all_ended_def)
  with count_ended [OF rt.reach_run [OF assms(4,1)]] show ?thesis by (auto simp: main_done_def)
qed

definition get_lamp :: command_desc where
  "get_lamp = switch_on\<lparr>cd_ServiceId := ''get''\<rparr>"

lemma get_lamp_arrives:
  "command_message b i jerr (message_on ''command/zigbee:0x01/get'' (enc_command (cd_Command get_lamp))) m
     = Some (Some (''zigbee:0x01'', ''get'', cd_Command get_lamp), m)"
proof -
  have "valid_utf8 (CommandId (cd_Command get_lamp))" "valid_utf8 (Data (cd_Command get_lamp))"
    by (rule valid_utf8_ascii, simp add: switch_on_def get_lamp_def in_range_def)+
  from command_message_decodes [OF _ this, of "''get''" _ "''zigbee:0x01''"]
  show ?thesis by (simp add: message_on_def)
qed

lemma full_burst: "n \<le> 100 \<Longrightarrow> \<exists>R. burst n R"
proof (induction n)
  case (Suc n)
  then show ?case using burst_store burst_more by (metis Suc_leD Suc_le_lessD)
qed (rule burst_start)

lemma get_needs_value: "needs_value demo_env get_lamp c = Some ''0x01''"
  by (simp add: needs_value_def get_lamp_def switch_on_def getDeviceIeeeAddress_iff demo_env_def
      default_config_def zero_config_def)

lemma get_waits: "zregister (zigbee c) = lamp_register \<Longrightarrow> command_lookup get_lamp ''0x01'' c = CmdLock get_lamp ''0x01'' [] bare_lamp"
  using lamp_found(2) by (simp add: command_lookup_def get_lamp_def)

text \<open>The \<^verbatim>\<open>get\<close> is taken and looked up while the mutex is held, then the event loop returns.\<close>

lemma jam_reached:
  "\<exists>R. rt_reachable demo_env R \<and> event_jam R \<and> cancelled R \<and> cstage R = CmdLock get_lamp ''0x01'' [] bare_lamp"
proof -
  from full_burst [of 100] burst_store obtain R where R: "storing 100 R" by auto
  then obtain cbs where cbs: "callbacks R = cbs" and r: "rt_reachable demo_env R" by (auto simp: storing_def)
  let ?R1 = "R\<lparr>callbacks := cbs @ [[PostCommand get_lamp]]\<rparr>"
  have "rt_step demo_env R ((put_con ((the_con R)\<lparr>mgw := mgw (the_con R)\<rparr>) R)\<lparr>callbacks := callbacks R @
      [case Some (''zigbee:0x01'', ''get'', cd_Command get_lamp) of None \<Rightarrow> []
        | Some (d, s, cmd) \<Rightarrow> [PostCommand \<lparr>cd_DeviceId = d, cd_ServiceId = s, cd_Command = cmd\<rparr>]]\<rparr>)"
    by (rule rt_step.gateway_command [OF get_lamp_arrives])
  then have "rt_step demo_env R ?R1" using cbs by (simp add: put_con_def get_lamp_def switch_on_def)
  with r have r1: "rt_reachable demo_env ?R1" by (rule rt_more)
  let ?R2 = "?R1\<lparr>commandbuffer := [get_lamp], posted := posted R @ [get_lamp]\<rparr>"
  have "perform demo_env (PostCommand get_lamp) ?R1 = Some ?R2"
    using R by (simp add: perform_simps chan_send_def buffer_size_def storing_def)
  from rt_step.callback [OF _ this, of cbs "[]" "[]"] have
    "rt_step demo_env ?R1 (?R2\<lparr>callbacks := cbs @ [[]]\<rparr>)" by simp
  with r1 have r2: "rt_reachable demo_env (?R2\<lparr>callbacks := cbs @ [[]]\<rparr>)" by (rule rt_more)
  let ?R3 = "?R2\<lparr>callbacks := cbs @ [[]], cstage := CmdLookup get_lamp, commandbuffer := [], taken := taken R @ [get_lamp]\<rparr>"
  have "rt_step demo_env (?R2\<lparr>callbacks := cbs @ [[]]\<rparr>) ?R3"
    using rt_step.command_take [of "?R2\<lparr>callbacks := cbs @ [[]]\<rparr>" get_lamp "[]" demo_env] R by (simp add: storing_def)
  with r2 have r3: "rt_reachable demo_env ?R3" by (rule rt_more)
  let ?R4 = "?R3\<lparr>cstage := CmdLock get_lamp ''0x01'' [] bare_lamp\<rparr>"
  have "rt_step demo_env ?R3 ?R4"
    using rt_step.command_lookup [of ?R3 get_lamp demo_env "''0x01''"] get_needs_value get_waits R by (simp add: storing_def)
  with r3 have r4: "rt_reachable demo_env ?R4" by (rule rt_more)
  have r5: "rt_reachable demo_env (?R4\<lparr>cancelled := True\<rparr>)" using rt_more [OF r4 rt_step.cancel] by simp
  let ?R6 = "?R4\<lparr>cancelled := True, estage := EvEnd, others := others R - 1\<rparr>"
  have "rt_step demo_env (?R4\<lparr>cancelled := True\<rparr>) ?R6"
    using rt_step.event_stop [of "?R4\<lparr>cancelled := True\<rparr>" demo_env] R by (simp add: storing_def)
  with r5 have "rt_reachable demo_env ?R6" by (rule rt_more)
  with R show ?thesis by (intro exI [of _ ?R6]) (simp add: event_jam_def storing_def buffer_size_def)
qed

theorem shutdown_can_hang_witness:
  "\<exists>R. rt_reachable demo_env R \<and> cancelled R \<and> (\<forall>R'. (rt_step demo_env)\<^sup>*\<^sup>* R R' \<longrightarrow> \<not> main_done R')"
proof -
  from jam_reached obtain R where R: "rt_reachable demo_env R" "event_jam R" "cancelled R"
    "cstage R = CmdLock get_lamp ''0x01'' [] bare_lamp" by blast
  with shutdown_can_hang [OF R(1,2,4)] show ?thesis by blast
qed

end
