(* ===== verification/ProcessEnd.thy ===== *)
theory ProcessEnd
  imports RuntimeRuns
begin

section \<open>The end of the process\<close>

text \<open>
  The process is \<open>Alive\<close> with the state of its goroutines until \<^verbatim>\<open>main\<close> returns, a panic that nobody
  recovers from or \<^verbatim>\<open>log.Fatal\<close> ends all of them at once: \<^verbatim>\<open>main\<close> after an error of the configuration
  or of the start, and the handler of a new connection of one of the two clients if its topics
  cannot be subscribed to.
\<close>

datatype ending = Returned | Panicked | Fatal

datatype process = Alive runtime | Ended ending

definition first_process ::
    "(string \<Rightarrow> string option) \<Rightarrow> (string \<Rightarrow> string) \<Rightarrow> string \<Rightarrow> broker \<Rightarrow> broker \<Rightarrow> process" where
  "first_process open_file getenv configLocation zb mb =
     (case main_start open_file getenv configLocation zb mb of
        StartError \<Rightarrow> Ended Fatal
      | StartPanic \<Rightarrow> Ended Panicked
      | Started c \<Rightarrow> Alive (rt_start c))"

inductive process_step :: "env \<Rightarrow> process \<Rightarrow> process \<Rightarrow> bool" for E where
  goroutine: "rt_step E R R' \<Longrightarrow> process_step E (Alive R) (Alive R')"
| main_returns: "main_done R \<Longrightarrow> process_step E (Alive R) (Ended Returned)"
| device_panic: "dstage R \<noteq> DvWait \<Longrightarrow> dstage R \<noteq> DvEnd \<Longrightarrow> device_step E (dstage R) (dloop R) (the_con R) = None \<Longrightarrow>
    process_step E (Alive R) (Ended Panicked)"
| zigbee_fatal: "z_on_connect (conf E) (zbroker E) (zigbee (the_con R)) = None \<Longrightarrow> process_step E (Alive R) (Ended Fatal)"
| gateway_fatal: "mgw_on_connect (mbroker E) (mgw (the_con R)) = None \<Longrightarrow> process_step E (Alive R) (Ended Fatal)"

inductive_simps process_step_from_end [simp]: "process_step E (Ended e) p"
inductive_simps process_goes_on [simp]: "process_step E (Alive R) (Alive R')"

inductive process_reachable :: "(string \<Rightarrow> string option) \<Rightarrow> (string \<Rightarrow> string) \<Rightarrow> string \<Rightarrow> env \<Rightarrow> process \<Rightarrow> bool"
  for open_file getenv configLocation E where
  process_begin: "(\<And>cfg. Load open_file getenv configLocation = Loaded cfg \<Longrightarrow> cfg = conf E) \<Longrightarrow>
    process_reachable open_file getenv configLocation E (first_process open_file getenv configLocation (zbroker E) (mbroker E))"
| process_more: "process_reachable open_file getenv configLocation E p \<Longrightarrow> process_step E p p' \<Longrightarrow>
    process_reachable open_file getenv configLocation E p'"

subsection \<open>Which ends there are\<close>

lemma main_start_Started: "main_start f g l zb mb = Started c \<Longrightarrow> \<exists>cfg. Load f g l = Loaded cfg \<and> Start cfg zb mb = Started c"
  by (auto simp: main_start_def split: load_result.splits)

lemma alive_reachable: "process_reachable f g l E (Alive R) \<Longrightarrow> rt_reachable E R"
proof (induction "Alive R" arbitrary: R rule: process_reachable.induct)
  case process_begin
  then obtain c where c: "main_start f g l (zbroker E) (mbroker E) = Started c" "R = rt_start c"
    by (auto simp: first_process_def split: start.splits)
  from main_start_Started [OF c(1)] process_begin(1) have "Start (conf E) (zbroker E) (mbroker E) = Started c" by blast
  with c(2) show ?case by (simp add: rt_begin)
next
  case (process_more p)
  then show ?case by (cases p) (auto intro: rt_more)
qed

text \<open>The device loop looks up and creates types of valid devices only.\<close>

fun stage_valid :: "device_stage \<Rightarrow> bool" where
  "stage_valid (DvType device p w) \<longleftrightarrow> isValidDevice device"
| "stage_valid st \<longleftrightarrow> True"

lemma device_step_valid:
  "device_step E st L c = Some (st', L', c') \<Longrightarrow> stage_valid st \<Longrightarrow> stage_valid st'"
  by (cases "(E, st, L, c)" rule: device_step.cases)
     (auto simp: Let_def type_looked_up_def type_created_def split: list.splits prod.splits sum.splits if_splits)

lemma reachable_stage_valid: "rt_reachable E R \<Longrightarrow> stage_valid (dstage R)"
proof (induction rule: rt_reachable.induct)
  case (rt_more R R')
  from rt_more(2) show ?case
  proof (cases rule: rt_step.cases)
    case (callback before p rest after R1)
    then show ?thesis using perform_frame(4) [OF callback(3)] rt_more.IH by simp
  next
    case (device_work st' L' c')
    then show ?thesis using device_round_step [OF device_work(2)] device_step_valid rt_more.IH by fastforce
  qed (use rt_more.IH in simp_all)
qed (simp add: rt_start_def)

definition panics_on :: "config \<Rightarrow> device_info \<Rightarrow> bool" where
  "panics_on cfg device \<longleftrightarrow> CreateMissingDeviceTypes cfg \<and> isValidDevice device
     \<and> (contains_nil (VMap (GetZigbeeMessageStruct device ZigbeeSetAccess))
        \<or> contains_nil (VMap (GetZigbeeMessageStruct device ZigbeeEventAccess)))"

lemma device_step_panics:
  assumes "device_step E st L c = None" and "stage_valid st"
  shows "\<exists>device err w. st = DvType device (Done (Inl err)) w \<and> is_no_match err \<and> panics_on (conf E) device"
  using assms
  by (cases "(E, st, L, c)" rule: device_step.cases)
     (auto simp: Let_def type_looked_up_def panics_on_def device_type_None
       split: list.splits prod.splits sum.splits if_splits)

text \<open>A broker refuses when a client asks whether it is connected or subscribes.\<close>

definition refuses :: "broker \<Rightarrow> bool" where
  "refuses b \<longleftrightarrow> (\<exists>tr. b tr IsConnected \<noteq> None) \<or> (\<exists>tr topic qos. b tr (Subscribe topic qos) \<noteq> None)"

lemma zigbee_refused: "z_on_connect cfg b z = None \<Longrightarrow> refuses b"
  by (auto simp: z_on_connect_def startListener_def startDeviceInfoListener_def startEventListener_def
      z_subscribe_def ask_def refuses_def split: option.splits prod.splits)

lemma resubscribe_refused: "fst (resubscribe b topics m) \<noteq> None \<Longrightarrow> refuses b"
proof (induction topics arbitrary: m)
  case (Cons sub subs)
  then show ?case
    by (cases "mgw_act b (Subscribe (fst sub) 2) m") (auto simp: mgw_act_def ask_def refuses_def split: option.splits)
qed simp

lemma gateway_refused:
  assumes "mgw_on_connect b m = None"
  shows "refuses b"
proof -
  have "fst (loadOldSubscriptions b m) \<noteq> None"
    using assms by (auto simp: mgw_on_connect_def initSubscriptions_def split: option.splits prod.splits)
  then show ?thesis
    using resubscribe_refused
    by (auto simp: loadOldSubscriptions_def mgw_connected_def ask_def refuses_def split: option.splits prod.splits)
qed

subsection \<open>A device that ends the process\<close>

text \<open>
  If the handler of the device list panics from the state at hand on, the process can end so at once.
\<close>

interpretation processes: execution "process_step E" "process_reachable f g l E" for E f g l
  by unfold_locales (rule process_more)

lemma alive_run: "(rt_step E)\<^sup>*\<^sup>* R R' \<Longrightarrow> (process_step E)\<^sup>*\<^sup>* (Alive R) (Alive R')"
  by (induction rule: rtranclp_induct) (auto intro: rtranclp.rtrancl_into_rtrancl)

lemma panic_run:
  assumes "device_rest E (dstage R) (dloop R) (the_con R) = None"
  shows "(process_step E)\<^sup>*\<^sup>* (Alive R) (Ended Panicked)"
proof -
  from device_round_panics [OF assms] obtain st' L' c' where
    s: "(device_round E)\<^sup>*\<^sup>* (dstage R, dloop R, the_con R) (st', L', c')" "round_panics E (st', L', c')" by auto
  let ?R = "(put_con c' R)\<lparr>dstage := st', dloop := L', others := others R + spawned (dloop R) L'\<rparr>"
  have "process_step E (Alive ?R) (Ended Panicked)"
    using s(2) by (intro device_panic) (simp_all add: round_panics_def)
  with alive_run [OF own_run_rt [OF lift_device [OF s(1)]]] show ?thesis by (rule rtranclp.rtrancl_into_rtrancl)
qed

text \<open>In particular when the round of a list that waits in the channel panics.\<close>

lemma list_panic_run:
  assumes "dstage R = DvWait" and "deviceupdatebuffer R = devices # buf"
    and "loop_step E (NewList devices) (dloop R, the_con R) = None"
  shows "(process_step E)\<^sup>*\<^sup>* (Alive R) (Ended Panicked)"
proof -
  let ?R = "R\<lparr>dstage := DvList (begin_round (NewList devices) (dloop R)), deviceupdatebuffer := buf\<rparr>"
  have "process_step E (Alive R) (Alive ?R)" using rt_step.device_take [OF assms(1,2)] by simp
  moreover have "(process_step E)\<^sup>*\<^sup>* (Alive ?R) (Ended Panicked)" using panic_run [of E ?R] round_rest assms(3) by simp
  ultimately show ?thesis by (rule converse_rtranclp_into_rtranclp)
qed

end
