(* ===== verification/ProcessProperties.thy ===== *)
theory ProcessProperties
  imports RuntimeProperties ProcessEnd
begin

section \<open>How the process ends\<close>



















end
