(* ===== verification/Spec2Isabelle.thy ===== *)
theory Spec2Isabelle
  imports Scenario AckBag DeviceProperties ConfigProperties RepoProperties ClientProperties ProcessProperties
begin

text \<open>
  This library models the program \<^verbatim>\<open>mgw-zigbee-dc\<close>, which connects the devices of zigbee2mqtt to
  the message bus of a gateway, and proves what its parts promise. All paths below are under
  \<^verbatim>\<open>src/\<close>, those of the packages under \<^verbatim>\<open>src/pkg/\<close>.

  \<^bold>\<open>The program.\<close> Two MQTT clients and a cache of the platform's device types surround the
  connector. zigbee2mqtt publishes the device list and the states of the devices; the gateway
  publishes commands and wants device updates, events and responses. MQTT callbacks put what
  arrives into three channels; one goroutine per channel handles it. A set command is answered
  when a published state confirms it or when a timer expires: those goroutines and the command
  handler race for the answer.

  \<^bold>\<open>The theories, and what they model.\<close>
  \<^item> \<^theory_text>\<open>Prelude\<close>, \<^theory_text>\<open>GoStrings\<close>, \<^theory_text>\<open>GoFloat\<close>, \<^theory_text>\<open>GoJson\<close>, \<^theory_text>\<open>GoMarshal\<close>, \<^theory_text>\<open>GoTime\<close>: Go maps,
    strings as bytes, finite float64 values with correct rounding, the JSON scanner, decoder
    and encoder, durations and the clock: what the source uses of the language's library.
  \<^item> \<^theory_text>\<open>DeviceModel\<close> (\<^verbatim>\<open>model/model.go\<close>): the structs and how JSON fills them.
    \<^theory_text>\<open>StructFields\<close>: structs as tables of fields, for the code that works by reflection.
  \<^item> \<^theory_text>\<open>Config\<close>, \<^theory_text>\<open>Environment\<close> (\<^verbatim>\<open>configuration/config.go\<close>): the configuration, \<^verbatim>\<open>Load\<close> and the
    environment variables.
  \<^item> \<^theory_text>\<open>DeviceRegister\<close>, \<^theory_text>\<open>MessageStructs\<close>, \<^theory_text>\<open>ZigbeeClient\<close> (\<^verbatim>\<open>zigbee2mqtt/*.go\<close>): the device register
    with its two indexes, the messages derived from the exposed features, and the client with
    its handlers, commands and refreshes.
  \<^item> \<^theory_text>\<open>Mqtt\<close>, \<^theory_text>\<open>MgwClient\<close> (\<^verbatim>\<open>mgw/*.go\<close>): the gateway client: topics, payloads, errors, subscriptions.
  \<^item> \<^theory_text>\<open>DeviceRepo\<close> (\<^verbatim>\<open>devicerepo/*.go\<close>), \<^theory_text>\<open>TokenService\<close> (\<^verbatim>\<open>devicerepo/auth/auth.go\<close>): the cache of
    device types and the access token; \<open>with_token_service\<close> plugs the second into the first.
    \<^theory_text>\<open>RepoSections\<close>: the methods of the cache cut into sections, for two goroutines that use it.
  \<^item> \<^theory_text>\<open>AckMatching\<close>, \<^theory_text>\<open>AckRegistry\<close> (\<^verbatim>\<open>connector/ack.go\<close>): what a command waits for, when a state
    confirms it, and the registry of the waiting commands. \<^theory_text>\<open>AckBag\<close>: the registry as the bag it
    promises to be.
  \<^item> \<^theory_text>\<open>ConnectorState\<close>, \<^theory_text>\<open>CommandHandling\<close>, \<^theory_text>\<open>DeviceHandling\<close>, \<^theory_text>\<open>EventHandling\<close> (\<^verbatim>\<open>connector/connector.go\<close>,
    \<^verbatim>\<open>command.go\<close>, \<^verbatim>\<open>device.go\<close>, \<^verbatim>\<open>event.go\<close>): the struct \<^verbatim>\<open>Connector\<close> and every handler as a function on it.
  \<^item> \<^theory_text>\<open>SetProtocol\<close>: the goroutines around set commands as the step relations \<open>internal\<close> and
    \<open>external\<close>. \<^theory_text>\<open>LoopStages\<close>: the handlers of the three loops cut where another goroutine can
    come in between. \<^theory_text>\<open>Startup\<close> (\<^verbatim>\<open>main.go\<close>, \<^verbatim>\<open>helper.go\<close>, \<^verbatim>\<open>Start\<close>, \<^verbatim>\<open>StartWithDependencies\<close>) and \<^theory_text>\<open>Runtime\<close>:
    the start, the channels, the mutex of the values, the wait group, the end of the context, and
    all goroutines together as the relation \<open>rt_step\<close>. \<^theory_text>\<open>RuntimeInvariants\<close>, \<^theory_text>\<open>SharedRepo\<close>,
    \<^theory_text>\<open>GatewayMessages\<close> and \<^theory_text>\<open>RuntimeRuns\<close>: what holds in every reachable state, also of the shared cache, the
    reason of every message that reaches the gateway, and what the goroutines can always do.
    \<^theory_text>\<open>FairRuns\<close>, \<^theory_text>\<open>ProtocolFairness\<close>, \<^theory_text>\<open>Fairness\<close>, \<^theory_text>\<open>FairAnswers\<close>, \<^theory_text>\<open>FairShutdown\<close>, \<^theory_text>\<open>RestingRuns\<close>:
    runs in which no goroutine is neglected, what they must do before and after the end of the context, and that
    there are such runs. \<^theory_text>\<open>ProcessEnd\<close>: the process with its ends: the return of \<^verbatim>\<open>main\<close>, panics and \<^verbatim>\<open>log.Fatal\<close>.
  \<^item> \<^theory_text>\<open>Scenario\<close>: example data for the witnesses. \<^theory_text>\<open>DeviceProperties\<close>, \<^theory_text>\<open>ConfigProperties\<close>,
    \<^theory_text>\<open>ClientProperties\<close>, \<^theory_text>\<open>RepoProperties\<close>, \<^theory_text>\<open>RuntimeProperties\<close>,
    \<^theory_text>\<open>ProcessProperties\<close> and this theory: the properties.

  \<^bold>\<open>How the model is to be read.\<close> A Go function is a HOL function that returns the new state
  beside its results; an error is a value (\<open>Inl\<close>, or \<open>Some\<close> error in a result like Go's
  \<^verbatim>\<open>err\<close>); a panic is \<open>None\<close> or \<open>StartPanic\<close>. A Go map is an association list whose order stands
  for one of the orders of \<^verbatim>\<open>range\<close>. What is not code of the repository is an argument: the MQTT
  brokers, the platform, the identity provider, the expression library, the file system, the
  environment, the clocks, the printer of an error text. These are functions of everything
  that was asked before, so they may fail and recover at any point; nothing is assumed of them
  unless a statement says so (\<open>reliable\<close> is the broker that accepts everything).

  \<^bold>\<open>What the lemmas show.\<close> Round trips of strings and commands; the invariants \<open>reg_wf\<close>,
  \<open>zclient_wf\<close>, \<open>ack_wf\<close>; frames of each operation (\<open>keeps\<close>, \<open>quiet\<close>); the contracts of lookups
  (\<open>device_lookup\<close>), of searches with a reload (\<open>type_search\<close>), of the source of
  tokens (\<open>token_provider\<close>), of calls that report whether
  their message went out (\<open>reports\<close>), of the handlers beside the protocol (\<open>bystander\<close>), of step relations (\<open>execution\<close>), also with
  goroutines as labels (\<open>scheduled\<close>), and of loops that rewrite a string (\<open>piecewise\<close>), each a
  locale interpreted on the code's definitions. \<open>SetProtocol\<close> has the invariants of the protocol:
  each command has exactly one token, which is a part of the handler, an entry of the registry,
  a goroutine or an answer; a measure decreases with each internal step. \<open>Runtime\<close> shows that the
  whole connector refines that protocol, \<open>LoopStages\<close> that the stages of the loops compute the
  handlers. \<open>RuntimeInvariants\<close> has the histories of the channels, the mutex (\<open>mux_inv\<close>), the wait
  group (\<open>members\<close>) and what holds before the end of the context (\<open>running\<close>); \<open>GatewayMessages\<close> follows
  what each handler adds to the accepted messages (\<open>adds\<close>) up to the invariant \<open>messages_inv\<close>; \<open>RuntimeRuns\<close> builds the
  runs that finish a round, release the mutex, empty the command channel and shut down, and shows
  that the state \<open>event_jam\<close> blocks the shutdown. \<open>FairRuns\<close> has the rules of progress under weak and
  strong fairness, \<open>ProtocolFairness\<close> how one step moves the token of a command on. \<open>Fairness\<close> names the
  goroutines (\<open>moves\<close>), says what is asked of the scheduler (\<open>fair_run\<close>), and leads the event loop, the mutex and the
  command loop back to where they wait; \<open>FairAnswers\<close> goes on from the command channel over the timers to the
  answer, \<open>FairShutdown\<close> from the end of the context to the return of every goroutine; \<open>RestingRuns\<close> builds
  fair runs for the witnesses. \<open>RepoSections\<close> has a small logic (\<open>safe\<close>) for sections among which
  another goroutine may come, \<open>SharedRepo\<close> uses it in the loops. \<open>AckBag\<close> has the refinement of the
  registry to a bag.

  \<^bold>\<open>Bounds and fuel.\<close> Loops over strings have the length of the string as fuel, and a lemma says
  that this is enough (\<open>duration_groups_fuel\<close>, \<open>pieces_fuel_enough\<close>, \<open>strip_done\<close>); the scanner,
  the list loops and the decoders are structural; the worklist of the get message and the
  matches of the environment names terminate by measures. int64 results are kept in range by
  the saturation and the overflow checks of the source.

  \<^bold>\<open>Not modelled.\<close> Log messages; the flag parser of \<^verbatim>\<open>main\<close>, which gives the location of the
  configuration; the test support. Case folding is exact on ASCII only. A critical
  section of the device repository cache is one step with the calls of the platform in it, and so
  are a call of the token service and a publish with its fallback error message; the data races on \<^verbatim>\<open>lastDtRefresh\<close> and \<^verbatim>\<open>Auth\<close> are below that level. A callback of zigbee2mqtt may go on before the
  \<^verbatim>\<open>Observe\<close> it called is done, and messages may still arrive after the disconnect, which allows
  more orders than occur. Durations of sleeps are not modelled: a timer may fire at any time. The
  start is one step: callbacks that arrive while it is going on come after it.
\<close>

section \<open>Set commands and their answers\<close>

text \<open>
  C1. However the goroutines are interleaved, no set command is answered twice: the numbers of
  the answered commands are distinct, each belongs to a command that was taken, and one answer
  is at most one message, an error or a response addressed to that command.
\<close>

theorem set_answered_at_most_once:
  assumes "reachable E s"
  shows "distinct (map fst (answered s))
    \<and> (\<forall>n a ms. (n, a, ms) \<in> set (answered s) \<longrightarrow>
        n < length (commands s) \<and> length ms \<le> 1
        \<and> (\<forall>m \<in> set ms. answers_to (cd_DeviceId (commands s ! n)) (cd_ServiceId (commands s ! n))
             (CommandId (cd_Command (commands s ! n))) m))"
  using answered_distinct(1) [OF reachable_tokens [OF assms]] addr_invD(7) [OF reachable_addr [OF assms]]
  by (auto simp: answer_ok_def reply_ok_def Let_def)

theorem set_answered_at_most_once_witness:
  "distinct (map fst (answered demo_answered)) \<and> length (answered demo_answered) = 1"
proof -
  have "length (map fst (answered demo_answered)) = 1" by (simp only: demo_answers) simp
  then show ?thesis using set_answered_at_most_once [OF reachable_answered] by simp
qed

text \<open>
  While the registry is open (the program is not shutting down), the goroutines that run
  and the timers that tick can always be run until nothing is left to run, and then every set
  command that was ever taken is answered exactly once.
\<close>

theorem set_eventually_answered_once:
  assumes "reachable E s" and "is_open s"
  shows "\<exists>s'. (internal E)\<^sup>*\<^sup>* s s' \<and> idle s' \<and> commands s' = commands s
    \<and> distinct (map fst (answered s')) \<and> set (map fst (answered s')) = {..<length (commands s)}"
proof -
  from reach_idle [OF reachable_inv [OF assms(1)]] obtain s' where
    s': "(internal E)\<^sup>*\<^sup>* s s'" "idle s'" "sys_inv s'" "is_open s'" "commands s' = commands s"
    using assms(2) by blast
  have tok: "tokens_ok s'" using reachable_tokens reachable_internal assms(1) s'(1) by blast
  have "set (map fst (answered s')) = {..<length (commands s)}"
    using mset_eq_setD [OF idle_answered [OF s'(2,3) tok s'(4)]] s'(5) by auto
  with s' answered_distinct(1) [OF tok] show ?thesis by blast
qed

theorem set_eventually_answered_once_witness:
  "\<exists>s'. (internal demo_env)\<^sup>*\<^sup>* demo_registered s' \<and> idle s' \<and> map fst (answered s') = [0]"
proof -
  have "is_open demo_registered"
    by (simp add: is_open_def demo_registered_def on_sys_def sys_start_def on_registry_def)
  from set_eventually_answered_once [OF reachable_registered this] obtain s' where
    s': "(internal demo_env)\<^sup>*\<^sup>* demo_registered s'" "idle s'" "distinct (map fst (answered s'))"
    "set (map fst (answered s')) = {..<length (commands demo_registered)}" by blast
  have "{..<length (commands demo_registered)} = {0}"
    by (simp add: demo_registered_def on_sys_def lessThan_Suc)
  with s'(4) have set0: "set (map fst (answered s')) = {0}" by (simp only:)
  have single: "xs = [0]" if "distinct xs" "set xs = {0}" for xs :: "nat list"
    using that by (cases xs; cases "tl xs") (auto simp: subset_singleton_iff)
  from single [OF s'(3) set0] s'(1,2) show ?thesis by (intro exI [of _ s'] conjI)
qed



text \<open>
  C13. The goroutines around the commands always come to an end: from any reachable state at most
  \<open>work s\<close> internal steps are possible, in whatever order they are taken.
\<close>

theorem goroutines_terminate:
  assumes "reachable E s" and "(internal E ^^ k) s s'"
  shows "k \<le> work s"
  using internal_run_bound [OF assms(2) reachable_inv [OF assms(1)]] by simp

theorem goroutines_terminate_witness: "1 \<le> work demo_observed"
proof -
  have "internal demo_env demo_observed demo_answered"
    using internal.deliver [of on_entry "''{\"state\":\"ON\"}''" demo_observed demo_env]
    by (simp add: demo_answered_def demo_observed_def on_sys_def sys_start_def on_entry_def)
  then have "(internal demo_env ^^ 1) demo_observed demo_answered" by (simp only: relpowp_1)
  from goroutines_terminate [OF reachable_observed this] show ?thesis .
qed

text \<open>
  The wait group is never misused: \<^verbatim>\<open>Observe\<close> adds the goroutines of its matches only while
  the count is positive, and the count never becomes negative.
\<close>

theorem wait_group_positive:
  assumes "reachable E s"
  shows "0 \<le> wg s \<and> (\<forall>s'. internal E s s' \<and> wg s < wg s' \<longrightarrow> 1 \<le> wg s)"
proof -
  have ok: "wg_ok s" by (rule reachable_wg [OF assms])
  have "1 \<le> wg s" if "internal E s s'" "wg s < wg s'" for s'
    using that(1)
  proof (cases rule: internal.cases)
    case (observe_end ieee pl st r matched r')
    then have "matched \<noteq> []" using that(2) by auto
    then have "\<not> ack_closed r" using observe_end(4) by (auto simp: observe_match_def)
    with ok observe_end(3) show ?thesis by (auto simp: wg_ok_def)
  qed (use that(2) in auto)
  with ok show ?thesis by (auto simp: wg_ok_def)
qed

theorem wait_group_positive_witness: "0 \<le> wg demo_observed \<and> wg demo_observed = 2"
  using wait_group_positive [OF reachable_observed] by (simp add: demo_observed_def)

section \<open>What acknowledges a command\<close>

text \<open>
  C15. The expectation of a command, key by key: a key of the command is compared iff it is not
  \<^verbatim>\<open>transition\<close>, some feature of the device, nested or not, publishes it (or the device definition
  is not known), and the device has reported it before (or has reported nothing). Nothing else
  is expected, and without such a key the command cannot be acknowledged.
\<close>

theorem ack_expectation_keys:
  assumes "unmarshal_map data = Some payload"
  shows "map_of (fst (ackExpectation data exposes lastState)) k =
      (if k \<noteq> ''transition'' \<and> (exposes = [] \<or> publishes exposes k)
          \<and> (lastState = [] \<or> k \<in> fst ` set lastState) then map_of payload k else None)
    \<and> (snd (ackExpectation data exposes lastState) \<longleftrightarrow>
        (\<exists>k' \<in> fst ` set payload. k' \<noteq> ''transition'' \<and> (exposes = [] \<or> publishes exposes k')
          \<and> (lastState = [] \<or> k' \<in> fst ` set lastState)))"
proof -
  let ?ex = "fst (ackExpectation data exposes lastState)"
  let ?ok = "\<lambda>k. k \<noteq> ''transition'' \<and> (exposes = [] \<or> publishes exposes k)
    \<and> (lastState = [] \<or> k \<in> fst ` set lastState)"
  have look: "map_of ?ex k' = (if ?ok k' then map_of payload k' else None)" for k'
    by (rule ackExpectation_lookup [OF assms])
  have keys: "fst ` set ?ex = {k' \<in> fst ` set payload. ?ok k'}"
  proof
    show "fst ` set ?ex \<subseteq> {k' \<in> fst ` set payload. ?ok k'}"
    proof
      fix k' assume "k' \<in> fst ` set ?ex"
      then have "map_of ?ex k' \<noteq> None" by (simp only: map_of_eq_None_iff not_not)
      with look [of k'] show "k' \<in> {k' \<in> fst ` set payload. ?ok k'}"
        by (cases "?ok k'") (simp_all add: map_of_eq_None_iff)
    qed
    show "{k' \<in> fst ` set payload. ?ok k'} \<subseteq> fst ` set ?ex"
    proof
      fix k' assume k': "k' \<in> {k' \<in> fst ` set payload. ?ok k'}"
      then have "map_of ?ex k' \<noteq> None" using look [of k'] by (simp add: map_of_eq_None_iff)
      then show "k' \<in> fst ` set ?ex" by (simp only: map_of_eq_None_iff not_not)
    qed
  qed
  have some: "A \<noteq> {} \<longleftrightarrow> (\<exists>x \<in> B. P x)" if "A = {x \<in> B. P x}" for A B :: "string set" and P
    using that by blast
  from some [OF keys] have "?ex \<noteq> [] \<longleftrightarrow> (\<exists>k' \<in> fst ` set payload. ?ok k')" by (simp only: image_is_empty set_empty)
  with look [of k] show ?thesis by (simp only: ackExpectation_ok)
qed

theorem ack_expectation_keys_witness:
  "map_of (fst (ackExpectation ''{\"state\":\"ON\",\"transition\":2}'' [light_feature] [])) ''state'' = Some (VStr ''ON'')
    \<and> map_of (fst (ackExpectation ''{\"state\":\"ON\",\"transition\":2}'' [light_feature] [])) ''transition'' = None"
proof -
  have data: "unmarshal_map ''{\"state\":\"ON\",\"transition\":2}'' =
      Some [(''state'', VStr ''ON''), (''transition'', VFloat (F64 1 1))]"
    by code_simp
  have "publishes [light_feature] ''state''"
    by (simp add: publishes_def light_feature_def switch_feature_def zero_attrs_def published_access_def
        zigbeePublishedAccess_def)
  then show ?thesis
    using ack_expectation_keys [OF data, of "[light_feature]" "[]" "''state''"]
      ack_expectation_keys [OF data, of "[light_feature]" "[]" "''transition''"] by simp
qed

text \<open>
  C16. \<^verbatim>\<open>collectPublishedProperties\<close>, a recursion with a shared map, computes exactly the
  properties of which some occurrence in the nested features is published; another occurrence
  without access never hides one, whatever the order.
\<close>

theorem collect_published_properties_exact:
  "map_of (collectPublishedProperties features []) k = Some True \<longleftrightarrow> publishes features k"
  by (auto simp: collect_lookup split: if_splits)

text \<open>
  C17. \<^verbatim>\<open>ackMatches\<close> decides the rules of agreement: a state matches iff it has a confirming
  value for every expected key.
\<close>

theorem ack_matches_iff_confirms:
  "ackMatches expected state \<longleftrightarrow>
     (\<forall>(k, e) \<in> set expected. \<exists>g. map_of state k = Some g \<and> confirms e g)"
  by (rule ackMatches_iff)

theorem ack_matches_iff_confirms_witness:
  "ackMatches [(''state'', VStr ''on'')] [(''brightness'', VNil), (''state'', VStr ''ON'')]
    \<and> \<not> ackMatches [(''state'', VStr ''on'')] [(''state'', VBool True)]"
proof -
  have "confirms (VStr ''on'') (VStr ''ON'')" by (rule confirms.same_text) (simp add: EqualFold_def go_lib, code_simp)
  moreover have "\<not> confirms (VStr ''on'') (VBool True)"
    unfolding ackValueMatches_confirms [symmetric] by code_simp
  ultimately show ?thesis
    using ack_matches_iff_confirms [of "[(''state'', VStr ''on'')]"] by (simp del: ackMatches.simps)
qed

text \<open>
  One observed state takes exactly the commands of its device that it satisfies out of a
  well-formed registry, in the order they were registered; the others stay, with their timers,
  and the timers of the answered ones are stopped.
\<close>

theorem observe_takes_matching:
  assumes "ack_wf r" and "Observe ieee payload r = (matched, r')" and "unmarshal_map payload = Some state"
  shows "matched = filter (\<lambda>e. ackMatches (pa_expected e) state) (pending_of ieee r)
    \<and> mset (entries r) = mset matched + mset (entries r')
    \<and> set (armed r') = set (armed r) \<inter> set (entries r') \<and> ack_wf r'"
proof (cases "hasPending ieee r")
  case True
  then have "observe_match ieee state r = (matched, r')"
    using assms by (simp add: Observe_def observe_begin_def)
  from observe_match_result [OF assms(1) this] show ?thesis by auto
next
  case False
  then show ?thesis using assms by (auto simp: Observe_def observe_begin_def hasPending_def ack_wf_def)
qed

theorem observe_takes_matching_witness:
  "fst (Observe ''0x01'' ''{\"state\":\"ON\"}'' on_registry) = [on_entry]"
proof -
  have wf: "ack_wf on_registry"
    by (simp add: ack_wf_def pend_wf_def on_registry_def entries_def on_entry_def)
  have st: "unmarshal_map ''{\"state\":\"ON\"}'' = Some [(''state'', VStr ''ON'')]" by code_simp
  have "Observe ''0x01'' ''{\"state\":\"ON\"}'' on_registry = ([on_entry], newAckRegistry (30 * second))"
    by (simp add: Observe_def demo_observes demo_matches)
  from observe_takes_matching [OF wf this st] show ?thesis
    by (simp add: Observe_def demo_observes demo_matches)
qed

text \<open>
  C18. The registry implements a bag of waiting commands: registering puts a command into an open
  one, a cancellation and an expiry take out exactly their command and report or answer only if
  it was still there, a state takes out all the commands it satisfies, and closing empties it for
  ever. Every operation keeps the registry well-formed: one list per device without empty lists,
  distinct addresses, timers only for waiting entries. An expiring entry is one whose timer has
  fired, and an address stands for one entry.
\<close>

theorem registry_refines_bag:
  assumes "ack_wf r" and "pa_ptr e \<notin> pa_ptr ` set (entries r)" and "only_entry ticket r"
    and "only_entry fired r" and "pa_ptr fired \<notin> pa_ptr ` set (armed r)"
  shows "implements (Register (pa_ptr e) (pa_ieee e) (pa_deviceId e) (pa_serviceId e) (pa_commandId e) (pa_expected e) r)
      (bag_register e (bag_of r))
    \<and> implements (ack_cancel (Some ticket) r) (bag_take ticket (bag_of r))
    \<and> implements (prod.swap (expire b fired r m))
        (if fst (bag_take fired (bag_of r)) then expire_fail b (ack_timeout r) fired m else m,
         snd (bag_take fired (bag_of r)))
    \<and> implements (apfst mset (Observe ieee payload r)) (bag_observe ieee (unmarshal_map payload) (bag_of r))
    \<and> implements ((), ack_close r) (bag_close (bag_of r))"
  using implements_Register [OF assms(1,2)] implements_cancel [OF assms(1,3)]
    implements_expire [OF assms(1,4,5)] implements_Observe [OF assms(1)] implements_close [OF assms(1)]
  by blast

theorem registry_refines_bag_witness:
  "bag_of (snd (ack_cancel (Some on_entry) on_registry)) = (False, {#}) \<and> fst (ack_cancel (Some on_entry) on_registry)"
proof -
  have wf: "ack_wf on_registry" and "pa_ptr (on_entry\<lparr>pa_ptr := 7\<rparr>) \<notin> pa_ptr ` set (entries on_registry)"
    and "only_entry on_entry on_registry" "only_entry (on_entry\<lparr>pa_ptr := 7\<rparr>) on_registry"
    and "pa_ptr (on_entry\<lparr>pa_ptr := 7\<rparr>) \<notin> pa_ptr ` set (armed on_registry)"
    by (simp_all add: ack_wf_def pend_wf_def on_registry_def entries_def on_entry_def only_entry_def)
  from registry_refines_bag [OF this] have
    "implements (ack_cancel (Some on_entry) on_registry) (bag_take on_entry (bag_of on_registry))" by blast
  then show ?thesis by (simp add: implements_def bag_take_def bag_of_def on_registry_def entries_def)
qed

text \<open>
  Every operation of the registry keeps it well-formed: one list per device without empty
  lists, entries with distinct addresses, timers only for waiting entries, and nothing waiting
  once it is closed. An expiring entry is one whose timer has fired.
\<close>

theorem registry_stays_well_formed:
  assumes "ack_wf r" and "ptr \<notin> pa_ptr ` set (entries r)" and "pa_ptr fired \<notin> pa_ptr ` set (armed r)"
  shows "ack_wf (snd (Register ptr ieee deviceId serviceId commandId expected r))
    \<and> ack_wf (snd (ack_cancel ticket r)) \<and> ack_wf (snd (Observe ieee payload r))
    \<and> ack_wf (fst (expire b fired r m)) \<and> ack_wf (ack_close r)"
proof (intro conjI)
  show "ack_wf (snd (Register ptr ieee deviceId serviceId commandId expected r))"
    using ack_wf_Register [OF assms(1,2)] by (metis prod.collapse)
  show "ack_wf (snd (Observe ieee payload r))"
  proof (cases "observe_begin ieee payload r")
    case (Some st)
    then show ?thesis using observe_match_result(3) [OF assms(1), of ieee st]
      by (cases "observe_match ieee st r") (simp add: Observe_def)
  qed (use assms(1) in \<open>simp add: Observe_def\<close>)
qed (use assms ack_wf_cancel ack_wf_expire ack_close_result(4) in blast)+

theorem registry_stays_well_formed_witness:
  "ack_wf (ack_close on_registry) \<and> ack_wf (fst (expire reliable (on_entry\<lparr>pa_ptr := 7\<rparr>) on_registry new_mgw_client))"
proof -
  have wf: "ack_wf on_registry" and "1 \<notin> pa_ptr ` set (entries on_registry)"
    and "pa_ptr (on_entry\<lparr>pa_ptr := 7\<rparr>) \<notin> pa_ptr ` set (armed on_registry)"
    by (simp_all add: ack_wf_def pend_wf_def on_registry_def entries_def on_entry_def)
  from registry_stays_well_formed [OF this] show ?thesis by blast
qed

text \<open>
  The configured timeout: nothing, a dash and a zero duration disable the acknowledgement,
  an unparsable or negative duration is refused; every other duration is the timeout.
\<close>

theorem command_ack_timeout:
  "(parseCommandAckTimeout cfg = Inr d \<longleftrightarrow>
      (TrimSpace (CommandAckTimeout cfg) \<in> {[], ''-''} \<and> d = 0)
      \<or> (TrimSpace (CommandAckTimeout cfg) \<notin> {[], ''-''}
          \<and> ParseDuration (TrimSpace (CommandAckTimeout cfg)) = Some d \<and> 0 \<le> d))
    \<and> ((\<exists>e. parseCommandAckTimeout cfg = Inl e) \<longleftrightarrow>
        TrimSpace (CommandAckTimeout cfg) \<notin> {[], ''-''}
        \<and> \<not> (\<exists>d. ParseDuration (TrimSpace (CommandAckTimeout cfg)) = Some d \<and> 0 \<le> d))"
  by (auto simp: parseCommandAckTimeout_def Let_def split: option.splits)

section \<open>Commands\<close>

text \<open>
  C19. The handler itself never answers a command twice, whatever the gateway's broker does,
  and it ignores the devices of other connectors.
\<close>

theorem command_handler_answers_at_most_once:
  "(\<exists>l. sent (handleCommand E ptr d c) = sent c @ l \<and> length l \<le> 1
      \<and> (\<forall>m \<in> set l. answers_to (cd_DeviceId d) (cd_ServiceId d) (CommandId (cd_Command d)) m))
    \<and> (getDeviceIeeeAddress (conf E) (cd_DeviceId d) = None \<longrightarrow> handleCommand E ptr d c = c)"
proof -
  let ?ok = "\<lambda>m. answers_to (cd_DeviceId d) (cd_ServiceId d) (CommandId (cd_Command d)) m"
  have set: "\<exists>l. sent (handleSet E ptr i d c) = sent c @ l \<and> length l \<le> 1 \<and> (\<forall>m \<in> set l. ?ok m)" for i
  proof -
    obtain t c1 where 1: "set_register ptr i d c = (t, c1)" by fastforce
    obtain err c2 where 2: "set_publish E i d c1 = (err, c2)" by fastforce
    obtain a c3 where 3: "set_decide d t err c2 = (a, c3)" by fastforce
    have "sent c3 = sent c" using 1 2 3 by (rule set_parts_sent)
    then show ?thesis
      using 1 2 3 decide_reply(1) [of d t err c2 _ c3] send_answer_sent [of _ _ _ _ E c3]
      by (cases a) (auto simp: handleSet_def addressed_to_def)
  qed
  have get: "\<exists>l. sent (handleGet E i d c) = sent c @ l \<and> length l \<le> 1 \<and> (\<forall>m \<in> set l. ?ok m)" for i
    using respond_or_fail_sent [of E "cd_DeviceId d" "cd_ServiceId d" "\<lparr>CommandId = CommandId (cd_Command d), Data = _\<rparr>"]
      SendCommandError_answers
    by (cases "c_GetByIeee i c") (auto simp: handleGet_respond)
  show ?thesis
    using set get SendCommandError_answers [of E "CommandId (cd_Command d)" "''use of unknown service: '' @ cd_ServiceId d" c]
    by (auto simp: handleCommand_def split: option.split)
qed

theorem command_handler_answers_at_most_once_witness:
  "handleCommand demo_env 0 (switch_on\<lparr>cd_DeviceId := ''other:0x01''\<rparr>) demo_connector = demo_connector
    \<and> length (sent (handleCommand demo_env 0 (switch_on\<lparr>cd_ServiceId := ''toggle''\<rparr>) demo_connector)) \<le> 1"
proof -
  have "getDeviceIeeeAddress (conf demo_env) (cd_DeviceId (switch_on\<lparr>cd_DeviceId := ''other:0x01''\<rparr>)) = None"
    by code_simp
  moreover have "sent demo_connector = []"
    by (simp add: sent_def demo_connector_def new_mgw_client_def)
  ultimately show ?thesis
    using command_handler_answers_at_most_once [of demo_env 0 "switch_on\<lparr>cd_DeviceId := ''other:0x01''\<rparr>" demo_connector]
      command_handler_answers_at_most_once [of demo_env 0 "switch_on\<lparr>cd_ServiceId := ''toggle''\<rparr>" demo_connector]
    by auto
qed

text \<open>
  C20. With a reliable gateway every command for one of the connector's devices gets its answer:
  \<^verbatim>\<open>get\<close> the last state of the device or the reason there is none, an unknown service an error,
  and \<^verbatim>\<open>set\<close> without acknowledgements the outcome of the publish.
\<close>

theorem command_answers:
  assumes "mbroker E = reliable" and "getDeviceIeeeAddress (conf E) (cd_DeviceId d) = Some ieee"
    and "cd_ServiceId d = ''set'' \<Longrightarrow> acks c = None"
  shows "sent (handleCommand E ptr d c) = sent c @
     [if cd_ServiceId d = ''get'' then
        (case c_GetByIeee ieee c of
           Inr v \<Rightarrow> message_on (''response/'' @ cd_DeviceId d @ ''/get'')
                      (enc_command \<lparr>CommandId = CommandId (cd_Command d), Data = v\<rparr>)
         | Inl e \<Rightarrow> message_on (''error/command/'' @ CommandId (cd_Command d))
                      (''unable to get zigbee-value: '' @ error_text e))
      else if cd_ServiceId d = ''set'' then
        (case fst (c_SetByIeee E ieee (Data (cd_Command d)) c) of
           None \<Rightarrow> message_on (''response/'' @ cd_DeviceId d @ ''/set'')
                      (enc_command \<lparr>CommandId = CommandId (cd_Command d), Data = []\<rparr>)
         | Some e \<Rightarrow> message_on (''error/command/'' @ CommandId (cd_Command d))
                      (''unable to send command to zigbee-mqtt: '' @ error_text e))
      else message_on (''error/command/'' @ CommandId (cd_Command d))
             (''use of unknown service: '' @ cd_ServiceId d)]"
proof -
  note sends = respond_or_fail_reliable [OF assms(1)] sent_SendCommandError_reliable [OF assms(1)]
  consider "cd_ServiceId d = ''get''" | "cd_ServiceId d = ''set''"
    | "cd_ServiceId d \<noteq> ''get''" "cd_ServiceId d \<noteq> ''set''" by blast
  then show ?thesis
  proof cases
    case 1
    then show ?thesis by (simp add: handleCommand_def assms(2) handleGet_respond sends split: sum.split)
  next
    case 2
    have "set_register ptr ieee d c = (None, c)" using assms(3) [OF 2] by (simp add: set_register_def)
    moreover have "sent (snd (c_SetByIeee E ieee (Data (cd_Command d)) c)) = sent c"
      by (simp add: c_SetByIeee_def sent_def)
    ultimately show ?thesis using 2
      by (cases "c_SetByIeee E ieee (Data (cd_Command d)) c")
         (simp add: handleCommand_def assms(2) handleSet_def set_publish_def set_decide_def Let_def
          send_answer_simps sends split: option.split)
  next
    case 3
    then show ?thesis by (simp add: handleCommand_def assms(2) sends)
  qed
qed

theorem command_answers_witness:
  "sent (handleCommand demo_env 0 (switch_on\<lparr>cd_ServiceId := ''get''\<rparr>) demo_connector) =
    [message_on ''error/command/c1'' ''unable to get zigbee-value: no value found'']"
proof -
  have "getDeviceIeeeAddress (conf demo_env) (cd_DeviceId (switch_on\<lparr>cd_ServiceId := ''get''\<rparr>)) = Some ''0x01''"
    by code_simp
  moreover have "mbroker demo_env = reliable" by (simp add: demo_env_def)
  moreover have "c_GetByIeee ''0x01'' demo_connector = Inl ErrNoValueFound" by code_simp
  moreover have "sent demo_connector = []"
    by (simp add: sent_def demo_connector_def new_mgw_client_def)
  ultimately show ?thesis
    using command_answers [where E = demo_env and d = "switch_on\<lparr>cd_ServiceId := ''get''\<rparr>"
        and ieee = "''0x01''" and ptr = 0 and c = demo_connector]
    by (simp add: switch_on_def)
qed

end
